(* ===== verification/Chain_Prelude.thy ===== *)
theory Chain_Prelude
  imports Main "HOL-Library.Word" "HOL-Library.Char_ord"
begin

text \<open>
  Shared vocabulary of the development: machine integer types, the exceptions of
  \<^verbatim>\<open>libraries/chain/include/eosio/chain/exceptions.hpp\<close> as values, the result type of
  code that can throw, and generic lemmas on results, lists, options and words that
  the component theories use.
\<close>

section \<open>Machine integers and digests\<close>

type_synonym u8 = "8 word"
type_synonym u16 = "16 word"
type_synonym u32 = "32 word"
type_synonym u64 = "64 word"
type_synonym u128 = "128 word"

section \<open>Exceptions and results\<close>

text \<open>
  One constructor per exception class the modelled code throws.  \<open>std_out_of_range\<close> and
  \<open>std_logic_error\<close> are what the chainbase object store raises from \<open>get\<close> on a missing
  row and from \<open>create\<close> on a row whose unique key is taken.  \<open>undefined_behaviour\<close> marks
  the places where C++ leaves the outcome undefined (a division by zero, a read past the end
  of a container); the properties show where it is reached and where it is not.
\<close>

datatype chain_error =
    name_type_exception
  | symbol_type_exception
  | asset_type_exception
  | overflow_exception
  | parse_error_exception
  | rate_limiting_state_inconsistent
  | resource_limit_exception
  | tx_cpu_usage_exceeded
  | tx_net_usage_exceeded
  | block_resource_exhausted
  | transaction_exception
  | ram_usage_exceeded
  | block_validate_exception
  | producer_double_confirm
  | unlinkable_block_exception
  | wrong_producer
  | wrong_signing_key
  | producer_schedule_exception
  | invalid_block_header_extension
  | ill_formed_protocol_feature_activation
  | fork_database_exception
  | fork_db_block_not_found
  | permission_query_exception
  | authorization_exception
  | invalid_permission
  | irrelevant_auth_exception
  | unsatisfied_authorization
  | missing_auth_exception
  | tx_irrelevant_sig
  | unlinkable_min_permission_action
  | action_validate_exception
  | action_type_exception
  | account_query_exception
  | account_name_exists_exception
  | invalid_contract_vm_type
  | invalid_contract_vm_version
  | set_exact_code
  | tx_not_found
  | key_blacklist_exception
  | subjective_block_production_exception
  | unauthorized_ram_usage_increase
  | invalid_table_payer
  | invalid_table_iterator
  | table_access_violation
  | table_operation_not_permitted
  | table_not_in_cache
  | secondary_key_exists_exception
  | std_out_of_range
  | std_logic_error
  | undefined_behaviour
  | other_exception nat

text \<open>A computation that may throw: \<open>Inl\<close> the exception, \<open>Inr\<close> the value.\<close>

type_synonym 'a res = "chain_error + 'a"

text \<open>
  \<open>EOS_ASSERT c e k\<close> is the macro of the source followed by the rest \<open>k\<close> of the
  function body: throw \<open>e\<close> unless \<open>c\<close> holds.  \<open>bind_res\<close> sequences a call that may
  throw with the rest of the body.
\<close>

abbreviation EOS_ASSERT :: "bool \<Rightarrow> chain_error \<Rightarrow> 'a res \<Rightarrow> 'a res" where
  "EOS_ASSERT c e k \<equiv> (if c then k else Inl e)"

definition bind_res :: "'a res \<Rightarrow> ('a \<Rightarrow> 'b res) \<Rightarrow> 'b res" where
  "bind_res m k = (case m of Inl e \<Rightarrow> Inl e | Inr x \<Rightarrow> k x)"

definition is_ok :: "'a res \<Rightarrow> bool" where
  "is_ok m = (case m of Inl _ \<Rightarrow> False | Inr _ \<Rightarrow> True)"

lemma bind_res_simps [simp]:
  "bind_res (Inl e) k = Inl e"
  "bind_res (Inr x) k = k x"
  by (simp_all add: bind_res_def)

lemma bind_res_Inr_iff [simp]:
  "bind_res m k = Inr y \<longleftrightarrow> (\<exists>x. m = Inr x \<and> k x = Inr y)"
  by (cases m) simp_all

lemma bind_res_Inl_iff:
  "bind_res m k = Inl e \<longleftrightarrow> m = Inl e \<or> (\<exists>x. m = Inr x \<and> k x = Inl e)"
  by (cases m) simp_all

lemma bind_res_assoc: "bind_res (bind_res m f) g = bind_res m (\<lambda>x. bind_res (f x) g)"
  by (cases m) simp_all

lemma bind_res_cong [fundef_cong]:
  "m = m' \<Longrightarrow> (\<And>x. m' = Inr x \<Longrightarrow> f x = g x) \<Longrightarrow> bind_res m f = bind_res m' g"
  by (cases m') simp_all

lemma EOS_ASSERT_Inr_iff [simp]:
  "EOS_ASSERT c e k = Inr x \<longleftrightarrow> c \<and> k = Inr x"
  by simp

lemma is_ok_simps [simp]: "is_ok (Inl e) = False" "is_ok (Inr x) = True"
  by (simp_all add: is_ok_def)

lemma is_ok_iff: "is_ok m \<longleftrightarrow> (\<exists>x. m = Inr x)"
  by (cases m) simp_all

section \<open>Encodings\<close>

text \<open>
  The contract of a pair of conversions between values and representations: names and
  their strings, symbols and their precision and code, time slots and time points.
\<close>

locale codec =
  fixes enc :: "'a \<Rightarrow> 'b" and dec :: "'b \<Rightarrow> 'a"
    and valid_val :: "'a \<Rightarrow> bool" and valid_rep :: "'b \<Rightarrow> bool"
  assumes dec_enc: "valid_val v \<Longrightarrow> dec (enc v) = v"
    and enc_valid: "valid_val v \<Longrightarrow> valid_rep (enc v)"
    and dec_valid: "valid_rep s \<Longrightarrow> valid_val (dec s)"
    and enc_dec: "valid_rep s \<Longrightarrow> enc (dec s) = s"
begin

lemma enc_eq_iff: "valid_val v \<Longrightarrow> valid_rep s \<Longrightarrow> enc v = s \<longleftrightarrow> v = dec s"
  by (auto simp: dec_enc enc_dec)

lemma enc_inj: "valid_val v \<Longrightarrow> valid_val w \<Longrightarrow> enc v = enc w \<longleftrightarrow> v = w"
  using dec_enc by metis

lemma rep_iff: "valid_rep s \<longleftrightarrow> (\<exists>v. valid_val v \<and> s = enc v)"
  using dec_valid enc_dec enc_valid by metis

end

section \<open>Accumulators\<close>

text \<open>
  A component that consumes items one at a time and must agree, at every point, with a
  batch computation over the items seen so far.  A step may be undefined (\<open>None\<close>); the
  contract promises that it is not, up to \<open>cap\<close> items.
\<close>

fun run_steps :: "('s \<Rightarrow> 'x \<Rightarrow> 's option) \<Rightarrow> 's \<Rightarrow> 'x list \<Rightarrow> 's option" where
  "run_steps step s [] = Some s"
| "run_steps step s (x # xs) =
     (case step s x of None \<Rightarrow> None | Some s' \<Rightarrow> run_steps step s' xs)"

locale accumulator =
  fixes init :: 's and step :: "'s \<Rightarrow> 'x \<Rightarrow> 's option" and view :: "'s \<Rightarrow> 'r"
    and batch :: "'x list \<Rightarrow> 'r" and inv :: "'x list \<Rightarrow> 's \<Rightarrow> bool" and cap :: nat
  assumes inv_init: "inv [] init"
    and inv_step: "inv xs s \<Longrightarrow> length xs < cap \<Longrightarrow> \<exists>s'. step s x = Some s' \<and> inv (xs @ [x]) s'"
    and inv_view: "inv xs s \<Longrightarrow> view s = batch xs"
begin

lemma run_inv:
  "inv xs s \<Longrightarrow> length xs + length ys \<le> cap \<Longrightarrow>
     \<exists>s'. run_steps step s ys = Some s' \<and> inv (xs @ ys) s'"
proof (induction ys arbitrary: xs s)
  case (Cons y ys)
  then obtain s' where "step s y = Some s'" "inv (xs @ [y]) s'"
    using inv_step [of xs s y] by auto
  with Cons.IH [of "xs @ [y]" s'] Cons.prems show ?case by simp
qed simp

lemma run_view:
  "length ys \<le> cap \<Longrightarrow> \<exists>s'. run_steps step init ys = Some s' \<and> inv ys s' \<and> view s' = batch ys"
  using run_inv [OF inv_init, of ys] inv_view by auto

end

section \<open>Bits of words\<close>

unbundle bit_operations_syntax

lemma take_bit_or_push:
  "take_bit k v OR push_bit k (take_bit n (drop_bit k v)) = take_bit (n + k) (v :: 'a::len word)"
  by (rule bit_word_eqI) (auto simp: bit_simps)

lemma take_bit_word_self: "unat x < 2 ^ n \<Longrightarrow> take_bit n x = (x :: 'a::len word)"
  by (metis take_bit_nat_eq_self unsigned_take_bit_eq unsigned_word_eqI)

lemma unat_take_bit_less: "unat (take_bit n x :: 'a::len word) < 2 ^ n"
  using take_bit_nat_less_exp [of n] by (simp add: unsigned_take_bit_eq)

lemma drop_bit_of_take_bit:
  assumes "take_bit n x = (x :: 'a::len word)"
  shows "take_bit m (drop_bit n x) = 0"
proof -
  have "take_bit m (drop_bit n (take_bit n x)) = 0"
    by (rule bit_word_eqI) (auto simp: bit_simps)
  then show ?thesis by (simp only: assms)
qed

lemma foldr_or_zero:
  "(\<And>j. j \<in> set js \<Longrightarrow> f j = 0) \<Longrightarrow> foldr (OR) (map f js) 0 = (0 :: 'a::len word)"
  by (induction js) auto

section \<open>Word arithmetic without wrap-around\<close>

lemma unat_max: "unat (- 1 :: 'a::len word) = 2 ^ LENGTH('a) - 1"
  by (simp add: unsigned_minus_1_eq_mask mask_eq_exp_minus_1)

lemma word_head_room: "b \<le> - 1 - (a :: 'a::len word) \<longleftrightarrow> unat a + unat b < 2 ^ LENGTH('a)"
proof -
  have "a \<le> - 1" by simp
  then have "unat (- 1 - a) = 2 ^ LENGTH('a) - 1 - unat a"
    by (simp only: unat_sub unat_max)
  moreover have "unat a < 2 ^ LENGTH('a)" by simp
  ultimately show ?thesis unfolding word_le_nat_alt by linarith
qed

lemma unat_add_exact: "unat a + unat b < 2 ^ LENGTH('a) \<Longrightarrow> unat (a + b) = unat (a :: 'a::len word) + unat b"
  by (simp add: unat_word_ariths)

lemma unat_sum_split:
  assumes "n + m < 2 ^ LENGTH('a)" and "unat (z :: 'a::len word) = n + m"
  shows "\<exists>x y. unat x = n \<and> unat y = m \<and> z = x + y"
proof (intro exI conjI)
  show "unat (of_nat n :: 'a word) = n" "unat (of_nat m :: 'a word) = m"
    using assms(1) by (simp_all add: unat_of_nat)
  show "z = of_nat n + of_nat m"
    using assms by (intro unsigned_word_eqI [where ?'a = nat]) (simp add: unat_of_nat unat_word_ariths)
qed

lemma unat_mult_exact: "unat a * unat b < 2 ^ LENGTH('a) \<Longrightarrow> unat (a * b) = unat (a :: 'a::len word) * unat b"
  by (simp add: unat_word_ariths)

lemma unat_sub_exact: "unat b \<le> unat a \<Longrightarrow> unat (a - b) = unat (a :: 'a::len word) - unat b"
  by (simp add: unat_sub_if_size word_le_nat_alt)

lemma unat_ucast_up:
  "LENGTH('a) \<le> LENGTH('b) \<Longrightarrow> unat (ucast (x :: 'a::len word) :: 'b::len word) = unat x"
  by (simp add: unsigned_ucast_eq take_bit_nat_eq_self order_less_le_trans [OF unsigned_less])

section \<open>Trimming lists\<close>

text \<open>\<open>boost::algorithm::trim_right_if\<close> removes the trailing elements that satisfy the predicate.\<close>

definition trim_right_if :: "('a \<Rightarrow> bool) \<Rightarrow> 'a list \<Rightarrow> 'a list" where
  "trim_right_if P s = rev (dropWhile P (rev s))"

lemma length_trim_right_if: "length (trim_right_if P s) \<le> length s"
  using length_dropWhile_le [of P "rev s"] by (simp add: trim_right_if_def)

lemma set_trim_right_if: "set (trim_right_if P s) \<subseteq> set s"
  by (auto simp: trim_right_if_def dest: set_dropWhileD)

lemma last_trim_right_if: "trim_right_if P s \<noteq> [] \<Longrightarrow> \<not> P (last (trim_right_if P s))"
  using hd_dropWhile [of P "rev s"] by (auto simp: trim_right_if_def last_rev)

lemma trim_right_if_prefix: "i < length (trim_right_if P s) \<Longrightarrow> trim_right_if P s ! i = s ! i"
proof (induction s rule: rev_induct)
  case (snoc x xs)
  then show ?case
    using length_trim_right_if [of P xs]
    by (cases "P x") (auto simp: trim_right_if_def nth_append)
qed (simp add: trim_right_if_def)

lemma trim_right_if_replicate: "P x \<Longrightarrow> trim_right_if P (s @ replicate n x) = trim_right_if P s"
  by (simp add: trim_right_if_def dropWhile_append)

lemma trim_right_if_self: "(s \<noteq> [] \<longrightarrow> \<not> P (last s)) \<Longrightarrow> trim_right_if P s = s"
  by (cases s rule: rev_cases) (auto simp: trim_right_if_def)

end
