(* ===== verification/Merkle.thy ===== *)
theory Merkle
  imports Chain_Prelude
begin

text \<open>
  Merkle roots: the batch computation \<open>merkle\<close> of \<^verbatim>\<open>libraries/chain/merkle.cpp\<close> and the
  incremental tree of \<^verbatim>\<open>libraries/chain/include/eosio/chain/incremental_merkle.hpp\<close>, which keeps only the
  nodes that later appends need.  The hash of a pair of digests (SHA-256 of the \<open>fc\<close>
  library) and the default digest are arguments of the definitions.
\<close>

unbundle bit_operations_syntax

section \<open>Digests\<close>

text \<open>The four 64-bit words \<open>_hash[0]\<close> to \<open>_hash[3]\<close> of a SHA-256 digest.\<close>

record digest =
  hash0 :: u64
  hash1 :: u64
  hash2 :: u64
  hash3 :: u64

definition make_canonical_left :: "digest \<Rightarrow> digest" where
  "make_canonical_left val = val\<lparr>hash0 := hash0 val AND 0xFFFFFFFFFFFFFF7F\<rparr>"

definition make_canonical_right :: "digest \<Rightarrow> digest" where
  "make_canonical_right val = val\<lparr>hash0 := hash0 val OR 0x0000000000000080\<rparr>"

definition is_canonical_left :: "digest \<Rightarrow> bool" where
  "is_canonical_left val \<longleftrightarrow> hash0 val AND 0x0000000000000080 = 0"

definition is_canonical_right :: "digest \<Rightarrow> bool" where
  "is_canonical_right val \<longleftrightarrow> hash0 val AND 0x0000000000000080 \<noteq> 0"

definition make_canonical_pair :: "digest \<Rightarrow> digest \<Rightarrow> digest \<times> digest" where
  "make_canonical_pair l r = (make_canonical_left l, make_canonical_right r)"

section \<open>The batch root\<close>

text \<open>The inner \<open>for\<close> loop: \<open>ids[i]\<close> is overwritten in place for \<open>i < ids.size() / 2\<close>.\<close>

function merkle_level :: "(digest \<times> digest \<Rightarrow> digest) \<Rightarrow> nat \<Rightarrow> digest list \<Rightarrow> digest list" where
  "merkle_level hash i ids =
     (if i < length ids div 2
      then merkle_level hash (Suc i)
             (ids[i := hash (make_canonical_pair (ids ! (2 * i)) (ids ! (2 * i + 1)))])
      else ids)"
  by pat_completeness auto
termination
  by (relation "measure (\<lambda>(hash, i, ids). length ids div 2 - i)") auto

declare merkle_level.simps [simp del]

lemma length_merkle_level [simp]: "length (merkle_level hash i ids) = length ids"
  by (induction hash i ids rule: merkle_level.induct) (subst merkle_level.simps, simp)

text \<open>The outer \<open>while\<close> loop; \<open>resize\<close> to a smaller size keeps a prefix.\<close>

function merkle_loop :: "(digest \<times> digest \<Rightarrow> digest) \<Rightarrow> digest list \<Rightarrow> digest" where
  "merkle_loop hash ids =
     (if length ids > 1
      then let ids1 = (if length ids mod 2 \<noteq> 0 then ids @ [last ids] else ids)
           in merkle_loop hash (take (length ids1 div 2) (merkle_level hash 0 ids1))
      else hd ids)"
  by pat_completeness auto
termination
proof (relation "measure (\<lambda>(hash, ids). length ids)", goal_cases)
  case (2 hash ids ids1)
  then have "length ids1 div 2 < length ids"
    by (auto split: if_splits)
  with 2 show ?case by (auto simp: min_def)
qed simp

declare merkle_loop.simps [simp del]

definition merkle :: "(digest \<times> digest \<Rightarrow> digest) \<Rightarrow> digest \<Rightarrow> digest list \<Rightarrow> digest" where
  "merkle hash dflt ids = (if length ids = 0 then dflt else merkle_loop hash ids)"

section \<open>The incremental tree\<close>

text \<open>\<open>value |= value >> n\<close>\<close>

definition or_shift :: "nat \<Rightarrow> u64 \<Rightarrow> u64" where
  "or_shift n v = v OR drop_bit n v"

definition next_power_of_2 :: "u64 \<Rightarrow> u64" where
  "next_power_of_2 value0 =
     (let v = value0 - 1;
          v = or_shift 1 v;
          v = or_shift 2 v;
          v = or_shift 4 v;
          v = or_shift 8 v;
          v = or_shift 16 v;
          v = or_shift 32 v
      in v + 1)"

definition clz_power_2 :: "u64 \<Rightarrow> int" where
  "clz_power_2 v =
     (let lz = 64;
          lz = (if v \<noteq> 0 then lz - 1 else lz);
          lz = (if v AND 0x00000000FFFFFFFF \<noteq> 0 then lz - 32 else lz);
          lz = (if v AND 0x0000FFFF0000FFFF \<noteq> 0 then lz - 16 else lz);
          lz = (if v AND 0x00FF00FF00FF00FF \<noteq> 0 then lz - 8 else lz);
          lz = (if v AND 0x0F0F0F0F0F0F0F0F \<noteq> 0 then lz - 4 else lz);
          lz = (if v AND 0x3333333333333333 \<noteq> 0 then lz - 2 else lz);
          lz = (if v AND 0x5555555555555555 \<noteq> 0 then lz - 1 else lz)
      in lz)"

definition calcluate_max_depth :: "u64 \<Rightarrow> int" where
  "calcluate_max_depth node_count =
     (if node_count = 0 then 0
      else clz_power_2 (next_power_of_2 node_count) + 1)"

record incremental_merkle =
  node_count :: u64
  active_nodes :: "digest list"

definition incremental_merkle_empty :: incremental_merkle where
  "incremental_merkle_empty = \<lparr>node_count = 0, active_nodes = []\<rparr>"

text \<open>
  The \<open>while\<close> loop of \<open>append\<close>.  \<open>active\<close> is the part of \<open>_active_nodes\<close> from
  \<open>active_iter\<close> on; dereferencing the end iterator is undefined behaviour, the value
  \<open>None\<close> here.
\<close>

fun append_loop :: "(digest \<times> digest \<Rightarrow> digest) \<Rightarrow> nat \<Rightarrow> u64 \<Rightarrow> digest \<Rightarrow> bool \<Rightarrow> digest list \<Rightarrow>
    digest list \<Rightarrow> (digest list \<times> digest) option" where
  "append_loop hash 0 index tp partial active updated = Some (updated, tp)"
| "append_loop hash (Suc current_depth) index tp partial active updated =
     (if index AND 1 = 0
      then append_loop hash current_depth (drop_bit 1 index)
             (hash (make_canonical_pair tp tp)) True active
             (if \<not> partial then updated @ [tp] else updated)
      else case active of
             [] \<Rightarrow> None
           | left_value # active' \<Rightarrow>
               append_loop hash current_depth (drop_bit 1 index)
                 (hash (make_canonical_pair left_value tp)) partial active'
                 (if partial then updated @ [left_value] else updated))"

definition incremental_append :: "(digest \<times> digest \<Rightarrow> digest) \<Rightarrow> incremental_merkle \<Rightarrow> digest \<Rightarrow>
    incremental_merkle option" where
  "incremental_append hash m dig =
     (let max_depth = calcluate_max_depth (node_count m + 1)
      in case append_loop hash (nat (max_depth - 1)) (node_count m) dig False (active_nodes m) [] of
           None \<Rightarrow> None
         | Some (updated, tp) \<Rightarrow>
             Some \<lparr>node_count = node_count m + 1, active_nodes = updated @ [tp]\<rparr>)"

definition get_root :: "digest \<Rightarrow> incremental_merkle \<Rightarrow> digest" where
  "get_root dflt m = (if node_count m > 0 then last (active_nodes m) else dflt)"

section \<open>Reference notions\<close>

text \<open>
  The next level of the tree, with a last unpaired digest duplicated (\<open>pair_up\<close>) or left out
  (\<open>pair_full\<close>), and the number of binary digits of a count.
\<close>

fun pair_up :: "(digest \<times> digest \<Rightarrow> digest) \<Rightarrow> digest list \<Rightarrow> digest list" where
  "pair_up hash [] = []"
| "pair_up hash [x] = [hash (make_canonical_pair x x)]"
| "pair_up hash (x # y # zs) = hash (make_canonical_pair x y) # pair_up hash zs"

fun pair_full :: "(digest \<times> digest \<Rightarrow> digest) \<Rightarrow> digest list \<Rightarrow> digest list" where
  "pair_full hash (x # y # zs) = hash (make_canonical_pair x y) # pair_full hash zs"
| "pair_full hash _ = []"

fun bitlen :: "nat \<Rightarrow> nat" where
  "bitlen n = (if n = 0 then 0 else Suc (bitlen (n div 2)))"

declare bitlen.simps [simp del]

section \<open>Levels\<close>

lemma length_pair_up: "length (pair_up hash xs) = (length xs + 1) div 2"
  by (induction hash xs rule: pair_up.induct) auto

lemma length_pair_full: "length (pair_full hash xs) = length xs div 2"
  by (induction hash xs rule: pair_full.induct) auto

lemma nth_pair_full:
  "i < length xs div 2 \<Longrightarrow> pair_full hash xs ! i = hash (make_canonical_pair (xs ! (2 * i)) (xs ! (2 * i + 1)))"
proof (induction hash xs arbitrary: i rule: pair_full.induct)
  case (1 hash x y zs)
  then show ?case by (cases i) auto
qed auto

lemma pair_full_even_append:
  "even (length xs) \<Longrightarrow> pair_full hash (xs @ ys) = pair_full hash xs @ pair_full hash ys"
  by (induction hash xs rule: pair_full.induct) auto

lemma pair_up_eq_full:
  "pair_up hash xs = pair_full hash (if odd (length xs) then xs @ [last xs] else xs)"
  by (induction hash xs rule: pair_up.induct) auto

lemma take_merkle_level:
  "i \<le> length ids div 2 \<Longrightarrow> (\<And>j. j < i \<Longrightarrow> ids ! j = pair_full hash xs ! j) \<Longrightarrow>
   (\<And>j. 2 * i \<le> j \<Longrightarrow> j < length ids \<Longrightarrow> ids ! j = xs ! j) \<Longrightarrow> length ids = length xs \<Longrightarrow>
   take (length ids div 2) (merkle_level hash i ids) = pair_full hash xs"
proof (induction hash i ids rule: merkle_level.induct)
  case (1 hash i ids)
  show ?case
  proof (cases "i < length ids div 2")
    case True
    let ?ids = "ids[i := hash (make_canonical_pair (ids ! (2 * i)) (ids ! (2 * i + 1)))]"
    have "take (length ?ids div 2) (merkle_level hash (Suc i) ?ids) = pair_full hash xs"
    proof (rule "1.IH" [OF True])
      show "?ids ! j = pair_full hash xs ! j" if "j < Suc i" for j
        using that True "1.prems" by (cases "j = i") (auto simp: nth_pair_full)
      show "?ids ! j = xs ! j" if "2 * Suc i \<le> j" "j < length ?ids" for j
        using that True "1.prems"(3) by auto
    qed (use True "1.prems" in auto)
    then show ?thesis using True by (subst merkle_level.simps) simp
  next
    case False
    with "1.prems" show ?thesis
      by (subst merkle_level.simps) (auto intro!: nth_equalityI simp: length_pair_full)
  qed
qed

lemma merkle_level_eq: "take (length xs div 2) (merkle_level hash 0 xs) = pair_full hash xs"
  by (rule take_merkle_level) auto

lemma merkle_loop_step: "length xs > 1 \<Longrightarrow> merkle_loop hash xs = merkle_loop hash (pair_up hash xs)"
  by (subst merkle_loop.simps) (auto simp: Let_def merkle_level_eq pair_up_eq_full odd_iff_mod_2_eq_one)

lemma merkle_loop_single: "merkle_loop hash [x] = x"
  by (subst merkle_loop.simps) simp

lemma pair_up_snoc_even:
  "even (length q) \<Longrightarrow> pair_up hash (q @ [t]) = pair_full hash q @ [hash (make_canonical_pair t t)]"
  by (simp add: pair_up_eq_full pair_full_even_append)

lemma pair_up_snoc_odd:
  assumes "odd (length q)"
  shows "pair_up hash (q @ [t]) = pair_full hash q @ [hash (make_canonical_pair (last q) t)]"
proof -
  obtain q' l where q: "q = q' @ [l]"
    using assms by (cases q rule: rev_cases) auto
  with assms show ?thesis by (simp add: pair_up_eq_full pair_full_even_append)
qed

section \<open>Depth\<close>

lemma bitlen_0 [simp]: "bitlen 0 = 0"
  by (simp add: bitlen.simps)

lemma bitlen_pos: "n > 0 \<Longrightarrow> bitlen n = Suc (bitlen (n div 2))"
  by (simp add: bitlen.simps)

lemma less_bitlen: "n < 2 ^ bitlen n"
proof (induction n rule: bitlen.induct)
  case (1 n)
  then show ?case by (cases "n = 0") (auto simp: bitlen_pos)
qed

lemma bit_bitlen: "n > 0 \<Longrightarrow> bit n (bitlen n - 1)"
proof (induction n rule: bitlen.induct)
  case (1 n)
  show ?case
  proof (cases "n div 2 = 0")
    case True
    then have "n = 1" using "1.prems" by auto
    then show ?thesis by (simp add: bitlen_pos bit_0)
  next
    case False
    with 1 have "bit (n div 2) (bitlen (n div 2) - 1)" by simp
    moreover from False have "bitlen (n div 2) \<noteq> 0" by (simp add: bitlen_pos)
    ultimately show ?thesis using "1.prems"
      by (simp add: bitlen_pos bit_iff_odd_drop_bit drop_bit_eq_div)
       (metis Suc_pred bot_nat_0.not_eq_extremum  div_mult2_eq power_Suc)
  qed
qed

lemma bitlen_le: "n < 2 ^ k \<Longrightarrow> bitlen n \<le> k"
proof (induction n arbitrary: k rule: bitlen.induct)
  case (1 n)
  show ?case
  proof (cases "n = 0")
    case False
    with "1.prems" obtain k' where "k = Suc k'" by (cases k) auto
    with False 1 show ?thesis by (auto simp: bitlen_pos)
  qed simp
qed

lemma ex_less_double:
  "(\<exists>i < w + w. P i) \<longleftrightarrow> (\<exists>i < w. P i) \<or> (\<exists>i < w. P (w + i))" for w :: nat
  by (metis add_less_cancel_left le_add_diff_inverse linorder_not_less trans_less_add1)

lemma bit_or_shift:
  assumes "\<And>j. bit y j \<longleftrightarrow> (\<exists>i < w. bit x (j + i))" and "w2 = w + w"
  shows "bit (or_shift w y) j \<longleftrightarrow> (\<exists>i < w2. bit x (j + i))"
  unfolding assms(2) ex_less_double
  by (simp add: or_shift_def bit_or_iff bit_drop_bit_eq assms(1) ac_simps)

lemma bit_unat_bitlen: "bit (w :: u64) n \<Longrightarrow> n < bitlen (unat w)"
proof (rule ccontr)
  assume b: "bit w n" and "\<not> n < bitlen (unat w)"
  then have "unat w < 2 ^ n"
    using less_bitlen [of "unat w"] by (meson le_less_trans linorder_not_less less_le_trans one_le_numeral power_increasing)
  then have "take_bit n w = w" by (rule take_bit_word_self)
  with b show False by (metis bit_take_bit_iff less_irrefl)
qed

lemma bit_top_unat: "w \<noteq> 0 \<Longrightarrow> bit (w :: u64) (bitlen (unat w) - 1)"
  using bit_bitlen [of "unat w"] by (simp add: bit_unsigned_iff unat_gt_0)

lemma bit_smear_all:
  "bit (or_shift 32 (or_shift 16 (or_shift 8 (or_shift 4 (or_shift 2 (or_shift 1 w)))))) j
     \<longleftrightarrow> (\<exists>i < 64. bit w (j + i))"
  by (rule bit_or_shift, rule bit_or_shift, rule bit_or_shift, rule bit_or_shift, rule bit_or_shift,
      rule bit_or_shift) auto

lemma bitlen_unat_le: "bitlen (unat (w :: u64)) \<le> 64"
  by (rule bitlen_le) (use unsigned_less [of w] in simp)

lemma smear_bitlen: "(\<exists>i < 64. bit (w :: u64) (j + i)) \<longleftrightarrow> j < bitlen (unat w)"
proof
  assume "\<exists>i < 64. bit w (j + i)"
  then obtain i where "bit w (j + i)" by blast
  then show "j < bitlen (unat w)" using bit_unat_bitlen [of w "j + i"] by simp
next
  assume l: "j < bitlen (unat w)"
  then have "w \<noteq> 0" by auto
  then show "\<exists>i < 64. bit w (j + i)"
    using bit_top_unat [of w] l bitlen_unat_le [of w]
    by (intro exI [of _ "bitlen (unat w) - 1 - j"]) auto
qed

lemma next_power_of_2_eq: "next_power_of_2 (w + 1) = 2 ^ bitlen (unat w)"
proof -
  have "or_shift 32 (or_shift 16 (or_shift 8 (or_shift 4 (or_shift 2 (or_shift 1 w)))))
      = mask (bitlen (unat w))"
    by (rule bit_word_eqI) (simp only: bit_smear_all smear_bitlen bit_mask_iff, simp)
  then show ?thesis
    by (simp add: next_power_of_2_def mask_eq_exp_minus_1)
qed

lemma clz_power_2_all: "\<forall>b \<in> set [0..<65]. clz_power_2 (2 ^ b) = int b"
  by (simp add: clz_power_2_def Let_def upt_rec)

lemma clz_power_2_eq: "b \<le> 64 \<Longrightarrow> clz_power_2 (2 ^ b) = int b"
  using clz_power_2_all by simp

lemma max_depth_eq: "w + 1 \<noteq> 0 \<Longrightarrow> nat (calcluate_max_depth (w + 1) - 1) = bitlen (unat w)"
  by (simp add: calcluate_max_depth_def next_power_of_2_eq clz_power_2_eq bitlen_unat_le)

section \<open>The appended tree\<close>

text \<open>
  The roots of the complete subtrees, smallest first: what the next append needs.
\<close>

function full_nodes :: "(digest \<times> digest \<Rightarrow> digest) \<Rightarrow> digest list \<Rightarrow> digest list" where
  "full_nodes hash q =
     (if q = [] then []
      else (if odd (length q) then [last q] else []) @ full_nodes hash (pair_full hash q))"
  by pat_completeness auto
termination
  by (relation "measure (\<lambda>(hash, q). length q)") (auto simp: length_pair_full)

declare full_nodes.simps [simp del]

lemma full_nodes_Nil [simp]: "full_nodes hash [] = []"
  by (simp add: full_nodes.simps)

lemma full_nodes_odd: "odd (length q) \<Longrightarrow> full_nodes hash q = last q # full_nodes hash (pair_full hash q)"
  by (subst full_nodes.simps) auto

lemma full_nodes_even: "even (length q) \<Longrightarrow> full_nodes hash q = full_nodes hash (pair_full hash q)"
  by (cases "q = []") (auto simp: full_nodes.simps [of hash q])

lemma index_and_1: "w AND 1 = 0 \<longleftrightarrow> even (unat (w :: u64))"
proof -
  have "bit (unat w) 0 \<longleftrightarrow> bit w 0" by (simp add: bit_unsigned_iff)
  then show ?thesis
    using and_exp_eq_0_iff_not_bit [of w 0] by (simp add: bit_0)
qed

lemma unat_index_half: "unat (drop_bit (Suc 0) (w :: u64)) = unat w div 2"
  using take_bit_nat_eq_self [OF unsigned_less [of w]]
  by (subst unsigned_drop_bit_eq) (simp add: drop_bit_eq_div)

lemma append_loop_eq:
  "unat index = length q \<Longrightarrow> 
   append_loop hash (bitlen (length q)) index t True (full_nodes hash q @ rest) upd =
     Some (upd @ full_nodes hash q, merkle_loop hash (q @ [t]))"
proof (induction hash q arbitrary: index t upd rule: full_nodes.induct)
  case (1 hash q)
  show ?case
  proof (cases "q = []")
    case True
    then show ?thesis by (simp add: merkle_loop_single)
  next
    case False
    let ?q = "pair_full hash q"
    have l: "unat (drop_bit 1 index) = length ?q" and d: "bitlen (length q) = Suc (bitlen (length ?q))"
      using False "1.prems" by (simp_all add: unat_index_half length_pair_full bitlen_pos)
    have m: "merkle_loop hash (q @ [t]) = merkle_loop hash (pair_up hash (q @ [t]))"
      using False by (intro merkle_loop_step) simp
    show ?thesis
      using "1.IH" [OF False l] "1.prems"
      by (cases "even (length q)")
        (simp_all add: d m index_and_1 full_nodes_even full_nodes_odd pair_up_snoc_even pair_up_snoc_odd)
  qed
qed

lemma append_loop_fresh:
  "unat index = length q \<Longrightarrow> \<exists>upd'.
   append_loop hash (bitlen (length q)) index t False (full_nodes hash q @ rest) upd =
     Some (upd @ upd', merkle_loop hash (q @ [t])) \<and>
   (\<exists>rest'. upd' @ [merkle_loop hash (q @ [t])] = full_nodes hash (q @ [t]) @ rest')"
proof (induction hash q arbitrary: index t upd rule: full_nodes.induct)
  case (1 hash q)
  show ?case
  proof (cases "q = []")
    case True
    then show ?thesis by (simp add: merkle_loop_single full_nodes_odd)
  next
    case False
    let ?q = "pair_full hash q"
    have l: "unat (drop_bit 1 index) = length ?q" and d: "bitlen (length q) = Suc (bitlen (length ?q))"
      using False "1.prems" by (simp_all add: unat_index_half length_pair_full bitlen_pos)
    have m: "merkle_loop hash (q @ [t]) = merkle_loop hash (pair_up hash (q @ [t]))"
      using False by (intro merkle_loop_step) simp
    show ?thesis
    proof (cases "even (length q)")
      case True
      have "full_nodes hash (q @ [t]) = t # full_nodes hash ?q"
        using True by (simp add: full_nodes_odd pair_full_even_append)
      then show ?thesis
        using append_loop_eq [OF l] "1.prems" True
        by (simp add: d m index_and_1 full_nodes_even pair_up_snoc_even)
    next
      case odd: False
      have "full_nodes hash (q @ [t]) = full_nodes hash (?q @ [hash (make_canonical_pair (last q) t)])"
        using odd pair_up_snoc_odd [of q hash t] by (simp add: full_nodes_even pair_up_eq_full)
      then show ?thesis
        using "1.IH" [OF False l] "1.prems" odd
        by (simp add: d m index_and_1 full_nodes_odd pair_up_snoc_odd)
    qed
  qed
qed

text \<open>
  What the incremental tree keeps after appending \<open>xs\<close>: the count, the complete subtrees at the
  front of the active nodes, and the root at their end.
\<close>

definition merkle_inv :: "(digest \<times> digest \<Rightarrow> digest) \<Rightarrow> digest list \<Rightarrow> incremental_merkle \<Rightarrow> bool" where
  "merkle_inv hash xs m \<longleftrightarrow>
     unat (node_count m) = length xs \<and>
     (\<exists>rest. active_nodes m = full_nodes hash xs @ rest) \<and>
     (xs \<noteq> [] \<longrightarrow> active_nodes m \<noteq> [] \<and> last (active_nodes m) = merkle_loop hash xs)"

lemma merkle_inv_empty: "merkle_inv hash [] incremental_merkle_empty"
  by (simp add: merkle_inv_def incremental_merkle_empty_def)

lemma merkle_inv_append:
  assumes inv: "merkle_inv hash xs m" and "length xs + 1 < 2 ^ 64"
  shows "\<exists>m'. incremental_append hash m d = Some m' \<and> merkle_inv hash (xs @ [d]) m'"
proof -
  have n: "unat (node_count m) = length xs" using inv by (simp add: merkle_inv_def)
  have n1: "unat (node_count m + 1) = length xs + 1"
    using n assms(2) by (simp add: unat_word_ariths)
  then have "node_count m + 1 \<noteq> 0" by auto
  then have depth: "nat (calcluate_max_depth (node_count m + 1) - 1) = bitlen (length xs)"
    using max_depth_eq [of "node_count m"] n by simp
  obtain rest where a: "active_nodes m = full_nodes hash xs @ rest"
    using inv by (auto simp: merkle_inv_def)
  obtain upd' rest' where
    l: "append_loop hash (bitlen (length xs)) (node_count m) d False (active_nodes m) [] =
          Some (upd', merkle_loop hash (xs @ [d]))" and
    u: "upd' @ [merkle_loop hash (xs @ [d])] = full_nodes hash (xs @ [d]) @ rest'"
    using append_loop_fresh [OF n, of hash d rest "[]"] a by auto
  let ?m = "\<lparr>node_count = node_count m + 1, active_nodes = upd' @ [merkle_loop hash (xs @ [d])]\<rparr>"
  have "\<exists>r. active_nodes ?m = full_nodes hash (xs @ [d]) @ r"
    using u by auto
  then have "merkle_inv hash (xs @ [d]) ?m"
    using n1 by (simp add: merkle_inv_def)
  moreover have "incremental_append hash m d = Some ?m"
    by (simp add: incremental_append_def Let_def depth l)
  ultimately show ?thesis by blast
qed

lemma get_root_inv:
  assumes "merkle_inv hash xs m"
  shows "get_root dflt m = merkle hash dflt xs"
proof -
  have "node_count m > 0 \<longleftrightarrow> xs \<noteq> []"
    using assms by (auto simp: merkle_inv_def word_gt_0 unat_gt_0 simp flip: unat_eq_0)
  with assms show ?thesis by (auto simp: get_root_def merkle_inv_def merkle_def)
qed

interpretation incremental: accumulator incremental_merkle_empty "incremental_append hash"
  "get_root dflt" "merkle hash dflt" "merkle_inv hash" "2 ^ 64 - 1" for hash dflt
proof
  show "merkle_inv hash [] incremental_merkle_empty"
    by (rule merkle_inv_empty)
  show "\<exists>m'. incremental_append hash m d = Some m' \<and> merkle_inv hash (xs @ [d]) m'"
    if "merkle_inv hash xs m" "length xs < 2 ^ 64 - 1" for xs m d
    using that by (intro merkle_inv_append) simp_all
  show "get_root dflt m = merkle hash dflt xs" if "merkle_inv hash xs m" for xs m
    using that by (rule get_root_inv)
qed

section \<open>Properties\<close>

lemma canonical_sides:
  "is_canonical_left (make_canonical_left d)" "is_canonical_right (make_canonical_right d)"
  "is_canonical_left d \<longleftrightarrow> \<not> is_canonical_right d"
proof -
  have "(0xFFFFFFFFFFFFFF7F :: u64) AND 0x80 = 0" by simp
  then have "(hash0 d AND 0xFFFFFFFFFFFFFF7F) AND 0x80 = 0" by (simp only: and.assoc) simp
  moreover have "(hash0 d OR 0x80) AND 0x80 = 0x80"
    by (rule bit_word_eqI) (auto simp: bit_and_iff bit_or_iff)
  ultimately show "is_canonical_left (make_canonical_left d)" "is_canonical_right (make_canonical_right d)"
    by (simp_all add: is_canonical_left_def is_canonical_right_def make_canonical_left_def
        make_canonical_right_def)
  show "is_canonical_left d \<longleftrightarrow> \<not> is_canonical_right d"
    by (simp add: is_canonical_left_def is_canonical_right_def)
qed

text \<open>
  C13 (equivalence). Appending digests one at a time to an empty incremental tree never reads
  past the stored nodes, counts the digests, and leaves as root exactly the digest that the
  batch computation gives for the whole list.
\<close>

theorem incremental_merkle_is_batch:
  assumes "length ids < 2 ^ 64"
  shows "\<exists>m. run_steps (incremental_append hash) incremental_merkle_empty ids = Some m \<and>
             unat (node_count m) = length ids \<and> get_root dflt m = merkle hash dflt ids"
  using incremental.run_view [of ids hash dflt] assms by (auto simp: merkle_inv_def)

theorem incremental_merkle_is_batch_witness:
  "\<exists>m. run_steps (incremental_append (\<lambda>(l, r). l\<lparr>hash1 := hash1 l + hash0 r\<rparr>)) incremental_merkle_empty
          [\<lparr>hash0 = 1, hash1 = 0, hash2 = 0, hash3 = 0\<rparr>, \<lparr>hash0 = 2, hash1 = 0, hash2 = 0, hash3 = 0\<rparr>,
           \<lparr>hash0 = 3, hash1 = 0, hash2 = 0, hash3 = 0\<rparr>] = Some m \<and>
       unat (node_count m) = 3 \<and>
       get_root \<lparr>hash0 = 0, hash1 = 0, hash2 = 0, hash3 = 0\<rparr> m =
         merkle (\<lambda>(l, r). l\<lparr>hash1 := hash1 l + hash0 r\<rparr>) \<lparr>hash0 = 0, hash1 = 0, hash2 = 0, hash3 = 0\<rparr>
          [\<lparr>hash0 = 1, hash1 = 0, hash2 = 0, hash3 = 0\<rparr>, \<lparr>hash0 = 2, hash1 = 0, hash2 = 0, hash3 = 0\<rparr>,
           \<lparr>hash0 = 3, hash1 = 0, hash2 = 0, hash3 = 0\<rparr>]"
  by (rule incremental_merkle_is_batch [THEN exE, where ids1 =
        "[\<lparr>hash0 = 1, hash1 = 0, hash2 = 0, hash3 = 0\<rparr>, \<lparr>hash0 = 2, hash1 = 0, hash2 = 0, hash3 = 0\<rparr>,
          \<lparr>hash0 = 3, hash1 = 0, hash2 = 0, hash3 = 0\<rparr>]"]) auto

text \<open>
  C29 (bounds). The depth computed for a positive number of nodes is that of the smallest full
  binary tree with at least that many leaves; \<open>clz_power_2\<close> maps the power \<open>2 ^ k\<close> to its
  exponent \<open>k\<close>.
\<close>

theorem max_depth_minimal:
  assumes "n \<noteq> 0"
  shows "1 \<le> calcluate_max_depth n \<and> unat n \<le> 2 ^ nat (calcluate_max_depth n - 1) \<and>
         (unat n \<le> 2 ^ e \<longrightarrow> calcluate_max_depth n \<le> int e + 1) \<and>
         (k < 64 \<longrightarrow> clz_power_2 (2 ^ k) = int k)"
proof -
  obtain w where w: "n = w + 1" by (metis diff_add_cancel)
  with assms have un: "unat n = unat w + 1"
    by (metis add.commute unatSuc Suc_eq_plus1)
  have d: "calcluate_max_depth n = int (bitlen (unat w)) + 1"
    using assms w by (simp add: calcluate_max_depth_def next_power_of_2_eq clz_power_2_eq bitlen_unat_le)
  show ?thesis
    using less_bitlen [of "unat w"] bitlen_le [of "unat w" e] by (auto simp: d un clz_power_2_eq)
qed

theorem max_depth_minimal_witness:
  "calcluate_max_depth 5 \<le> 4 \<and> 5 \<le> (2::nat) ^ nat (calcluate_max_depth 5 - 1) \<and> clz_power_2 8 = 3"
  using max_depth_minimal [of 5 3 3] by simp

end
