(* ===== verification/Chain_Db.thy ===== *)
theory Chain_Db
  imports Chain_Prelude
begin

text \<open>
  The object tables in which the chain keeps its state.  A table is the list of its rows
  in creation order; each table has a unique key, a function of the row.  The contract
  \<open>keyed_store\<close> says what the managers rely on: a created row is found under its key, a
  taken key is refused, \<open>modify\<close> and \<open>remove\<close> touch only the row with that key.
\<close>

section \<open>Tables\<close>

definition tbl_find :: "('r \<Rightarrow> 'k) \<Rightarrow> 'k \<Rightarrow> 'r list \<Rightarrow> 'r option" where
  "tbl_find key k t = find (\<lambda>r. key r = k) t"

definition tbl_get :: "('r \<Rightarrow> 'k) \<Rightarrow> 'k \<Rightarrow> 'r list \<Rightarrow> 'r res" where
  "tbl_get key k t = (case tbl_find key k t of None \<Rightarrow> Inl std_out_of_range | Some r \<Rightarrow> Inr r)"

definition tbl_create :: "('r \<Rightarrow> 'k) \<Rightarrow> 'r \<Rightarrow> 'r list \<Rightarrow> 'r list res" where
  "tbl_create key r t =
     (case tbl_find key (key r) t of None \<Rightarrow> Inr (t @ [r]) | Some _ \<Rightarrow> Inl std_logic_error)"

definition tbl_modify :: "('r \<Rightarrow> 'k) \<Rightarrow> 'k \<Rightarrow> ('r \<Rightarrow> 'r) \<Rightarrow> 'r list \<Rightarrow> 'r list" where
  "tbl_modify key k f t = map (\<lambda>r. if key r = k then f r else r) t"

definition tbl_remove :: "('r \<Rightarrow> 'k) \<Rightarrow> 'k \<Rightarrow> 'r list \<Rightarrow> 'r list" where
  "tbl_remove key k t = filter (\<lambda>r. key r \<noteq> k) t"

definition tbl_unique :: "('r \<Rightarrow> 'k) \<Rightarrow> 'r list \<Rightarrow> bool" where
  "tbl_unique key t \<longleftrightarrow> distinct (map key t)"

section \<open>The contract of a table\<close>

locale keyed_store =
  fixes find :: "'k \<Rightarrow> 's \<Rightarrow> 'r option" and create :: "'r \<Rightarrow> 's \<Rightarrow> 's res"
    and modify :: "'k \<Rightarrow> ('r \<Rightarrow> 'r) \<Rightarrow> 's \<Rightarrow> 's" and remove :: "'k \<Rightarrow> 's \<Rightarrow> 's"
    and key :: "'r \<Rightarrow> 'k" and wf :: "'s \<Rightarrow> bool"
  assumes find_key: "find k s = Some r \<Longrightarrow> key r = k"
    and create_taken: "find (key r) s = Some r' \<Longrightarrow> create r s = Inl std_logic_error"
    and create_free: "wf s \<Longrightarrow> find (key r) s = None \<Longrightarrow> is_ok (create r s)"
    and create_wf: "wf s \<Longrightarrow> create r s = Inr s' \<Longrightarrow> wf s'"
    and create_find: "create r s = Inr s' \<Longrightarrow> find k s' = (if k = key r then Some r else find k s)"
    and modify_wf: "wf s \<Longrightarrow> (\<And>r. key r = k \<Longrightarrow> key (f r) = k) \<Longrightarrow> wf (modify k f s)"
    and modify_find: "(\<And>r. key r = k \<Longrightarrow> key (f r) = k) \<Longrightarrow>
      find k' (modify k f s) = (if k' = k then map_option f (find k s) else find k' s)"
    and remove_wf: "wf s \<Longrightarrow> wf (remove k s)"
    and remove_find: "find k' (remove k s) = (if k' = k then None else find k' s)"
begin

lemma create_Inr_free: "create r s = Inr s' \<Longrightarrow> find (key r) s = None"
  using create_taken [of r s] by (cases "find (key r) s") auto

lemma create_iff_free: "wf s \<Longrightarrow> is_ok (create r s) \<longleftrightarrow> find (key r) s = None"
  using create_free create_Inr_free by (auto simp: is_ok_iff)

lemma modify_keeps_domain:
  "(\<And>r. key r = k \<Longrightarrow> key (f r) = k) \<Longrightarrow> find k' (modify k f s) = None \<longleftrightarrow> find k' s = None"
  by (simp add: modify_find)

end

section \<open>Tables satisfy the contract\<close>

lemma tbl_find_None_iff: "tbl_find key k t = None \<longleftrightarrow> k \<notin> key ` set t"
  by (auto simp: tbl_find_def find_None_iff)

lemma tbl_find_SomeD: "tbl_find key k t = Some r \<Longrightarrow> r \<in> set t \<and> key r = k"
  by (auto simp: tbl_find_def find_Some_iff)

lemma tbl_find_Some_iff:
  "tbl_unique key t \<Longrightarrow> tbl_find key k t = Some r \<longleftrightarrow> r \<in> set t \<and> key r = k"
proof (induction t)
  case (Cons x t)
  then show ?case
    by (auto simp: tbl_find_def tbl_unique_def image_iff)
qed (simp add: tbl_find_def)

lemma tbl_get_Inr_iff [simp]: "tbl_get key k t = Inr r \<longleftrightarrow> tbl_find key k t = Some r"
  by (simp add: tbl_get_def split: option.splits)

lemma tbl_create_Inr_iff:
  "tbl_create key r t = Inr t' \<longleftrightarrow> tbl_find key (key r) t = None \<and> t' = t @ [r]"
  by (auto simp: tbl_create_def split: option.splits)

lemma tbl_find_single [simp]:
  "tbl_find key k [] = None" "tbl_find key k [r] = (if key r = k then Some r else None)"
  by (simp_all add: tbl_find_def)

lemma tbl_find_append:
  "tbl_find key k (t @ u) = (case tbl_find key k t of None \<Rightarrow> tbl_find key k u | Some r \<Rightarrow> Some r)"
  by (induction t) (auto simp: tbl_find_def)

lemma tbl_find_map:
  "(\<And>r. r \<in> set t \<Longrightarrow> key (f r) = key r) \<Longrightarrow> tbl_find key k (map f t) = map_option f (tbl_find key k t)"
  by (induction t) (auto simp: tbl_find_def)

lemma tbl_find_modify:
  "(\<And>r. key r = k \<Longrightarrow> key (f r) = k) \<Longrightarrow>
     tbl_find key k' (tbl_modify key k f t) =
       (if k' = k then map_option f (tbl_find key k t) else tbl_find key k' t)"
  by (induction t) (auto simp: tbl_find_def tbl_modify_def)

lemma tbl_find_remove:
  "tbl_find key k' (tbl_remove key k t) = (if k' = k then None else tbl_find key k' t)"
  by (induction t) (auto simp: tbl_find_def tbl_remove_def)

lemma tbl_unique_Nil [simp]: "tbl_unique key []"
  by (simp add: tbl_unique_def)

lemma tbl_unique_snoc:
  "tbl_unique key (t @ [r]) \<longleftrightarrow> tbl_unique key t \<and> tbl_find key (key r) t = None"
  by (auto simp: tbl_unique_def tbl_find_None_iff)

lemma tbl_unique_modify:
  assumes "tbl_unique key t" and "\<And>r. key r = k \<Longrightarrow> key (f r) = k"
  shows "tbl_unique key (tbl_modify key k f t)"
proof -
  have "map key (tbl_modify key k f t) = map key t"
    using assms(2) by (auto simp: tbl_modify_def)
  with assms(1) show ?thesis by (simp add: tbl_unique_def)
qed

lemma tbl_unique_remove: "tbl_unique key t \<Longrightarrow> tbl_unique key (tbl_remove key k t)"
  by (simp add: tbl_unique_def tbl_remove_def distinct_map_filter)

lemma tbl_modify_id: "k \<notin> key ` set t \<Longrightarrow> tbl_modify key k f t = t"
  by (induction t) (auto simp: tbl_modify_def)

lemma tbl_remove_id: "k \<notin> key ` set t \<Longrightarrow> tbl_remove key k t = t"
  by (auto simp: tbl_remove_def filter_id_conv)

text \<open>A row of a table splits it, and \<open>modify\<close> and \<open>remove\<close> act at that place only.\<close>

lemma tbl_row_split:
  assumes "tbl_unique key t" and "r \<in> set t"
  obtains us vs where "t = us @ r # vs" and "\<And>f. tbl_modify key (key r) f t = us @ f r # vs"
    and "tbl_remove key (key r) t = us @ vs"
proof -
  obtain us vs where t: "t = us @ r # vs" using assms(2) by (meson split_list)
  then have "key r \<notin> key ` set us" "key r \<notin> key ` set vs"
    using assms(1) by (auto simp: tbl_unique_def)
  then have "tbl_modify key (key r) f t = us @ f r # vs" "tbl_remove key (key r) t = us @ vs" for f
    using tbl_modify_id [of "key r" key us f] tbl_modify_id [of "key r" key vs f]
      tbl_remove_id [of "key r" key us] tbl_remove_id [of "key r" key vs]
    by (simp_all add: t tbl_modify_def tbl_remove_def)
  with t show ?thesis by (rule that)
qed

section \<open>Sums over the rows of an owner\<close>

definition owned_sum :: "('r \<Rightarrow> 'a) \<Rightarrow> ('r \<Rightarrow> int) \<Rightarrow> 'r list \<Rightarrow> 'a \<Rightarrow> int" where
  "owned_sum own sz t a = (\<Sum>r\<leftarrow>t. if own r = a then sz r else 0)"

lemma owned_sum_simps [simp]:
  "owned_sum own sz [] a = 0"
  "owned_sum own sz (r # t) a = (if own r = a then sz r else 0) + owned_sum own sz t a"
  "owned_sum own sz (t @ u) a = owned_sum own sz t a + owned_sum own sz u a"
  by (simp_all add: owned_sum_def)

lemma owned_sum_cong:
  "(\<And>r. r \<in> set t \<Longrightarrow> sz r = sz' r) \<Longrightarrow> owned_sum own sz t a = owned_sum own sz' t a"
  unfolding owned_sum_def by (rule arg_cong [where f = sum_list], rule map_cong) auto

lemma owned_sum_modify:
  assumes "tbl_unique key t" and "r \<in> set t" and "own (f r) = own r"
  shows "owned_sum own sz (tbl_modify key (key r) f t) a =
     owned_sum own sz t a + (if a = own r then sz (f r) - sz r else 0)"
proof -
  obtain us vs where "t = us @ r # vs" "tbl_modify key (key r) f t = us @ f r # vs"
    using tbl_row_split [OF assms(1,2)] by metis
  with assms(3) show ?thesis by simp
qed

lemma owned_sum_remove:
  assumes "tbl_unique key t" and "r \<in> set t"
  shows "owned_sum own sz (tbl_remove key (key r) t) a = owned_sum own sz t a + (if a = own r then - sz r else 0)"
proof -
  obtain us vs where "t = us @ r # vs" "tbl_remove key (key r) t = us @ vs"
    using tbl_row_split [OF assms] by metis
  then show ?thesis by simp
qed

section \<open>The contract holds\<close>

interpretation table: keyed_store "tbl_find key" "tbl_create key" "tbl_modify key" "tbl_remove key"
  key "tbl_unique key" for key :: "'r \<Rightarrow> 'k"
proof
  fix r :: 'r and t t' :: "'r list" and k
  show "tbl_find key k t' = (if k = key r then Some r else tbl_find key k t)"
    if "tbl_create key r t = Inr t'"
    using that by (auto simp: tbl_create_Inr_iff tbl_find_append split: option.splits)
qed (auto simp: tbl_unique_snoc tbl_find_modify tbl_find_remove tbl_create_def
       split: option.splits intro: tbl_unique_modify tbl_unique_remove dest: tbl_find_SomeD)

end
