(* ===== verification/Resource_Limits.thy ===== *)
theory Resource_Limits
  imports Chain_Db
begin

text \<open>
  CPU, network and RAM accounting: \<^verbatim>\<open>libraries/chain/resource_limits.cpp\<close> with
  \<^verbatim>\<open>include/eosio/chain/resource_limits_private.hpp\<close> and \<^verbatim>\<open>resource_limits.hpp\<close>.  Signed 64-bit
  fields are integers, unsigned ones are words of their width; the 128-bit intermediate
  values of the source are 128-bit words.
\<close>

section \<open>Ratios, casts and the moving average\<close>

abbreviation UINT64_MAX :: u64 where
  "UINT64_MAX \<equiv> - 1"

definition rate_limiting_precision :: u64 where
  "rate_limiting_precision = 1000 * 1000"

record ratio =
  numerator :: u64
  denominator :: u64

definition make_ratio :: "u64 \<Rightarrow> u64 \<Rightarrow> ratio" where
  "make_ratio n d = \<lparr>numerator = n, denominator = d\<rparr>"

definition ratio_mult :: "u64 \<Rightarrow> ratio \<Rightarrow> u64 res" where
  "ratio_mult v r =
     EOS_ASSERT (numerator r = 0 \<or> UINT64_MAX div numerator r \<ge> v) rate_limiting_state_inconsistent
       (if denominator r = 0 then Inl undefined_behaviour
        else Inr ((v * numerator r) div denominator r))"

definition integer_divide_ceil :: "'a::len word \<Rightarrow> 'a word \<Rightarrow> 'a word res" where
  "integer_divide_ceil num den =
     (if den = 0 then Inl undefined_behaviour
      else Inr ((num div den) + (if num mod den > 0 then 1 else 0)))"

text \<open>
  \<open>downgrade_cast\<close>: \<open>uint128_t\<close> to \<open>uint64_t\<close> (matching signedness) and \<open>uint128_t\<close> to
  \<open>int64_t\<close> (mismatching signedness).
\<close>

definition downgrade_cast_u64 :: "u128 \<Rightarrow> u64 res" where
  "downgrade_cast_u64 v =
     EOS_ASSERT (v \<ge> 0 \<and> v \<le> ucast UINT64_MAX) rate_limiting_state_inconsistent (Inr (ucast v))"

definition downgrade_cast_i64 :: "u128 \<Rightarrow> int res" where
  "downgrade_cast_i64 v =
     EOS_ASSERT (v \<ge> 0 \<and> v \<le> 0x7FFFFFFFFFFFFFFF) rate_limiting_state_inconsistent (Inr (uint v))"

record usage_accumulator =
  last_ordinal :: u32
  value_ex :: u64
  consumed :: u64

definition usage_accumulator_init :: usage_accumulator where
  "usage_accumulator_init = \<lparr>last_ordinal = 0, value_ex = 0, consumed = 0\<rparr>"

definition max_raw_value :: u64 where
  "max_raw_value = UINT64_MAX div rate_limiting_precision"

definition ema_average :: "usage_accumulator \<Rightarrow> u64 res" where
  "ema_average a = integer_divide_ceil (value_ex a) rate_limiting_precision"

text \<open>
  The block \<open>if( last_ordinal != ordinal )\<close> of \<open>add\<close>: decay the average to the new period
  and start counting that period.
\<close>

definition ema_advance :: "usage_accumulator \<Rightarrow> u32 \<Rightarrow> u32 \<Rightarrow> usage_accumulator res" where
  "ema_advance a ordinal window_size =
     (if last_ordinal a \<noteq> ordinal
      then EOS_ASSERT (ordinal > last_ordinal a) resource_limit_exception
        (bind_res
          (if (ucast (last_ordinal a) :: u64) + ucast window_size > ucast ordinal
           then let delta = ordinal - last_ordinal a;
                    decay = make_ratio ((ucast window_size :: u64) - ucast delta) (ucast window_size)
                in ratio_mult (value_ex a) decay
           else Inr 0)
          (\<lambda>v. let a = a\<lparr>value_ex := v, last_ordinal := ordinal\<rparr>
               in bind_res (ema_average a) (\<lambda>avg. Inr (a\<lparr>consumed := avg\<rparr>))))
      else Inr a)"

definition ema_add :: "usage_accumulator \<Rightarrow> u64 \<Rightarrow> u32 \<Rightarrow> u32 \<Rightarrow> usage_accumulator res" where
  "ema_add a units ordinal window_size =
     EOS_ASSERT (units \<le> max_raw_value) rate_limiting_state_inconsistent
     (EOS_ASSERT (UINT64_MAX - consumed a \<ge> units) rate_limiting_state_inconsistent
     (bind_res (bind_res (integer_divide_ceil ((ucast units :: u128) * ucast rate_limiting_precision)
                            (ucast window_size)) downgrade_cast_u64)
       (\<lambda>value_ex_contrib.
          EOS_ASSERT (UINT64_MAX - value_ex a \<ge> value_ex_contrib) rate_limiting_state_inconsistent
          (bind_res (ema_advance a ordinal window_size)
            (\<lambda>a. Inr (a\<lparr>consumed := consumed a + units,
                        value_ex := value_ex a + value_ex_contrib\<rparr>))))))"

section \<open>Elastic limits\<close>

record elastic_limit_parameters =
  target :: u64
  max_usage :: u64
  periods :: u32
  max_multiplier :: u32
  contract_rate :: ratio
  expand_rate :: ratio

definition validate_elastic :: "elastic_limit_parameters \<Rightarrow> unit res" where
  "validate_elastic p =
     EOS_ASSERT (periods p > 0) resource_limit_exception
     (EOS_ASSERT (denominator (contract_rate p) > 0) resource_limit_exception
     (EOS_ASSERT (denominator (expand_rate p) > 0) resource_limit_exception (Inr ())))"

definition update_elastic_limit :: "u64 \<Rightarrow> u64 \<Rightarrow> elastic_limit_parameters \<Rightarrow> u64 res" where
  "update_elastic_limit current_limit average_usage params =
     bind_res (if average_usage > target params
               then ratio_mult current_limit (contract_rate params)
               else ratio_mult current_limit (expand_rate params))
       (\<lambda>result. Inr (min (max result (max_usage params))
                          (max_usage params * ucast (max_multiplier params))))"

section \<open>The tables\<close>

record resource_limits_object =
  rl_owner :: u64
  rl_pending :: bool
  net_weight :: int
  cpu_weight :: int
  ram_bytes :: int

record resource_usage_object =
  ru_owner :: u64
  net_usage :: usage_accumulator
  cpu_usage :: usage_accumulator
  ram_usage :: u64

record resource_limits_config =
  cpu_limit_parameters :: elastic_limit_parameters
  net_limit_parameters :: elastic_limit_parameters
  account_cpu_usage_average_window :: u32
  account_net_usage_average_window :: u32

record resource_limits_state =
  average_block_net_usage :: usage_accumulator
  average_block_cpu_usage :: usage_accumulator
  pending_net_usage :: u64
  pending_cpu_usage :: u64
  total_net_weight :: u64
  total_cpu_weight :: u64
  total_ram_bytes :: u64
  virtual_net_limit :: u64
  virtual_cpu_limit :: u64

record resource_db =
  limits_tbl :: "resource_limits_object list"
  usage_tbl :: "resource_usage_object list"
  rl_config :: resource_limits_config
  rl_state :: resource_limits_state

text \<open>The unique index \<open>by_owner\<close> of the limits table is over \<open>(pending, owner)\<close>.\<close>

definition rl_key :: "resource_limits_object \<Rightarrow> bool \<times> u64" where
  "rl_key r = (rl_pending r, rl_owner r)"

definition EOS_PERCENT :: "u64 \<Rightarrow> u32 \<Rightarrow> u64" where
  "EOS_PERCENT v percentage = (v * ucast percentage) div 10000"

text \<open>
  The initial configuration: block interval 2000 ms, six-fold block limits of
  \<^verbatim>\<open>config.hpp\<close>, a day of account averaging, a minute of block averaging.
\<close>

definition default_max_block_cpu_usage :: u64 where "default_max_block_cpu_usage = 6 * 200000"
definition default_max_block_net_usage :: u64 where "default_max_block_net_usage = 6 * 1024 * 1024"

definition resource_limits_config_default :: resource_limits_config where
  "resource_limits_config_default =
     \<lparr>cpu_limit_parameters =
        \<lparr>target = EOS_PERCENT default_max_block_cpu_usage 1000, max_usage = default_max_block_cpu_usage,
         periods = 60000 div 2000, max_multiplier = 1000,
         contract_rate = make_ratio 99 100, expand_rate = make_ratio 1000 999\<rparr>,
      net_limit_parameters =
        \<lparr>target = EOS_PERCENT default_max_block_net_usage 1000, max_usage = default_max_block_net_usage,
         periods = 60000 div 2000, max_multiplier = 1000,
         contract_rate = make_ratio 99 100, expand_rate = make_ratio 1000 999\<rparr>,
      account_cpu_usage_average_window = 86400000 div 2000,
      account_net_usage_average_window = 86400000 div 2000\<rparr>"

definition initialize_database :: resource_db where
  "initialize_database =
     (let config = resource_limits_config_default
      in \<lparr>limits_tbl = [], usage_tbl = [], rl_config = config,
          rl_state =
            \<lparr>average_block_net_usage = usage_accumulator_init,
             average_block_cpu_usage = usage_accumulator_init,
             pending_net_usage = 0, pending_cpu_usage = 0,
             total_net_weight = 0, total_cpu_weight = 0, total_ram_bytes = 0,
             virtual_net_limit = max_usage (net_limit_parameters config),
             virtual_cpu_limit = max_usage (cpu_limit_parameters config)\<rparr>\<rparr>)"

section \<open>Operations of the resource limits manager\<close>

definition initialize_account :: "resource_db \<Rightarrow> u64 \<Rightarrow> resource_db res" where
  "initialize_account db account =
     bind_res (tbl_create rl_key
                 \<lparr>rl_owner = account, rl_pending = False, net_weight = -1, cpu_weight = -1, ram_bytes = -1\<rparr>
                 (limits_tbl db))
       (\<lambda>lims. bind_res (tbl_create ru_owner
                 \<lparr>ru_owner = account, net_usage = usage_accumulator_init,
                  cpu_usage = usage_accumulator_init, ram_usage = 0\<rparr> (usage_tbl db))
         (\<lambda>us. Inr (db\<lparr>limits_tbl := lims, usage_tbl := us\<rparr>)))"

definition set_block_parameters ::
    "resource_db \<Rightarrow> elastic_limit_parameters \<Rightarrow> elastic_limit_parameters \<Rightarrow> resource_db res" where
  "set_block_parameters db cpu_params net_params =
     bind_res (validate_elastic cpu_params) (\<lambda>_.
     bind_res (validate_elastic net_params) (\<lambda>_.
       (let config = rl_config db
        in if cpu_limit_parameters config = cpu_params \<and> net_limit_parameters config = net_params
           then Inr db
           else Inr (db\<lparr>rl_config := config\<lparr>cpu_limit_parameters := cpu_params,
                                           net_limit_parameters := net_params\<rparr>\<rparr>))))"

text \<open>Both \<open>add\<close> calls of the \<open>modify\<close> lambda on a usage row.\<close>

definition usage_add :: "resource_limits_config \<Rightarrow> resource_usage_object \<Rightarrow> u64 \<Rightarrow> u64 \<Rightarrow> u32 \<Rightarrow>
    resource_usage_object res" where
  "usage_add config bu cpu net time_slot =
     bind_res (ema_add (net_usage bu) net time_slot (account_net_usage_average_window config)) (\<lambda>n.
     bind_res (ema_add (cpu_usage bu) cpu time_slot (account_cpu_usage_average_window config)) (\<lambda>c.
       Inr (bu\<lparr>net_usage := n, cpu_usage := c\<rparr>)))"

definition put_usage :: "resource_db \<Rightarrow> resource_usage_object \<Rightarrow> resource_db" where
  "put_usage db bu = db\<lparr>usage_tbl := tbl_modify ru_owner (ru_owner bu) (\<lambda>_. bu) (usage_tbl db)\<rparr>"

fun update_account_usage :: "resource_db \<Rightarrow> u64 list \<Rightarrow> u32 \<Rightarrow> resource_db res" where
  "update_account_usage db [] time_slot = Inr db"
| "update_account_usage db (a # accounts) time_slot =
     bind_res (tbl_get ru_owner a (usage_tbl db)) (\<lambda>usage.
     bind_res (usage_add (rl_config db) usage 0 0 time_slot) (\<lambda>bu.
       update_account_usage (put_usage db bu) accounts time_slot))"

text \<open>The three limits \<open>(ram_bytes, net_weight, cpu_weight)\<close>; a pending row takes precedence.\<close>

definition get_account_limits :: "resource_db \<Rightarrow> u64 \<Rightarrow> (int \<times> int \<times> int) res" where
  "get_account_limits db account =
     (case tbl_find rl_key (True, account) (limits_tbl db) of
        Some p \<Rightarrow> Inr (ram_bytes p, net_weight p, cpu_weight p)
      | None \<Rightarrow> bind_res (tbl_get rl_key (False, account) (limits_tbl db))
                  (\<lambda>b. Inr (ram_bytes b, net_weight b, cpu_weight b)))"

definition max_user_use :: "u64 \<Rightarrow> u32 \<Rightarrow> int \<Rightarrow> u64 \<Rightarrow> u128" where
  "max_user_use limit window_size user_weight all_user_weight =
     (((ucast limit :: u128) * ucast window_size) * word_of_int user_weight) div ucast all_user_weight"

definition used_in_window :: "u64 \<Rightarrow> u32 \<Rightarrow> u128" where
  "used_in_window v window_size =
     ((ucast v :: u128) * ucast window_size) div ucast rate_limiting_precision"

text \<open>The body of the loop of \<open>add_transaction_usage\<close> over the authorizing accounts.\<close>

definition add_account_usage :: "resource_db \<Rightarrow> u64 \<Rightarrow> u64 \<Rightarrow> u64 \<Rightarrow> u32 \<Rightarrow> resource_db res" where
  "add_account_usage db a cpu net time_slot =
     (let state = rl_state db; config = rl_config db
      in bind_res (tbl_get ru_owner a (usage_tbl db)) (\<lambda>usage.
         bind_res (get_account_limits db a) (\<lambda>(unused, net_w, cpu_w).
         bind_res (usage_add config usage cpu net time_slot) (\<lambda>bu.
           EOS_ASSERT (cpu_w \<ge> 0 \<and> total_cpu_weight state > 0 \<longrightarrow>
               used_in_window (value_ex (cpu_usage bu)) (account_cpu_usage_average_window config)
                 \<le> max_user_use (virtual_cpu_limit state) (account_cpu_usage_average_window config)
                     cpu_w (total_cpu_weight state))
             tx_cpu_usage_exceeded
           (EOS_ASSERT (net_w \<ge> 0 \<and> total_net_weight state > 0 \<longrightarrow>
               used_in_window (value_ex (net_usage bu)) (account_net_usage_average_window config)
                 \<le> max_user_use (virtual_net_limit state) (account_net_usage_average_window config)
                     net_w (total_net_weight state))
             tx_net_usage_exceeded
           (Inr (put_usage db bu)))))))"

fun add_accounts_usage :: "resource_db \<Rightarrow> u64 list \<Rightarrow> u64 \<Rightarrow> u64 \<Rightarrow> u32 \<Rightarrow> resource_db res" where
  "add_accounts_usage db [] cpu net time_slot = Inr db"
| "add_accounts_usage db (a # accounts) cpu net time_slot =
     bind_res (add_account_usage db a cpu net time_slot)
       (\<lambda>db'. add_accounts_usage db' accounts cpu net time_slot)"

definition add_transaction_usage :: "resource_db \<Rightarrow> u64 list \<Rightarrow> u64 \<Rightarrow> u64 \<Rightarrow> u32 \<Rightarrow> resource_db res" where
  "add_transaction_usage db accounts cpu net time_slot =
     bind_res (add_accounts_usage db accounts cpu net time_slot) (\<lambda>db.
       (let state = (rl_state db)\<lparr>pending_cpu_usage := pending_cpu_usage (rl_state db) + cpu,
                                   pending_net_usage := pending_net_usage (rl_state db) + net\<rparr>;
            config = rl_config db
        in EOS_ASSERT (pending_cpu_usage state \<le> max_usage (cpu_limit_parameters config))
             block_resource_exhausted
           (EOS_ASSERT (pending_net_usage state \<le> max_usage (net_limit_parameters config))
             block_resource_exhausted
           (Inr (db\<lparr>rl_state := state\<rparr>)))))"

definition add_pending_ram_usage :: "resource_db \<Rightarrow> u64 \<Rightarrow> int \<Rightarrow> resource_db res" where
  "add_pending_ram_usage db account ram_delta =
     (if ram_delta = 0 then Inr db
      else bind_res (tbl_get ru_owner account (usage_tbl db)) (\<lambda>usage.
        EOS_ASSERT (ram_delta \<le> 0 \<or> UINT64_MAX - ram_usage usage \<ge> word_of_int ram_delta)
          transaction_exception
        (EOS_ASSERT (ram_delta \<ge> 0 \<or> ram_usage usage \<ge> word_of_int (- ram_delta))
          transaction_exception
        (Inr (put_usage db (usage\<lparr>ram_usage := ram_usage usage + word_of_int ram_delta\<rparr>))))))"

definition verify_account_ram_usage :: "resource_db \<Rightarrow> u64 \<Rightarrow> unit res" where
  "verify_account_ram_usage db account =
     bind_res (get_account_limits db account) (\<lambda>(ram, net_w, cpu_w).
     bind_res (tbl_get ru_owner account (usage_tbl db)) (\<lambda>usage.
       EOS_ASSERT (ram \<ge> 0 \<longrightarrow> ram_usage usage \<le> word_of_int ram) ram_usage_exceeded (Inr ())))"

text \<open>The \<open>uint64_t\<close> usage is returned as an \<open>int64_t\<close>.\<close>

definition get_account_ram_usage :: "resource_db \<Rightarrow> u64 \<Rightarrow> int res" where
  "get_account_ram_usage db account =
     bind_res (tbl_get ru_owner account (usage_tbl db)) (\<lambda>u. Inr (sint (ram_usage u)))"

definition find_or_create_pending_limits :: "resource_db \<Rightarrow> u64 \<Rightarrow>
    (resource_db \<times> resource_limits_object) res" where
  "find_or_create_pending_limits db account =
     (case tbl_find rl_key (True, account) (limits_tbl db) of
        Some p \<Rightarrow> Inr (db, p)
      | None \<Rightarrow>
          bind_res (tbl_get rl_key (False, account) (limits_tbl db)) (\<lambda>limits.
            (let p = \<lparr>rl_owner = rl_owner limits, rl_pending = True, net_weight = net_weight limits,
                      cpu_weight = cpu_weight limits, ram_bytes = ram_bytes limits\<rparr>
             in bind_res (tbl_create rl_key p (limits_tbl db))
                  (\<lambda>t. Inr (db\<lparr>limits_tbl := t\<rparr>, p)))))"

definition set_account_limits :: "resource_db \<Rightarrow> u64 \<Rightarrow> int \<Rightarrow> int \<Rightarrow> int \<Rightarrow> (resource_db \<times> bool) res" where
  "set_account_limits db account ram net_w cpu_w =
     bind_res (find_or_create_pending_limits db account) (\<lambda>(db, limits).
       (let decreased_limit = (if ram \<ge> 0 then ram_bytes limits < 0 \<or> ram < ram_bytes limits else False)
        in Inr (db\<lparr>limits_tbl := tbl_modify rl_key (rl_key limits)
                     (\<lambda>p. p\<lparr>ram_bytes := ram, net_weight := net_w, cpu_weight := cpu_w\<rparr>)
                     (limits_tbl db)\<rparr>, decreased_limit)))"

definition update_state_and_value :: "u64 \<Rightarrow> int \<Rightarrow> int \<Rightarrow> (u64 \<times> int) res" where
  "update_state_and_value tot v pending_value =
     bind_res
       (if v > 0
        then EOS_ASSERT (tot \<ge> word_of_int v) rate_limiting_state_inconsistent
               (Inr (tot - word_of_int v))
        else Inr tot)
       (\<lambda>tot. bind_res
          (if pending_value > 0
           then EOS_ASSERT (UINT64_MAX - tot \<ge> word_of_int pending_value)
                  rate_limiting_state_inconsistent (Inr (tot + word_of_int pending_value))
           else Inr tot)
          (\<lambda>tot. Inr (tot, pending_value)))"

text \<open>
  \<open>lower_bound(make_tuple(true))\<close> on the index over \<open>(pending, owner)\<close>: the pending row of
  the least owner, if there is one.
\<close>

definition first_pending :: "resource_limits_object list \<Rightarrow> resource_limits_object option" where
  "first_pending t =
     (case filter rl_pending t of
        [] \<Rightarrow> None
      | p # ps \<Rightarrow> Some (fold (\<lambda>r best. if rl_owner r < rl_owner best then r else best) ps p))"

lemma fold_least_in: "fold (\<lambda>r best. if rl_owner r < rl_owner best then r else best) ps p \<in> set (p # ps)"
  by (induction ps arbitrary: p) (auto split: if_splits)

lemma first_pendingD: "first_pending t = Some r \<Longrightarrow> r \<in> set t \<and> rl_pending r"
proof (cases "filter rl_pending t")
  case (Cons p ps)
  assume "first_pending t = Some r"
  then have "r \<in> set (filter rl_pending t)"
    using fold_least_in [of ps p] Cons unfolding first_pending_def by auto
  then show ?thesis by auto
qed (simp add: first_pending_def)

lemma first_pending_None_iff: "first_pending t = None \<longleftrightarrow> (\<forall>r \<in> set t. \<not> rl_pending r)"
  by (auto simp: first_pending_def filter_empty_conv split: list.splits)
     (metis filter_empty_conv list.distinct(1))

text \<open>The body of the loop for the pending row \<open>p\<close>.\<close>

definition apply_pending :: "resource_db \<Rightarrow> resource_limits_object \<Rightarrow> resource_db res" where
  "apply_pending db p =
     bind_res (tbl_get rl_key (False, rl_owner p) (limits_tbl db)) (\<lambda>actual.
     bind_res (update_state_and_value (total_ram_bytes (rl_state db)) (ram_bytes actual) (ram_bytes p))
       (\<lambda>(total_ram, ram).
     bind_res (update_state_and_value (total_cpu_weight (rl_state db)) (cpu_weight actual) (cpu_weight p))
       (\<lambda>(total_cpu, cpu).
     bind_res (update_state_and_value (total_net_weight (rl_state db)) (net_weight actual) (net_weight p))
       (\<lambda>(total_net, net).
     Inr (db\<lparr>limits_tbl := tbl_remove rl_key (rl_key p)
               (tbl_modify rl_key (False, rl_owner p)
                  (\<lambda>r. r\<lparr>ram_bytes := ram, cpu_weight := cpu, net_weight := net\<rparr>) (limits_tbl db)),
             rl_state := (rl_state db)\<lparr>total_ram_bytes := total_ram, total_cpu_weight := total_cpu,
                                       total_net_weight := total_net\<rparr>\<rparr>)))))"

lemma apply_pending_shrinks:
  assumes "apply_pending db p = Inr db'" and "p \<in> set (limits_tbl db)" and "rl_pending p"
  shows "length (limits_tbl db') < length (limits_tbl db)"
proof -
  obtain f :: "resource_limits_object \<Rightarrow> resource_limits_object"
    where t': "limits_tbl db' =
      tbl_remove rl_key (rl_key p) (tbl_modify rl_key (False, rl_owner p) f (limits_tbl db))"
    using assms(1) by (auto simp: apply_pending_def)
  have "p \<in> set (tbl_modify rl_key (False, rl_owner p) f (limits_tbl db))"
    using assms(2,3) by (force simp: tbl_modify_def rl_key_def)
  then have "length (tbl_remove rl_key (rl_key p) (tbl_modify rl_key (False, rl_owner p) f (limits_tbl db)))
      < length (tbl_modify rl_key (False, rl_owner p) f (limits_tbl db))"
    unfolding tbl_remove_def by (intro length_filter_less) auto
  then show ?thesis by (simp add: t' tbl_modify_def)
qed

function process_account_limit_updates :: "resource_db \<Rightarrow> resource_db res" where
  "process_account_limit_updates db =
     (case first_pending (limits_tbl db) of
        None \<Rightarrow> Inr db
      | Some p \<Rightarrow> bind_res (apply_pending db p) process_account_limit_updates)"
  by pat_completeness auto

termination
  by (relation "measure (\<lambda>db. length (limits_tbl db))")
     (auto dest: first_pendingD apply_pending_shrinks)

declare process_account_limit_updates.simps [simp del]

definition update_virtual_cpu_limit :: "resource_limits_config \<Rightarrow> resource_limits_state \<Rightarrow>
    resource_limits_state res" where
  "update_virtual_cpu_limit cfg s =
     bind_res (ema_average (average_block_cpu_usage s)) (\<lambda>avg.
     bind_res (update_elastic_limit (virtual_cpu_limit s) avg (cpu_limit_parameters cfg))
       (\<lambda>l. Inr (s\<lparr>virtual_cpu_limit := l\<rparr>)))"

definition update_virtual_net_limit :: "resource_limits_config \<Rightarrow> resource_limits_state \<Rightarrow>
    resource_limits_state res" where
  "update_virtual_net_limit cfg s =
     bind_res (ema_average (average_block_net_usage s)) (\<lambda>avg.
     bind_res (update_elastic_limit (virtual_net_limit s) avg (net_limit_parameters cfg))
       (\<lambda>l. Inr (s\<lparr>virtual_net_limit := l\<rparr>)))"

definition process_block_usage :: "resource_db \<Rightarrow> u32 \<Rightarrow> resource_db res" where
  "process_block_usage db block_num =
     (let s = rl_state db; config = rl_config db
      in bind_res (ema_add (average_block_cpu_usage s) (pending_cpu_usage s) block_num
                     (periods (cpu_limit_parameters config))) (\<lambda>c.
         bind_res (update_virtual_cpu_limit config (s\<lparr>average_block_cpu_usage := c\<rparr>)) (\<lambda>s.
         (let s = s\<lparr>pending_cpu_usage := 0\<rparr>
          in bind_res (ema_add (average_block_net_usage s) (pending_net_usage s) block_num
                     (periods (net_limit_parameters config))) (\<lambda>n.
             bind_res (update_virtual_net_limit config (s\<lparr>average_block_net_usage := n\<rparr>)) (\<lambda>s.
             Inr (db\<lparr>rl_state := s\<lparr>pending_net_usage := 0\<rparr>\<rparr>)))))))"

definition get_virtual_block_cpu_limit :: "resource_db \<Rightarrow> u64" where
  "get_virtual_block_cpu_limit db = virtual_cpu_limit (rl_state db)"

definition get_virtual_block_net_limit :: "resource_db \<Rightarrow> u64" where
  "get_virtual_block_net_limit db = virtual_net_limit (rl_state db)"

definition get_block_cpu_limit :: "resource_db \<Rightarrow> u64" where
  "get_block_cpu_limit db = max_usage (cpu_limit_parameters (rl_config db)) - pending_cpu_usage (rl_state db)"

definition get_block_net_limit :: "resource_db \<Rightarrow> u64" where
  "get_block_net_limit db = max_usage (net_limit_parameters (rl_config db)) - pending_net_usage (rl_state db)"

record account_resource_limit =
  arl_used :: int
  arl_available :: int
  arl_max :: int

definition used_in_window_ceil :: "u64 \<Rightarrow> u32 \<Rightarrow> u128 res" where
  "used_in_window_ceil v window_size =
     integer_divide_ceil ((ucast v :: u128) * ucast window_size) (ucast rate_limiting_precision)"

text \<open>The common tail of the two \<open>get_account_*_limit_ex\<close>: the three casts of the result.\<close>

definition make_arl :: "u128 \<Rightarrow> u128 \<Rightarrow> account_resource_limit res" where
  "make_arl max_user_use_in_window used =
     bind_res (if max_user_use_in_window \<le> used then Inr 0
               else downgrade_cast_i64 (max_user_use_in_window - used)) (\<lambda>available.
     bind_res (downgrade_cast_i64 used) (\<lambda>u.
     bind_res (downgrade_cast_i64 max_user_use_in_window) (\<lambda>m.
     Inr \<lparr>arl_used = u, arl_available = available, arl_max = m\<rparr>)))"

definition get_account_cpu_limit_ex :: "resource_db \<Rightarrow> u64 \<Rightarrow> bool \<Rightarrow> account_resource_limit res" where
  "get_account_cpu_limit_ex db account elastic =
     (let state = rl_state db; config = rl_config db
      in bind_res (tbl_get ru_owner account (usage_tbl db)) (\<lambda>usage.
         bind_res (get_account_limits db account) (\<lambda>(x, y, cpu_w).
         if cpu_w < 0 \<or> total_cpu_weight state = 0
         then Inr \<lparr>arl_used = -1, arl_available = -1, arl_max = -1\<rparr>
         else bind_res (used_in_window_ceil (value_ex (cpu_usage usage))
                          (account_cpu_usage_average_window config)) (\<lambda>used.
           make_arl
             (max_user_use (if elastic then virtual_cpu_limit state
                            else max_usage (cpu_limit_parameters config))
               (account_cpu_usage_average_window config) cpu_w (total_cpu_weight state)) used))))"

definition get_account_cpu_limit :: "resource_db \<Rightarrow> u64 \<Rightarrow> bool \<Rightarrow> int res" where
  "get_account_cpu_limit db account elastic =
     bind_res (get_account_cpu_limit_ex db account elastic) (\<lambda>arl. Inr (arl_available arl))"

definition get_account_net_limit_ex :: "resource_db \<Rightarrow> u64 \<Rightarrow> bool \<Rightarrow> account_resource_limit res" where
  "get_account_net_limit_ex db account elastic =
     (let state = rl_state db; config = rl_config db
      in bind_res (tbl_get ru_owner account (usage_tbl db)) (\<lambda>usage.
         bind_res (get_account_limits db account) (\<lambda>(x, net_w, y).
         if net_w < 0 \<or> total_net_weight state = 0
         then Inr \<lparr>arl_used = -1, arl_available = -1, arl_max = -1\<rparr>
         else bind_res (used_in_window_ceil (value_ex (net_usage usage))
                          (account_net_usage_average_window config)) (\<lambda>used.
           make_arl
             (max_user_use (if elastic then virtual_net_limit state
                            else max_usage (net_limit_parameters config))
               (account_net_usage_average_window config) net_w (total_net_weight state)) used))))"

definition get_account_net_limit :: "resource_db \<Rightarrow> u64 \<Rightarrow> bool \<Rightarrow> int res" where
  "get_account_net_limit db account elastic =
     bind_res (get_account_net_limit_ex db account elastic) (\<lambda>arl. Inr (arl_available arl))"

end
