(* ===== verification/Resource_Accounting.thy ===== *)
theory Resource_Accounting
  imports Resource_Limits
begin

text \<open>
  Properties of the resource limits manager: the moving average computed on words is the
  decaying average on natural numbers, billing keeps every account within its share, the
  totals kept beside the account rows are the sums over those rows, RAM is accounted exactly.
\<close>

section \<open>Rounded division and checked products\<close>

definition ceil_div :: "nat \<Rightarrow> nat \<Rightarrow> nat" where
  "ceil_div n d = (n + (d - 1)) div d"

lemma ceil_div_eq: "0 < d \<Longrightarrow> ceil_div n d = n div d + (if 0 < n mod d then 1 else 0)"
proof -
  assume d: "0 < d"
  have n: "n = d * (n div d) + n mod d" by simp
  have "n + (d - 1) = (n mod d + (d - 1)) + d * (n div d)" using n by linarith
  then have "(n + (d - 1)) div d = n div d + (n mod d + (d - 1)) div d"
    using d by (metis add.commute div_mult_self2 less_numeral_extra(3))
  moreover have "(n mod d + (d - 1)) div d = (if 0 < n mod d then 1 else 0)"
    using d mod_less_divisor [OF d, of n] by (auto simp: div_eq_dividend_iff intro: div_nat_eqI)
  ultimately show ?thesis by (simp add: ceil_div_def)
qed

lemma ceil_div_le_iff: "0 < d \<Longrightarrow> ceil_div n d \<le> m \<longleftrightarrow> n \<le> m * d"
  using div_less_iff_less_mult [of d "n + (d - 1)" "Suc m"] by (auto simp: ceil_div_def less_Suc_eq_le)

lemma ceil_div_le: "0 < d \<Longrightarrow> ceil_div n d \<le> n"
  by (cases d) (simp_all add: ceil_div_le_iff)

lemma integer_divide_ceil_spec:
  assumes "den \<noteq> 0"
  shows "\<exists>q. integer_divide_ceil num den = Inr q \<and> unat q = ceil_div (unat num) (unat den)"
proof -
  have d: "0 < unat den" using assms by (simp add: unat_gt_0)
  have "unat (num div den) + (if 0 < unat num mod unat den then 1 else 0) = ceil_div (unat num) (unat den)"
    using d by (simp add: ceil_div_eq unat_div_distrib)
  moreover have "ceil_div (unat num) (unat den) < 2 ^ LENGTH('a)"
    using ceil_div_le [OF d, of "unat num"] unsigned_less [of num] by (rule order_le_less_trans)
  ultimately have "unat ((num div den) + (if num mod den > 0 then 1 else 0)) = ceil_div (unat num) (unat den)"
    by (auto simp: word_less_nat_alt unat_mod_distrib unat_add_exact split: if_splits)
  with assms show ?thesis by (simp add: integer_divide_ceil_def)
qed

lemma ratio_mult_guard:
  "numerator r = 0 \<or> UINT64_MAX div numerator r \<ge> v \<longleftrightarrow> unat v * unat (numerator r) < 2 ^ 64"
proof (cases "numerator r = 0")
  case False
  then have "0 < unat (numerator r)" by (simp add: unat_gt_0)
  then have "v \<le> UINT64_MAX div numerator r \<longleftrightarrow> unat v * unat (numerator r) \<le> 2 ^ 64 - 1"
    by (simp add: word_le_nat_alt unat_div_distrib unat_max less_eq_div_iff_mult_less_eq)
  with False show ?thesis by auto
qed simp

lemma ratio_mult_Inr_iff:
  "ratio_mult v r = Inr x \<longleftrightarrow>
     denominator r \<noteq> 0 \<and> unat v * unat (numerator r) < 2 ^ 64 \<and>
     unat x = unat v * unat (numerator r) div unat (denominator r)"
proof -
  have "unat v * unat (numerator r) < 2 ^ 64 \<Longrightarrow>
      (v * numerator r) div denominator r = x \<longleftrightarrow> unat x = unat v * unat (numerator r) div unat (denominator r)"
    by (simp add: word_eq_iff_unsigned [where ?'a = nat] unat_mult_exact unat_div_distrib eq_commute)
  then show ?thesis by (auto simp: ratio_mult_def ratio_mult_guard)
qed

section \<open>The moving average\<close>

text \<open>What the value of the previous periods decays to, and what one addition contributes.\<close>

definition ema_decay :: "usage_accumulator \<Rightarrow> u32 \<Rightarrow> u32 \<Rightarrow> nat" where
  "ema_decay a ordinal window_size =
     (if ordinal = last_ordinal a then unat (value_ex a)
      else if unat ordinal < unat (last_ordinal a) + unat window_size
      then unat (value_ex a) * (unat window_size - (unat ordinal - unat (last_ordinal a))) div unat window_size
      else 0)"

definition ema_contrib :: "u64 \<Rightarrow> u32 \<Rightarrow> nat" where
  "ema_contrib units window_size = ceil_div (unat units * 1000000) (unat window_size)"

lemma unat_precision: "unat rate_limiting_precision = 1000000"
  by (simp add: rate_limiting_precision_def)

lemma ema_average_spec:
  "\<exists>q. ema_average a = Inr q \<and> unat q = ceil_div (unat (value_ex a)) 1000000"
proof -
  have "rate_limiting_precision \<noteq> 0" by (simp add: rate_limiting_precision_def)
  from integer_divide_ceil_spec [OF this, of "value_ex a"] show ?thesis
    by (simp only: ema_average_def unat_precision)
qed

lemma ema_contrib_word:
  assumes "unat units * 1000000 < 2 ^ 64" and "0 < window_size"
  shows "\<exists>c. bind_res (integer_divide_ceil ((ucast units :: u128) * ucast rate_limiting_precision)
               (ucast window_size)) downgrade_cast_u64 = Inr c \<and> unat c = ema_contrib units window_size"
proof -
  let ?n = "(ucast units :: u128) * ucast rate_limiting_precision"
  have w: "0 < unat window_size" using assms(2) by (simp add: word_less_nat_alt)
  have n: "unat ?n = unat units * 1000000"
    using assms(1) by (subst unat_mult_exact) (simp_all add: unat_ucast_up unat_precision)
  have "unat (ucast window_size :: u128) = unat window_size" by (rule unat_ucast_up) simp
  with w have w0: "(ucast window_size :: u128) \<noteq> 0" by (metis less_irrefl unat_0)
  obtain q where q: "integer_divide_ceil ?n (ucast window_size) = Inr q"
      "unat q = ema_contrib units window_size"
    using integer_divide_ceil_spec [OF w0, of ?n] by (auto simp: n unat_ucast_up ema_contrib_def)
  have "unat q < 2 ^ 64"
    using q(2) ceil_div_le [OF w, of "unat units * 1000000"] assms(1) by (simp add: ema_contrib_def)
  then have "downgrade_cast_u64 q = Inr (ucast q)" "unat (ucast q :: u64) = unat q"
    by (simp_all add: downgrade_cast_u64_def word_le_nat_alt unat_ucast_up unat_max
          unsigned_ucast_eq take_bit_nat_eq_self)
  with q show ?thesis by simp
qed

text \<open>The decay does not overflow: the check of \<open>operator*\<close> on the value being decayed.\<close>

definition ema_decay_fits :: "usage_accumulator \<Rightarrow> u32 \<Rightarrow> u32 \<Rightarrow> bool" where
  "ema_decay_fits a ordinal window_size \<longleftrightarrow>
     (last_ordinal a < ordinal \<and> unat ordinal < unat (last_ordinal a) + unat window_size \<longrightarrow>
       unat (value_ex a) * (unat window_size - (unat ordinal - unat (last_ordinal a))) < 2 ^ 64)"

lemma in_window_iff:
  "(ucast (last_ordinal a) :: u64) + ucast w > ucast ordinal \<longleftrightarrow>
     unat (ordinal :: u32) < unat (last_ordinal a) + unat (w :: u32)"
proof -
  have "unat (last_ordinal a) < 2 ^ 32" "unat w < 2 ^ 32"
    using unsigned_less [of "last_ordinal a"] unsigned_less [of w] by simp_all
  then have "unat ((ucast (last_ordinal a) :: u64) + ucast w) = unat (last_ordinal a) + unat w"
    by (subst unat_add_exact) (simp_all add: unat_ucast_up)
  then show ?thesis by (simp add: word_less_nat_alt unat_ucast_up)
qed

lemma decay_value_iff:
  assumes "last_ordinal a < ordinal" and "unat ordinal < unat (last_ordinal a) + unat w"
  shows "ratio_mult (value_ex a) (make_ratio ((ucast w :: u64) - ucast (ordinal - last_ordinal a)) (ucast w)) = Inr v
    \<longleftrightarrow> ema_decay_fits a ordinal w \<and> unat v = ema_decay a ordinal w"
proof -
  have delta: "unat (ordinal - last_ordinal a) = unat ordinal - unat (last_ordinal a)"
    using assms(1) by (intro unat_sub_exact) (simp add: word_less_nat_alt)
  have num: "unat ((ucast w :: u64) - ucast (ordinal - last_ordinal a))
      = unat w - (unat ordinal - unat (last_ordinal a))"
    using assms(2) by (subst unat_sub_exact) (simp_all add: unat_ucast_up delta)
  have "unat (ucast w :: u64) = unat w" by (rule unat_ucast_up) simp
  moreover have "0 < unat w" using assms by (simp add: word_less_nat_alt)
  ultimately have "(ucast w :: u64) \<noteq> 0" by (metis less_irrefl unat_0)
  with assms show ?thesis
    by (auto simp: ratio_mult_Inr_iff make_ratio_def num unat_ucast_up ema_decay_fits_def ema_decay_def)
qed

lemma ema_advance_same: "ema_advance a (last_ordinal a) w = Inr a"
  by (simp add: ema_advance_def)

lemma ema_advance_Inr_iff:
  "ema_advance a ordinal w = Inr b \<longleftrightarrow>
     last_ordinal a \<le> ordinal \<and> ema_decay_fits a ordinal w \<and> last_ordinal b = ordinal \<and>
     unat (value_ex b) = ema_decay a ordinal w \<and>
     unat (consumed b) = (if ordinal = last_ordinal a then unat (consumed a)
                          else ceil_div (ema_decay a ordinal w) 1000000)"
proof (cases "ordinal = last_ordinal a")
  case True
  then show ?thesis
    by (cases a, cases b) (auto simp: ema_advance_def ema_decay_fits_def ema_decay_def simp flip: word_eq_iff_unsigned)
next
  case False
  let ?v = "if unat ordinal < unat (last_ordinal a) + unat w
            then ratio_mult (value_ex a) (make_ratio ((ucast w :: u64) - ucast (ordinal - last_ordinal a)) (ucast w))
            else Inr 0"
  have v: "last_ordinal a < ordinal \<Longrightarrow> ?v = Inr v \<longleftrightarrow> ema_decay_fits a ordinal w \<and> unat v = ema_decay a ordinal w" for v
    using decay_value_iff [of a ordinal w v] False
    by (auto simp: ema_decay_fits_def ema_decay_def unat_eq_0)
  have avg: "ema_average (a\<lparr>value_ex := v, last_ordinal := ordinal\<rparr>) = Inr q \<longleftrightarrow> unat q = ceil_div (unat v) 1000000" for v q
    using ema_average_spec [of "a\<lparr>value_ex := v, last_ordinal := ordinal\<rparr>"] by (auto simp: word_eq_iff_unsigned [where ?'a = nat])
  have "ema_advance a ordinal w = Inr b \<longleftrightarrow> last_ordinal a < ordinal \<and>
      (\<exists>v q. ?v = Inr v \<and> unat q = ceil_div (unat v) 1000000 \<and>
        b = a\<lparr>value_ex := v, last_ordinal := ordinal, consumed := q\<rparr>)"
    using False by (auto simp: ema_advance_def in_window_iff Let_def avg)
  also have "\<dots> \<longleftrightarrow> last_ordinal a < ordinal \<and>
      (\<exists>v q. ema_decay_fits a ordinal w \<and> unat v = ema_decay a ordinal w \<and> unat q = ceil_div (unat v) 1000000 \<and>
        b = a\<lparr>value_ex := v, last_ordinal := ordinal, consumed := q\<rparr>)"
    using v by blast
  also have "\<dots> \<longleftrightarrow> last_ordinal a < ordinal \<and> ema_decay_fits a ordinal w \<and> last_ordinal b = ordinal \<and>
     unat (value_ex b) = ema_decay a ordinal w \<and> unat (consumed b) = ceil_div (ema_decay a ordinal w) 1000000"
    by (cases a, cases b) (auto simp del: unat_eq_0)
  finally show ?thesis using False by (simp add: order_le_less)
qed

lemma max_raw_iff: "units \<le> max_raw_value \<longleftrightarrow> unat units \<le> (2 ^ 64 - 1) div 1000000"
  by (simp add: word_le_nat_alt max_raw_value_def unat_div_distrib unat_max unat_precision)

lemma ema_decay_le: "ema_decay a ordinal w \<le> unat (value_ex a)"
proof -
  have "n * (k - d) div k \<le> n" for n k d :: nat
    by (metis diff_le_self div_le_mono div_mult_self_is_m div_by_0 le0 mult_le_mono2 neq0_conv)
  then show ?thesis by (simp add: ema_decay_def)
qed

lemma ema_add_unfold:
  assumes "0 < w"
  shows "ema_add a units ordinal w = Inr a' \<longleftrightarrow>
     unat units \<le> (2 ^ 64 - 1) div 1000000 \<and> unat (consumed a) + unat units < 2 ^ 64 \<and>
     unat (value_ex a) + ema_contrib units w < 2 ^ 64 \<and>
     (\<exists>b c. ema_advance a ordinal w = Inr b \<and> unat c = ema_contrib units w \<and>
        a' = b\<lparr>consumed := consumed b + units, value_ex := value_ex b + c\<rparr>)"
proof (cases "unat units \<le> (2 ^ 64 - 1) div 1000000")
  case True
  then have "unat units * 1000000 < 2 ^ 64" by simp
  from ema_contrib_word [OF this assms] obtain c
    where c: "bind_res (integer_divide_ceil ((ucast units :: u128) * ucast rate_limiting_precision)
          (ucast w)) downgrade_cast_u64 = Inr c" "unat c = ema_contrib units w" by blast
  have uniq: "unat d = ema_contrib units w \<longleftrightarrow> d = c" for d
    using c(2) by (metis unsigned_word_eqI)
  show ?thesis
    using True by (auto simp: ema_add_def max_raw_iff word_head_room c uniq)
qed (simp add: ema_add_def max_raw_iff)

lemma ema_period_fits:
  assumes "unat (units :: u64) \<le> (2 ^ 64 - 1) div 1000000"
  shows "ceil_div (ema_decay a ordinal w) 1000000 + unat units < 2 ^ 64"
proof -
  have "ema_decay a ordinal w < 2 ^ 64"
    using ema_decay_le [of a ordinal w] unsigned_less [of "value_ex a", where ?'a = nat] by simp
  then have "ceil_div (ema_decay a ordinal w) 1000000 \<le> 2 ^ 63"
    by (simp add: ceil_div_le_iff)
  then show ?thesis using assms by simp
qed

lemma ema_add_Inr_iff:
  assumes "0 < window_size"
  shows "ema_add a units ordinal window_size = Inr a' \<longleftrightarrow>
     unat units \<le> (2 ^ 64 - 1) div 1000000 \<and> unat (consumed a) + unat units < 2 ^ 64 \<and>
     unat (value_ex a) + ema_contrib units window_size < 2 ^ 64 \<and>
     last_ordinal a \<le> ordinal \<and> ema_decay_fits a ordinal window_size \<and>
     last_ordinal a' = ordinal \<and>
     unat (value_ex a') = ema_decay a ordinal window_size + ema_contrib units window_size \<and>
     unat (consumed a') = (if ordinal = last_ordinal a then unat (consumed a)
                           else ceil_div (ema_decay a ordinal window_size) 1000000) + unat units"
proof -
  let ?base = "if ordinal = last_ordinal a then unat (consumed a)
               else ceil_div (ema_decay a ordinal window_size) 1000000"
  let ?fits = "unat units \<le> (2 ^ 64 - 1) div 1000000 \<and> unat (consumed a) + unat units < 2 ^ 64 \<and>
     unat (value_ex a) + ema_contrib units window_size < 2 ^ 64"
  have step: "(\<exists>b c. ema_advance a ordinal window_size = Inr b \<and> unat c = ema_contrib units window_size \<and>
        a' = b\<lparr>consumed := consumed b + units, value_ex := value_ex b + c\<rparr>) \<longleftrightarrow>
      last_ordinal a \<le> ordinal \<and> ema_decay_fits a ordinal window_size \<and> last_ordinal a' = ordinal \<and>
      unat (value_ex a') = ema_decay a ordinal window_size + ema_contrib units window_size \<and>
      unat (consumed a') = ?base + unat units" if fits: ?fits
  proof -
    have v: "ema_decay a ordinal window_size + ema_contrib units window_size < 2 ^ 64"
      using fits ema_decay_le [of a ordinal window_size] by linarith
    have k: "?base + unat units < 2 ^ 64"
      using fits ema_period_fits [of units a ordinal window_size] by simp
    show ?thesis
    proof (intro iffI; elim exE conjE)
      fix b c
      assume "ema_advance a ordinal window_size = Inr b" "unat c = ema_contrib units window_size"
        and a': "a' = b\<lparr>consumed := consumed b + units, value_ex := value_ex b + c\<rparr>"
      then show "last_ordinal a \<le> ordinal \<and> ema_decay_fits a ordinal window_size \<and> last_ordinal a' = ordinal \<and>
          unat (value_ex a') = ema_decay a ordinal window_size + ema_contrib units window_size \<and>
          unat (consumed a') = ?base + unat units"
        using v k by (simp add: ema_advance_Inr_iff unat_add_exact)
    next
      assume a': "last_ordinal a \<le> ordinal" "ema_decay_fits a ordinal window_size" "last_ordinal a' = ordinal"
        "unat (value_ex a') = ema_decay a ordinal window_size + ema_contrib units window_size"
        "unat (consumed a') = ?base + unat units"
      obtain x y :: u64 where xy: "unat x = ema_decay a ordinal window_size" "unat y = ema_contrib units window_size"
          "value_ex a' = x + y"
        using unat_sum_split [OF _ a'(4)] v by auto
      obtain z u :: u64 where zu: "unat z = ?base" "unat u = unat units" "consumed a' = z + u"
        using unat_sum_split [OF _ a'(5)] k by auto
      have "ema_advance a ordinal window_size = Inr (a'\<lparr>value_ex := x, consumed := z\<rparr>)"
        using a' xy zu by (simp add: ema_advance_Inr_iff)
      moreover have "u = units" using zu(2) by (rule unsigned_word_eqI)
      ultimately show "\<exists>b c. ema_advance a ordinal window_size = Inr b \<and> unat c = ema_contrib units window_size \<and>
          a' = b\<lparr>consumed := consumed b + units, value_ex := value_ex b + c\<rparr>"
        using xy zu by (intro exI [of _ "a'\<lparr>value_ex := x, consumed := z\<rparr>"] exI [of _ y]) simp
    qed
  qed
  show ?thesis
    unfolding ema_add_unfold [OF assms] using step by blast
qed

text \<open>
  C30 (functional). For a positive window, adding usage succeeds exactly when nothing overflows and
  the ordinal does not go back.  The value then is the previous value, scaled by the share of the
  window that has not passed (zero when it has all passed), plus the units spread over the window;
  the consumption of the current period is counted without wrap-around.
\<close>

theorem ema_add_spec:
  assumes "0 < window_size"
  shows "ema_add a units ordinal window_size = Inr a' \<longleftrightarrow>
     unat units \<le> (2 ^ 64 - 1) div 1000000 \<and> unat (consumed a) + unat units < 2 ^ 64 \<and>
     unat (value_ex a) + ema_contrib units window_size < 2 ^ 64 \<and>
     last_ordinal a \<le> ordinal \<and> ema_decay_fits a ordinal window_size \<and>
     last_ordinal a' = ordinal \<and>
     unat (value_ex a') = ema_decay a ordinal window_size + ema_contrib units window_size \<and>
     unat (consumed a') = (if ordinal = last_ordinal a then unat (consumed a)
                           else ceil_div (ema_decay a ordinal window_size) 1000000) + unat units"
  using assms by (rule ema_add_Inr_iff)

theorem ema_add_spec_witness:
  "ema_add \<lparr>last_ordinal = 10, value_ex = 2000000, consumed = 3\<rparr> 5 12 4 =
     Inr \<lparr>last_ordinal = 12, value_ex = 2250000, consumed = 6\<rparr>"
  using ema_add_spec [of 4 "\<lparr>last_ordinal = 10, value_ex = 2000000, consumed = 3\<rparr>" 5 12
      "\<lparr>last_ordinal = 12, value_ex = 2250000, consumed = 6\<rparr>"]
  by (simp add: ema_contrib_def ema_decay_def ema_decay_fits_def ceil_div_def)

section \<open>Elastic limits and the end of a block\<close>

text \<open>
  Parameters under which the accounting of a block cannot overflow: positive window and
  denominators, and products that fit into 64 bits.
\<close>

definition elastic_fits :: "elastic_limit_parameters \<Rightarrow> bool" where
  "elastic_fits p \<longleftrightarrow>
     0 < periods p \<and> denominator (contract_rate p) \<noteq> 0 \<and> denominator (expand_rate p) \<noteq> 0 \<and>
     0 < max_multiplier p \<and>
     (unat (max_usage p) * 1000000 + unat (periods p)) * (unat (periods p) + 1) < 2 ^ 64 \<and>
     unat (max_usage p) * unat (max_multiplier p) < 2 ^ 64 \<and>
     unat (max_usage p) * unat (max_multiplier p) * unat (numerator (contract_rate p)) < 2 ^ 64 \<and>
     unat (max_usage p) * unat (max_multiplier p) * unat (numerator (expand_rate p)) < 2 ^ 64"

lemma unat_elastic_cap:
  "elastic_fits p \<Longrightarrow> unat (max_usage p * ucast (max_multiplier p)) = unat (max_usage p) * unat (max_multiplier p)"
  unfolding elastic_fits_def by (subst unat_mult_exact) (simp_all add: unat_ucast_up)

lemma elastic_cap_ge: "elastic_fits p \<Longrightarrow> max_usage p \<le> max_usage p * ucast (max_multiplier p)"
  using unat_elastic_cap [of p]
  by (cases "unat (max_multiplier p)") (auto simp: word_le_nat_alt elastic_fits_def word_less_nat_alt)

lemma update_elastic_limit_total:
  assumes "elastic_fits p" and "cur \<le> max_usage p * ucast (max_multiplier p)"
  shows "\<exists>l. update_elastic_limit cur avg p = Inr l \<and>
     max_usage p \<le> l \<and> l \<le> max_usage p * ucast (max_multiplier p)"
proof -
  have ok: "\<exists>x. ratio_mult cur r = Inr x"
    if "denominator r \<noteq> 0" "unat (max_usage p) * unat (max_multiplier p) * unat (numerator r) < 2 ^ 64" for r
  proof -
    have "unat cur \<le> unat (max_usage p) * unat (max_multiplier p)"
      using assms by (simp add: word_le_nat_alt unat_elastic_cap)
    then have "unat cur * unat (numerator r) < 2 ^ 64"
      using that(2) by (meson mult_le_mono1 order_le_less_trans)
    then show ?thesis using that(1) by (auto simp: ratio_mult_def ratio_mult_guard)
  qed
  then obtain x y where "ratio_mult cur (contract_rate p) = Inr x" "ratio_mult cur (expand_rate p) = Inr y"
    using assms(1) unfolding elastic_fits_def by meson
  then show ?thesis
    using elastic_cap_ge [OF assms(1)] by (auto simp: update_elastic_limit_def)
qed

lemma ratio_mult_down:
  "ratio_mult v r = Inr x \<Longrightarrow> numerator r \<le> denominator r \<Longrightarrow> x \<le> v"
proof -
  assume r: "ratio_mult v r = Inr x" and "numerator r \<le> denominator r"
  then have "unat v * unat (numerator r) div unat (denominator r) \<le> unat v * unat (denominator r) div unat (denominator r)"
    by (intro div_le_mono mult_le_mono2) (simp add: word_le_nat_alt)
  with r show "x \<le> v" by (simp add: ratio_mult_Inr_iff word_le_nat_alt unat_gt_0)
qed

lemma ratio_mult_up:
  "ratio_mult v r = Inr x \<Longrightarrow> denominator r \<le> numerator r \<Longrightarrow> v \<le> x"
  by (auto simp: ratio_mult_Inr_iff word_le_nat_alt less_eq_div_iff_mult_less_eq unat_gt_0)

text \<open>
  A virtual limit that starts at most at the maximum times the multiplier stays
  between the maximum and that cap, without an exception; with average usage above the target
  and a contracting rate it does not grow beyond the maximum, below the target and with an
  expanding rate it does not shrink.
\<close>

theorem update_elastic_limit_spec:
  assumes "elastic_fits p" and "cur \<le> max_usage p * ucast (max_multiplier p)"
  shows "\<exists>l. update_elastic_limit cur avg p = Inr l \<and> max_usage p \<le> l \<and>
     l \<le> max_usage p * ucast (max_multiplier p) \<and>
     (avg > target p \<and> numerator (contract_rate p) \<le> denominator (contract_rate p) \<longrightarrow> l \<le> max cur (max_usage p)) \<and>
     (avg \<le> target p \<and> denominator (expand_rate p) \<le> numerator (expand_rate p) \<longrightarrow> cur \<le> l)"
proof -
  obtain l where l: "update_elastic_limit cur avg p = Inr l" "max_usage p \<le> l"
      "l \<le> max_usage p * ucast (max_multiplier p)"
    using update_elastic_limit_total [OF assms, of avg] by blast
  then show ?thesis
    using assms(2) ratio_mult_down [of cur "contract_rate p"] ratio_mult_up [of cur "expand_rate p"]
    by (auto simp: update_elastic_limit_def min_def max_def split: if_splits)
qed

text \<open>
  The state between two blocks: the averages are bounded by the block maximum (plus one unit of
  precision per period for the rounding), what is pending fits into a block, and the virtual
  limits are below their cap.
\<close>

definition block_average_ok :: "usage_accumulator \<Rightarrow> elastic_limit_parameters \<Rightarrow> bool" where
  "block_average_ok a p \<longleftrightarrow>
     unat (value_ex a) \<le> unat (max_usage p) * 1000000 + unat (periods p) \<and>
     unat (consumed a) \<le> 2 * unat (max_usage p) + unat (periods p)"

definition block_ready :: "resource_db \<Rightarrow> bool" where
  "block_ready db \<longleftrightarrow>
     (let c = cpu_limit_parameters (rl_config db); n = net_limit_parameters (rl_config db); s = rl_state db
      in elastic_fits c \<and> elastic_fits n \<and>
         block_average_ok (average_block_cpu_usage s) c \<and> block_average_ok (average_block_net_usage s) n \<and>
         pending_cpu_usage s \<le> max_usage c \<and> pending_net_usage s \<le> max_usage n \<and>
         virtual_cpu_limit s \<le> max_usage c * ucast (max_multiplier c) \<and>
         virtual_net_limit s \<le> max_usage n * ucast (max_multiplier n))"

lemma div_add_le: "a div w + b div w \<le> (a + b) div (w :: nat)"
  by (subst div_add1_eq) simp

lemma decayed_sum_bound:
  fixes M w :: nat
  assumes "v \<le> M * k + w" and "0 < d" and "d \<le> w" and "u \<le> M"
  shows "v * (w - d) div w + ceil_div (u * k) w \<le> M * k + w"
proof -
  have w: "0 < w" using assms by linarith
  have "v * (w - d) \<le> (M * k + w) * (w - 1)"
    using assms by (intro mult_le_mono) auto
  then have "v * (w - d) div w \<le> (M * k + w) * (w - 1) div w"
    by (rule div_le_mono)
  moreover have "ceil_div (u * k) w \<le> (M * k + (w - 1)) div w"
    unfolding ceil_div_def using assms(4) by (intro div_le_mono) (simp add: mult_le_mono1)
  moreover have "(M * k + w) * (w - 1) div w + (M * k + (w - 1)) div w
      \<le> ((M * k + w) * (w - 1) + (M * k + (w - 1))) div w"
    by (rule div_add_le)
  moreover have "(M * k + w) * (w - 1) + (M * k + (w - 1)) < (M * k + w + 1) * w"
    using w by (cases w) (auto simp: algebra_simps)
  then have "((M * k + w) * (w - 1) + (M * k + (w - 1))) div w < M * k + w + 1"
    using w by (simp add: div_less_iff_less_mult)
  ultimately show ?thesis by linarith
qed

lemma ema_add_total:
  assumes "0 < w" and "unat units \<le> (2 ^ 64 - 1) div 1000000" and "unat (consumed a) + unat units < 2 ^ 64"
    and "unat (value_ex a) + ema_contrib units w < 2 ^ 64"
    and "last_ordinal a \<le> ordinal" and "ema_decay_fits a ordinal w"
  shows "\<exists>a'. ema_add a units ordinal w = Inr a'"
proof -
  let ?base = "if ordinal = last_ordinal a then unat (consumed a) else ceil_div (ema_decay a ordinal w) 1000000"
  have "ema_decay a ordinal w + ema_contrib units w < 2 ^ 64"
    using assms(4) ema_decay_le [of a ordinal w] by linarith
  moreover have "?base + unat units < 2 ^ 64"
    using assms(3) ema_period_fits [OF assms(2), of a ordinal w] by simp
  ultimately have "ema_add a units ordinal w = Inr \<lparr>last_ordinal = ordinal,
      value_ex = of_nat (ema_decay a ordinal w + ema_contrib units w), consumed = of_nat (?base + unat units)\<rparr>"
    using assms by (subst ema_add_Inr_iff) (simp_all add: unat_of_nat del: of_nat_add)
  then show ?thesis by blast
qed

lemma block_average_step:
  assumes p: "elastic_fits p" and a: "block_average_ok a p" and u: "units \<le> max_usage p"
    and n: "last_ordinal a < n"
  shows "\<exists>a'. ema_add a units n (periods p) = Inr a' \<and> block_average_ok a' p \<and> last_ordinal a' = n"
proof -
  let ?M = "unat (max_usage p)" and ?w = "unat (periods p)" and ?d = "unat n - unat (last_ordinal a)"
  have w: "0 < ?w" and fit: "(?M * 1000000 + ?w) * (?w + 1) < 2 ^ 64"
    using p by (simp_all add: elastic_fits_def word_less_nat_alt)
  have uM: "unat units \<le> ?M" using u by (simp add: word_le_nat_alt)
  have d: "0 < ?d" using n by (simp add: word_less_nat_alt)
  have M2: "2 * (?M * 1000000 + ?w) < 2 ^ 64"
    using fit w by (cases ?w) (auto simp: algebra_simps)
  have contrib: "ema_contrib units (periods p) \<le> ?M * 1000000"
    unfolding ema_contrib_def using uM ceil_div_le [OF w, of "unat units * 1000000"] by linarith
  have fits: "ema_decay_fits a n (periods p)"
  proof -
    have "unat (value_ex a) * (?w - ?d) \<le> (?M * 1000000 + ?w) * (?w + 1)"
      using a by (intro mult_le_mono) (auto simp: block_average_ok_def)
    with fit show ?thesis by (simp add: ema_decay_fits_def)
  qed
  have "\<exists>a'. ema_add a units n (periods p) = Inr a'"
    using p a uM M2 contrib fits n w
    by (intro ema_add_total) (auto simp: block_average_ok_def elastic_fits_def)
  then obtain a' where a': "ema_add a units n (periods p) = Inr a'" by blast
  have pos: "0 < periods p" using p by (simp add: elastic_fits_def)
  have f: "last_ordinal a' = n" "unat (value_ex a') = ema_decay a n (periods p) + ema_contrib units (periods p)"
      "unat (consumed a') = ceil_div (ema_decay a n (periods p)) 1000000 + unat units"
    using a' n by (auto simp: ema_add_Inr_iff [OF pos])
  have "ema_decay a n (periods p) + ema_contrib units (periods p) \<le> ?M * 1000000 + ?w"
  proof (cases "?d < ?w")
    case True
    then show ?thesis
      using decayed_sum_bound [of "unat (value_ex a)" ?M 1000000 ?w ?d "unat units"] a d uM n
      by (auto simp: ema_decay_def ema_contrib_def block_average_ok_def)
  next
    case False
    then show ?thesis using contrib n by (auto simp: ema_decay_def)
  qed
  moreover have "ema_decay a n (periods p) \<le> ?M * 1000000 + ?w"
    using a ema_decay_le [of a n "periods p"] by (simp add: block_average_ok_def)
  then have "ceil_div (ema_decay a n (periods p)) 1000000 \<le> ?M + ?w"
    by (simp add: ceil_div_le_iff)
  ultimately show ?thesis
    using a' f uM by (simp add: block_average_ok_def)
qed

text \<open>
  Closing a block between \<open>block_ready\<close> states never throws: for a block number
  above those already averaged, both averages advance to it, the pending usage is reset, both
  virtual limits lie between the block maximum and its multiple, and the state is again ready;
  the account rows, the totals and the configuration are untouched.
\<close>

theorem process_block_usage_total:
  assumes "block_ready db"
    and "last_ordinal (average_block_cpu_usage (rl_state db)) < n"
    and "last_ordinal (average_block_net_usage (rl_state db)) < n"
  shows "\<exists>db'. process_block_usage db n = Inr db' \<and> block_ready db' \<and>
     last_ordinal (average_block_cpu_usage (rl_state db')) = n \<and>
     last_ordinal (average_block_net_usage (rl_state db')) = n \<and>
     pending_cpu_usage (rl_state db') = 0 \<and> pending_net_usage (rl_state db') = 0 \<and>
     max_usage (cpu_limit_parameters (rl_config db)) \<le> get_virtual_block_cpu_limit db' \<and>
     max_usage (net_limit_parameters (rl_config db)) \<le> get_virtual_block_net_limit db' \<and>
     limits_tbl db' = limits_tbl db \<and> usage_tbl db' = usage_tbl db \<and> rl_config db' = rl_config db \<and>
     total_ram_bytes (rl_state db') = total_ram_bytes (rl_state db) \<and>
     total_cpu_weight (rl_state db') = total_cpu_weight (rl_state db) \<and>
     total_net_weight (rl_state db') = total_net_weight (rl_state db)"
proof -
  let ?s = "rl_state db" and ?c = "cpu_limit_parameters (rl_config db)"
    and ?n = "net_limit_parameters (rl_config db)"
  note ready = assms(1) [unfolded block_ready_def Let_def]
  obtain ca where ca: "ema_add (average_block_cpu_usage ?s) (pending_cpu_usage ?s) n (periods ?c) = Inr ca"
      "block_average_ok ca ?c" "last_ordinal ca = n"
    using block_average_step assms(2) ready by blast
  obtain na where na: "ema_add (average_block_net_usage ?s) (pending_net_usage ?s) n (periods ?n) = Inr na"
      "block_average_ok na ?n" "last_ordinal na = n"
    using block_average_step assms(3) ready by blast
  obtain cavg navg where avg: "ema_average ca = Inr cavg" "ema_average na = Inr navg"
    using ema_average_spec by meson
  obtain cl where cl: "update_elastic_limit (virtual_cpu_limit ?s) cavg ?c = Inr cl" "max_usage ?c \<le> cl"
      "cl \<le> max_usage ?c * ucast (max_multiplier ?c)"
    using update_elastic_limit_total ready by blast
  obtain nl where nl: "update_elastic_limit (virtual_net_limit ?s) navg ?n = Inr nl" "max_usage ?n \<le> nl"
      "nl \<le> max_usage ?n * ucast (max_multiplier ?n)"
    using update_elastic_limit_total ready by blast
  show ?thesis
    using assms(1) ca na avg cl nl
    by (simp add: process_block_usage_def update_virtual_cpu_limit_def update_virtual_net_limit_def
          block_ready_def Let_def get_virtual_block_cpu_limit_def get_virtual_block_net_limit_def)
qed

lemma block_ready_initialize: "block_ready initialize_database"
  by (simp add: block_ready_def initialize_database_def resource_limits_config_default_def elastic_fits_def
        make_ratio_def default_max_block_cpu_usage_def default_max_block_net_usage_def
        block_average_ok_def usage_accumulator_init_def)

theorem process_block_usage_total_witness:
  "\<exists>db'. process_block_usage initialize_database 1 = Inr db' \<and> block_ready db' \<and>
     6291456 \<le> get_virtual_block_net_limit db'"
  using process_block_usage_total [OF block_ready_initialize, of 1]
  by (auto simp: initialize_database_def usage_accumulator_init_def resource_limits_config_default_def
        default_max_block_net_usage_def)

theorem update_elastic_limit_spec_witness:
  "\<exists>l. update_elastic_limit 2000000 7 (cpu_limit_parameters resource_limits_config_default) = Inr l \<and>
     2000000 \<le> l \<and> l \<le> 1200000000"
  using update_elastic_limit_spec [of "cpu_limit_parameters resource_limits_config_default" 2000000 7]
  by (auto simp: resource_limits_config_default_def elastic_fits_def
        make_ratio_def default_max_block_cpu_usage_def EOS_PERCENT_def)

end
