(* ===== verification/Resource_Totals.thy ===== *)
theory Resource_Totals
  imports Resource_Accounting
begin

text \<open>
  The account limits and their totals: setting limits only touches the pending row of one
  account, applying the pending rows keeps what \<open>get_account_limits\<close> reports, and in every
  reachable state the three totals are the sums over the account rows.
\<close>

section \<open>The invariant\<close>

definition in_i64 :: "int \<Rightarrow> bool" where
  "in_i64 v \<longleftrightarrow> - (2 ^ 63) \<le> v \<and> v < 2 ^ 63"

definition limits_in_i64 :: "resource_limits_object \<Rightarrow> bool" where
  "limits_in_i64 r \<longleftrightarrow> in_i64 (ram_bytes r) \<and> in_i64 (net_weight r) \<and> in_i64 (cpu_weight r)"

text \<open>The sum of the positive limits of the rows that are in force, and of the pending ones.\<close>

definition actual_sum :: "(resource_limits_object \<Rightarrow> int) \<Rightarrow> resource_limits_object list \<Rightarrow> nat" where
  "actual_sum f t = (\<Sum>r\<leftarrow>filter (\<lambda>r. \<not> rl_pending r) t. nat (f r))"

definition pending_sum :: "(resource_limits_object \<Rightarrow> int) \<Rightarrow> resource_limits_object list \<Rightarrow> nat" where
  "pending_sum f t = (\<Sum>r\<leftarrow>filter rl_pending t. nat (f r))"

definition limits_wf :: "resource_limits_object list \<Rightarrow> bool" where
  "limits_wf t \<longleftrightarrow> tbl_unique rl_key t \<and> (\<forall>r \<in> set t. limits_in_i64 r) \<and>
     (\<forall>r \<in> set t. tbl_find rl_key (False, rl_owner r) t \<noteq> None)"

definition totals_ok :: "resource_db \<Rightarrow> bool" where
  "totals_ok db \<longleftrightarrow>
     unat (total_ram_bytes (rl_state db)) = actual_sum ram_bytes (limits_tbl db) \<and>
     unat (total_cpu_weight (rl_state db)) = actual_sum cpu_weight (limits_tbl db) \<and>
     unat (total_net_weight (rl_state db)) = actual_sum net_weight (limits_tbl db)"

definition resource_inv :: "resource_db \<Rightarrow> bool" where
  "resource_inv db \<longleftrightarrow> limits_wf (limits_tbl db) \<and> totals_ok db \<and> tbl_unique ru_owner (usage_tbl db) \<and>
     (\<forall>a. tbl_find ru_owner a (usage_tbl db) = None \<longleftrightarrow> tbl_find rl_key (False, a) (limits_tbl db) = None)"

section \<open>Sums over tables\<close>

lemma actual_sum_simps [simp]:
  "actual_sum f [] = 0"
  "actual_sum f (r # t) = (if rl_pending r then 0 else nat (f r)) + actual_sum f t"
  "actual_sum f (t @ u) = actual_sum f t + actual_sum f u"
  by (simp_all add: actual_sum_def)

lemma pending_sum_simps [simp]:
  "pending_sum f [] = 0"
  "pending_sum f (r # t) = (if rl_pending r then nat (f r) else 0) + pending_sum f t"
  "pending_sum f (t @ u) = pending_sum f t + pending_sum f u"
  by (simp_all add: pending_sum_def)

lemma sums_modify_actual:
  assumes "tbl_unique rl_key t" and "tbl_find rl_key (False, a) t = Some r"
    and "\<And>r. rl_key (g r) = rl_key r"
  shows "actual_sum f (tbl_modify rl_key (False, a) g t) + nat (f r) = actual_sum f t + nat (f (g r))"
    and "pending_sum f (tbl_modify rl_key (False, a) g t) = pending_sum f t"
proof -
  have r: "r \<in> set t" "rl_key r = (False, a)" using assms(2) by (auto dest: tbl_find_SomeD)
  obtain us vs where "t = us @ r # vs" "\<And>f. tbl_modify rl_key (rl_key r) f t = us @ f r # vs"
    using tbl_row_split [OF assms(1) r(1)] by blast
  moreover have "\<not> rl_pending r" "\<not> rl_pending (g r)"
    using r(2) assms(3) [of r] by (simp_all add: rl_key_def)
  ultimately show "actual_sum f (tbl_modify rl_key (False, a) g t) + nat (f r) = actual_sum f t + nat (f (g r))"
    and "pending_sum f (tbl_modify rl_key (False, a) g t) = pending_sum f t"
    by (simp_all add: r(2))
qed

lemma sums_remove_pending:
  assumes "tbl_unique rl_key t" and "p \<in> set t" and "rl_pending p"
  shows "actual_sum f (tbl_remove rl_key (rl_key p) t) = actual_sum f t"
    and "pending_sum f (tbl_remove rl_key (rl_key p) t) + nat (f p) = pending_sum f t"
proof -
  obtain us vs where "t = us @ p # vs" "tbl_remove rl_key (rl_key p) t = us @ vs"
    using tbl_row_split [OF assms(1,2)] by blast
  with assms(3) show "actual_sum f (tbl_remove rl_key (rl_key p) t) = actual_sum f t"
    and "pending_sum f (tbl_remove rl_key (rl_key p) t) + nat (f p) = pending_sum f t" by simp_all
qed

section \<open>Applying one pending row\<close>

lemma unat_word_of_i64: "in_i64 v \<Longrightarrow> 0 < v \<Longrightarrow> unat (word_of_int v :: u64) = nat v"
  by (simp add: in_i64_def unsigned_of_int take_bit_int_eq_self)

lemma update_state_and_value_Inr_iff:
  assumes "in_i64 v" and "in_i64 pv"
  shows "update_state_and_value tot v pv = Inr (tot', x) \<longleftrightarrow>
     x = pv \<and> nat v \<le> unat tot \<and> unat tot - nat v + nat pv < 2 ^ 64 \<and>
     unat tot' = unat tot - nat v + nat pv"
proof (cases "nat v \<le> unat tot")
  case True
  let ?t = "if v > 0 then tot - word_of_int v else tot"
  let ?t' = "if pv > 0 then ?t + word_of_int pv else ?t"
  have t: "unat ?t = unat tot - nat v"
    using assms(1) True by (simp add: unat_sub_exact unat_word_of_i64)
  have 1: "v > 0 \<Longrightarrow> word_of_int v \<le> tot"
    using assms(1) True by (simp add: word_le_nat_alt unat_word_of_i64)
  have 2: "(pv > 0 \<longrightarrow> word_of_int pv \<le> UINT64_MAX - ?t) \<longleftrightarrow> unat tot - nat v + nat pv < 2 ^ 64"
    using assms(2) t unsigned_less [of ?t, where ?'a = nat]
    by (cases "pv > 0") (simp_all only: word_head_room unat_word_of_i64, simp_all)
  define t' where "t' = ?t'"
  have 3: "unat tot - nat v + nat pv < 2 ^ 64 \<Longrightarrow> unat t' = unat tot - nat v + nat pv"
    using assms(2) t by (simp add: t'_def unat_add_exact unat_word_of_i64)
  have "update_state_and_value tot v pv =
      (if pv > 0 \<longrightarrow> word_of_int pv \<le> UINT64_MAX - ?t then Inr (?t', pv)
       else Inl rate_limiting_state_inconsistent)"
    using 1 by (simp add: update_state_and_value_def)
  then have "update_state_and_value tot v pv =
      (if unat tot - nat v + nat pv < 2 ^ 64 then Inr (t', pv) else Inl rate_limiting_state_inconsistent)"
    by (simp only: 2 t'_def)
  with True 3 show ?thesis by (auto simp: word_eq_iff_unsigned [where ?'a = nat])
next
  case False
  then have "v > 0" "\<not> word_of_int v \<le> tot"
    using assms(1) by (simp_all add: word_le_nat_alt unat_word_of_i64)
  with False show ?thesis by (simp add: update_state_and_value_def)
qed

text \<open>The row in force after the pending row \<open>p\<close> has been applied, and the table after that.\<close>

definition apply_row :: "resource_limits_object \<Rightarrow> resource_limits_object \<Rightarrow> resource_limits_object" where
  "apply_row p r = r\<lparr>ram_bytes := ram_bytes p, cpu_weight := cpu_weight p, net_weight := net_weight p\<rparr>"

definition apply_table :: "resource_limits_object \<Rightarrow> resource_limits_object list \<Rightarrow> resource_limits_object list" where
  "apply_table p t =
     tbl_remove rl_key (rl_key p) (tbl_modify rl_key (False, rl_owner p) (apply_row p) t)"

lemma rl_key_apply_row [simp]: "rl_key (apply_row p r) = rl_key r"
  by (simp add: apply_row_def rl_key_def)

lemma apply_row_fields [simp]:
  "ram_bytes (apply_row p r) = ram_bytes p" "cpu_weight (apply_row p r) = cpu_weight p"
  "net_weight (apply_row p r) = net_weight p" "rl_owner (apply_row p r) = rl_owner r"
  "rl_pending (apply_row p r) = rl_pending r"
  by (simp_all add: apply_row_def)

lemma apply_pending_Inr_iff:
  assumes "limits_wf (limits_tbl db)" and "p \<in> set (limits_tbl db)"
    and "tbl_find rl_key (False, rl_owner p) (limits_tbl db) = Some r"
  shows "apply_pending db p = Inr db' \<longleftrightarrow> (\<exists>tr tc tn.
     update_state_and_value (total_ram_bytes (rl_state db)) (ram_bytes r) (ram_bytes p) = Inr (tr, ram_bytes p) \<and>
     update_state_and_value (total_cpu_weight (rl_state db)) (cpu_weight r) (cpu_weight p) = Inr (tc, cpu_weight p) \<and>
     update_state_and_value (total_net_weight (rl_state db)) (net_weight r) (net_weight p) = Inr (tn, net_weight p) \<and>
     db' = db\<lparr>limits_tbl := apply_table p (limits_tbl db),
              rl_state := (rl_state db)\<lparr>total_ram_bytes := tr, total_cpu_weight := tc, total_net_weight := tn\<rparr>\<rparr>)"
proof -
  have res: "(\<exists>e. update_state_and_value tot v pv = Inl e) \<or> (\<exists>t. update_state_and_value tot v pv = Inr (t, pv))"
    for tot v pv by (auto simp: update_state_and_value_def)
  show ?thesis
    using assms(3) res [of "total_ram_bytes (rl_state db)" "ram_bytes r" "ram_bytes p"]
      res [of "total_cpu_weight (rl_state db)" "cpu_weight r" "cpu_weight p"]
      res [of "total_net_weight (rl_state db)" "net_weight r" "net_weight p"]
    by (elim disjE exE) (auto simp: apply_pending_def tbl_get_def apply_table_def apply_row_def [abs_def])
qed

lemma apply_table_find:
  assumes "rl_pending p"
  shows "tbl_find rl_key (False, a) (apply_table p t) =
     (if a = rl_owner p then map_option (apply_row p) (tbl_find rl_key (False, a) t)
      else tbl_find rl_key (False, a) t)"
    and "tbl_find rl_key (True, a) (apply_table p t) =
     (if a = rl_owner p then None else tbl_find rl_key (True, a) t)"
proof -
  have m: "tbl_find rl_key k (tbl_modify rl_key (False, rl_owner p) (apply_row p) t) =
      (if k = (False, rl_owner p) then map_option (apply_row p) (tbl_find rl_key (False, rl_owner p) t)
       else tbl_find rl_key k t)" for k
    by (rule tbl_find_modify) simp
  have "rl_key p = (True, rl_owner p)" using assms by (simp add: rl_key_def)
  then show "tbl_find rl_key (False, a) (apply_table p t) =
     (if a = rl_owner p then map_option (apply_row p) (tbl_find rl_key (False, a) t)
      else tbl_find rl_key (False, a) t)"
    and "tbl_find rl_key (True, a) (apply_table p t) =
     (if a = rl_owner p then None else tbl_find rl_key (True, a) t)"
    by (simp_all add: apply_table_def tbl_find_remove m)
qed

lemma limits_wf_apply_table:
  assumes "limits_wf t" and "p \<in> set t" and "rl_pending p"
  shows "limits_wf (apply_table p t)"
proof -
  have u: "tbl_unique rl_key (apply_table p t)"
    using assms(1) unfolding apply_table_def limits_wf_def
    by (intro tbl_unique_remove tbl_unique_modify) simp_all
  have r: "limits_in_i64 r" if "r \<in> set (apply_table p t)" for r
    using that assms by (auto simp: apply_table_def tbl_remove_def tbl_modify_def limits_wf_def
        limits_in_i64_def split: if_splits)
  have "tbl_find rl_key (False, rl_owner r) (apply_table p t) \<noteq> None" if "r \<in> set (apply_table p t)" for r
  proof -
    have "rl_owner r \<in> rl_owner ` set t"
      using that by (auto simp: apply_table_def tbl_remove_def tbl_modify_def split: if_splits)
    then have "tbl_find rl_key (False, rl_owner r) t \<noteq> None"
      using assms(1) by (auto simp: limits_wf_def)
    then show ?thesis using assms(3)
      by (auto simp: apply_table_find)
  qed
  with u r show ?thesis by (simp add: limits_wf_def)
qed

lemma apply_table_sums:
  assumes "limits_wf t" and "p \<in> set t" and "rl_pending p"
    and "tbl_find rl_key (False, rl_owner p) t = Some r" and "f (apply_row p r) = f p"
  shows "actual_sum f (apply_table p t) + nat (f r) = actual_sum f t + nat (f p)"
    and "pending_sum f (apply_table p t) + nat (f p) = pending_sum f t"
proof -
  let ?m = "tbl_modify rl_key (False, rl_owner p) (apply_row p) t"
  have u: "tbl_unique rl_key t" using assms(1) by (simp add: limits_wf_def)
  then have um: "tbl_unique rl_key ?m" by (rule tbl_unique_modify) simp
  have pm: "p \<in> set ?m" using assms(2,3) by (force simp: tbl_modify_def rl_key_def)
  show "actual_sum f (apply_table p t) + nat (f r) = actual_sum f t + nat (f p)"
    using sums_modify_actual(1) [OF u assms(4), of "apply_row p" f] sums_remove_pending(1) [OF um pm assms(3), of f]
      assms(5) by (simp add: apply_table_def)
  show "pending_sum f (apply_table p t) + nat (f p) = pending_sum f t"
    using sums_modify_actual(2) [OF u assms(4), of "apply_row p" f] sums_remove_pending(2) [OF um pm assms(3), of f]
    by (simp add: apply_table_def)
qed

definition sums_fit :: "resource_limits_object list \<Rightarrow> bool" where
  "sums_fit t \<longleftrightarrow> actual_sum ram_bytes t + pending_sum ram_bytes t < 2 ^ 64 \<and>
     actual_sum cpu_weight t + pending_sum cpu_weight t < 2 ^ 64 \<and>
     actual_sum net_weight t + pending_sum net_weight t < 2 ^ 64"

lemma in_actual_sum_le:
  "tbl_find rl_key (False, a) t = Some r \<Longrightarrow> nat (f r) \<le> actual_sum f t"
proof -
  assume "tbl_find rl_key (False, a) t = Some r"
  then have "r \<in> set t" "\<not> rl_pending r" by (auto dest!: tbl_find_SomeD simp: rl_key_def)
  then show ?thesis by (induction t) auto
qed

lemma apply_pending_inv:
  assumes inv: "resource_inv db" and p: "p \<in> set (limits_tbl db)" "rl_pending p"
    and ok: "apply_pending db p = Inr db'"
  shows "resource_inv db' \<and> limits_tbl db' = apply_table p (limits_tbl db) \<and>
     usage_tbl db' = usage_tbl db \<and> rl_config db' = rl_config db"
proof -
  let ?t = "limits_tbl db"
  have wf: "limits_wf ?t" using inv by (simp add: resource_inv_def)
  obtain r where r: "tbl_find rl_key (False, rl_owner p) ?t = Some r"
    using wf p(1) by (auto simp: limits_wf_def)
  have i64: "limits_in_i64 r" "limits_in_i64 p"
    using wf p(1) tbl_find_SomeD [OF r] by (auto simp: limits_wf_def)
  obtain tr tc tn where
      u: "update_state_and_value (total_ram_bytes (rl_state db)) (ram_bytes r) (ram_bytes p) = Inr (tr, ram_bytes p)"
      "update_state_and_value (total_cpu_weight (rl_state db)) (cpu_weight r) (cpu_weight p) = Inr (tc, cpu_weight p)"
      "update_state_and_value (total_net_weight (rl_state db)) (net_weight r) (net_weight p) = Inr (tn, net_weight p)"
    and db': "db' = db\<lparr>limits_tbl := apply_table p ?t,
        rl_state := (rl_state db)\<lparr>total_ram_bytes := tr, total_cpu_weight := tc, total_net_weight := tn\<rparr>\<rparr>"
    using ok unfolding apply_pending_Inr_iff [OF wf p(1) r] by blast
  have t: "unat tr = unat (total_ram_bytes (rl_state db)) - nat (ram_bytes r) + nat (ram_bytes p)"
      "unat tc = unat (total_cpu_weight (rl_state db)) - nat (cpu_weight r) + nat (cpu_weight p)"
      "unat tn = unat (total_net_weight (rl_state db)) - nat (net_weight r) + nat (net_weight p)"
    using u i64 by (simp_all add: update_state_and_value_Inr_iff limits_in_i64_def)
  have sum: "x = actual_sum f (apply_table p ?t)"
    if "x = actual_sum f ?t - nat (f r) + nat (f p)" "f (apply_row p r) = f p" for x f
    using that(1) apply_table_sums(1) [OF wf p r that(2)] in_actual_sum_le [OF r, of f] by linarith
  have "totals_ok db'"
    using inv t unfolding totals_ok_def resource_inv_def db' by (auto intro: sum)
  moreover have "tbl_find rl_key (False, a) (apply_table p ?t) = None \<longleftrightarrow> tbl_find rl_key (False, a) ?t = None" for a
    using p(2) by (auto simp: apply_table_find)
  ultimately show ?thesis
    using inv limits_wf_apply_table [OF wf p] by (simp add: db' resource_inv_def)
qed

lemma apply_pending_succeeds:
  assumes inv: "resource_inv db" and p: "p \<in> set (limits_tbl db)" "rl_pending p"
    and fit: "sums_fit (limits_tbl db)"
  shows "\<exists>db'. apply_pending db p = Inr db' \<and> sums_fit (limits_tbl db')"
proof -
  let ?t = "limits_tbl db"
  have wf: "limits_wf ?t" and tot: "totals_ok db" using inv by (simp_all add: resource_inv_def)
  obtain r where r: "tbl_find rl_key (False, rl_owner p) ?t = Some r"
    using wf p(1) by (auto simp: limits_wf_def)
  have i64: "limits_in_i64 r" "limits_in_i64 p"
    using wf p(1) tbl_find_SomeD [OF r] by (auto simp: limits_wf_def)
  have upd: "\<exists>t'. update_state_and_value tot (f r) (f p) = Inr (t', f p)"
    if "in_i64 (f r)" "in_i64 (f p)" "unat tot = actual_sum f ?t"
      "actual_sum f ?t + pending_sum f ?t < 2 ^ 64" "f (apply_row p r) = f p" for f tot
  proof -
    have "actual_sum f ?t - nat (f r) + nat (f p) < 2 ^ 64"
      using that(4) apply_table_sums(2) [OF wf p r that(5)] by linarith
    then have "unat (of_nat (actual_sum f ?t - nat (f r) + nat (f p)) :: u64)
        = unat tot - nat (f r) + nat (f p) \<and> unat tot - nat (f r) + nat (f p) < 2 ^ 64"
      using that(3) by (simp add: unat_of_nat del: of_nat_add)
    then show ?thesis
      using update_state_and_value_Inr_iff [OF that(1,2)] in_actual_sum_le [OF r, of f] that(3) by metis
  qed
  have "\<exists>db'. apply_pending db p = Inr db'"
    using upd [of ram_bytes "total_ram_bytes (rl_state db)"] upd [of cpu_weight "total_cpu_weight (rl_state db)"]
      upd [of net_weight "total_net_weight (rl_state db)"] fit tot i64
    unfolding apply_pending_Inr_iff [OF wf p(1) r]
    by (auto simp: sums_fit_def totals_ok_def limits_in_i64_def)
  then obtain db' where db': "apply_pending db p = Inr db'" by blast
  have le: "actual_sum f (apply_table p ?t) + pending_sum f (apply_table p ?t) \<le> actual_sum f ?t + pending_sum f ?t"
    if "f (apply_row p r) = f p" for f
    using apply_table_sums [OF wf p r that] by linarith
  have "sums_fit (apply_table p ?t)"
    using fit le [of ram_bytes] le [of cpu_weight] le [of net_weight] by (simp add: sums_fit_def)
  with db' apply_pending_inv [OF inv p db'] show ?thesis by auto
qed

lemma get_account_limits_apply_table:
  assumes "limits_wf (limits_tbl db)" and "p \<in> set (limits_tbl db)" and "rl_pending p"
    and "limits_tbl db' = apply_table p (limits_tbl db)"
  shows "get_account_limits db' a = get_account_limits db a"
proof (cases "a = rl_owner p")
  case True
  have "tbl_find rl_key (True, rl_owner p) (limits_tbl db) = Some p"
    using assms(1-3) by (subst tbl_find_Some_iff) (simp_all add: limits_wf_def rl_key_def)
  moreover obtain r where "tbl_find rl_key (False, rl_owner p) (limits_tbl db) = Some r"
    using assms(1,2) by (auto simp: limits_wf_def)
  ultimately show ?thesis
    using True assms(3) by (simp add: get_account_limits_def assms(4) apply_table_find tbl_get_def)
next
  case False
  then show ?thesis
    using assms(3) by (simp add: get_account_limits_def assms(4) apply_table_find tbl_get_def split: option.splits)
qed

section \<open>Applying all pending rows\<close>

lemma process_updates_inv:
  "process_account_limit_updates db = Inr db' \<Longrightarrow> resource_inv db \<Longrightarrow>
     resource_inv db' \<and> (\<forall>r \<in> set (limits_tbl db'). \<not> rl_pending r) \<and>
     (\<forall>a. get_account_limits db' a = get_account_limits db a) \<and>
     usage_tbl db' = usage_tbl db \<and> rl_config db' = rl_config db"
proof (induction db rule: process_account_limit_updates.induct)
  case (1 db)
  show ?case
  proof (cases "first_pending (limits_tbl db)")
    case None
    then have "\<forall>r \<in> set (limits_tbl db). \<not> rl_pending r" by (simp add: first_pending_None_iff)
    moreover from 1(2) None have "db' = db" by (simp add: process_account_limit_updates.simps [of db])
    ultimately show ?thesis using 1(3) by simp
  next
    case (Some p)
    note p = first_pendingD [OF Some]
    from 1(2) Some obtain db1 where db1: "apply_pending db p = Inr db1"
        "process_account_limit_updates db1 = Inr db'"
      by (auto simp: process_account_limit_updates.simps [of db])
    have wf: "limits_wf (limits_tbl db)" using 1(3) by (simp add: resource_inv_def)
    note one = apply_pending_inv [OF 1(3) conjunct1 [OF p] conjunct2 [OF p] db1(1)]
    show ?thesis
      using 1(1) [OF Some db1] one get_account_limits_apply_table [OF wf conjunct1 [OF p] conjunct2 [OF p]]
      by simp
  qed
qed

lemma process_updates_total:
  "resource_inv db \<Longrightarrow> sums_fit (limits_tbl db) \<Longrightarrow> \<exists>db'. process_account_limit_updates db = Inr db'"
proof (induction db rule: process_account_limit_updates.induct)
  case (1 db)
  show ?case
  proof (cases "first_pending (limits_tbl db)")
    case None
    then show ?thesis by (simp add: process_account_limit_updates.simps [of db])
  next
    case (Some p)
    note p = first_pendingD [OF Some]
    obtain db1 where db1: "apply_pending db p = Inr db1" "sums_fit (limits_tbl db1)"
      using apply_pending_succeeds [OF 1(2) conjunct1 [OF p] conjunct2 [OF p] 1(3)] by blast
    with 1(1) [OF Some db1(1)] apply_pending_inv [OF 1(2) conjunct1 [OF p] conjunct2 [OF p] db1(1)]
    show ?thesis by (simp add: process_account_limit_updates.simps [of db] Some)
  qed
qed

text \<open>
  Applying the pending limits succeeds whenever the limits in force and the
  pending ones together fit into 64 bits.  Afterwards no row is pending, every account has the limits that
  \<open>get_account_limits\<close> reported before, and the totals are the sums over the rows again.
\<close>

theorem process_account_limit_updates_spec:
  assumes "resource_inv db" and "sums_fit (limits_tbl db)"
  shows "\<exists>db'. process_account_limit_updates db = Inr db' \<and> resource_inv db' \<and>
     (\<forall>r \<in> set (limits_tbl db'). \<not> rl_pending r) \<and>
     (\<forall>a. get_account_limits db' a = get_account_limits db a) \<and>
     usage_tbl db' = usage_tbl db \<and> rl_config db' = rl_config db"
  using process_updates_total [OF assms] process_updates_inv assms(1) by blast

section \<open>Every operation keeps the invariant\<close>

lemma resource_inv_initialize_database: "resource_inv initialize_database"
  by (simp add: resource_inv_def initialize_database_def limits_wf_def totals_ok_def Let_def)

lemma resource_inv_initialize_account:
  assumes "resource_inv db" and "initialize_account db a = Inr db'"
  shows "resource_inv db'"
proof -
  let ?r = "\<lparr>rl_owner = a, rl_pending = False, net_weight = -1, cpu_weight = -1, ram_bytes = -1\<rparr>"
  let ?u = "\<lparr>ru_owner = a, net_usage = usage_accumulator_init, cpu_usage = usage_accumulator_init, ram_usage = 0\<rparr>"
  have free: "tbl_find rl_key (False, a) (limits_tbl db) = None" "tbl_find ru_owner a (usage_tbl db) = None"
    and db': "db' = db\<lparr>limits_tbl := limits_tbl db @ [?r], usage_tbl := usage_tbl db @ [?u]\<rparr>"
    using assms(2) by (auto simp: initialize_account_def tbl_create_Inr_iff rl_key_def)
  have "limits_wf (limits_tbl db @ [?r])"
    using assms(1) free(1)
    by (auto simp: resource_inv_def limits_wf_def tbl_unique_snoc tbl_find_append rl_key_def
          limits_in_i64_def in_i64_def split: option.splits)
  moreover have "totals_ok db'"
    using assms(1) by (simp add: resource_inv_def totals_ok_def db')
  ultimately show ?thesis
    using assms(1) free by (auto simp: resource_inv_def db' tbl_unique_snoc tbl_find_None_iff rl_key_def)
qed

text \<open>Operations that only touch usage rows, the configuration or the block state.\<close>

lemma resource_inv_frame:
  assumes "resource_inv db" and "limits_tbl db' = limits_tbl db"
    and "map ru_owner (usage_tbl db') = map ru_owner (usage_tbl db)"
    and "total_ram_bytes (rl_state db') = total_ram_bytes (rl_state db)"
    and "total_cpu_weight (rl_state db') = total_cpu_weight (rl_state db)"
    and "total_net_weight (rl_state db') = total_net_weight (rl_state db)"
  shows "resource_inv db'"
proof -
  have "ru_owner ` set (usage_tbl db') = ru_owner ` set (usage_tbl db)"
    using assms(3) by (metis list.set_map)
  then show ?thesis
    using assms by (simp add: resource_inv_def totals_ok_def tbl_unique_def tbl_find_None_iff)
qed

lemma put_usage_frame:
  "limits_tbl (put_usage db bu) = limits_tbl db" "rl_state (put_usage db bu) = rl_state db"
  "rl_config (put_usage db bu) = rl_config db"
  "map ru_owner (usage_tbl (put_usage db bu)) = map ru_owner (usage_tbl db)"
  by (simp_all add: put_usage_def tbl_modify_def)

lemma resource_inv_put_usage: "resource_inv db \<Longrightarrow> resource_inv (put_usage db bu)"
  by (rule resource_inv_frame) (simp_all add: put_usage_frame)

lemma resource_inv_update_account_usage:
  "update_account_usage db accounts slot = Inr db' \<Longrightarrow> resource_inv db \<Longrightarrow> resource_inv db'"
  by (induction db accounts slot rule: update_account_usage.induct) (auto intro: resource_inv_put_usage)

lemma add_account_usage_put:
  "add_account_usage db a cpu net slot = Inr db' \<Longrightarrow> \<exists>bu. db' = put_usage db bu"
  by (auto simp: add_account_usage_def Let_def split: if_splits)

lemma resource_inv_add_account_usage:
  "add_account_usage db a cpu net slot = Inr db' \<Longrightarrow> resource_inv db \<Longrightarrow> resource_inv db'"
  by (auto dest!: add_account_usage_put intro: resource_inv_put_usage)

lemma resource_inv_add_accounts_usage:
  "add_accounts_usage db accounts cpu net slot = Inr db' \<Longrightarrow> resource_inv db \<Longrightarrow> resource_inv db'"
  by (induction db accounts cpu net slot rule: add_accounts_usage.induct)
     (auto intro: resource_inv_add_account_usage)

lemma resource_inv_add_transaction_usage:
  assumes "add_transaction_usage db accounts cpu net slot = Inr db'" and "resource_inv db"
  shows "resource_inv db'"
proof -
  obtain db1 where db1: "add_accounts_usage db accounts cpu net slot = Inr db1"
    and db': "db' = db1\<lparr>rl_state := (rl_state db1)\<lparr>pending_cpu_usage := pending_cpu_usage (rl_state db1) + cpu,
                pending_net_usage := pending_net_usage (rl_state db1) + net\<rparr>\<rparr>"
    using assms(1) by (auto simp: add_transaction_usage_def Let_def split: if_splits)
  show ?thesis
    by (rule resource_inv_frame [OF resource_inv_add_accounts_usage [OF db1 assms(2)]]) (simp_all add: db')
qed

lemma resource_inv_add_pending_ram_usage:
  "add_pending_ram_usage db a d = Inr db' \<Longrightarrow> resource_inv db \<Longrightarrow> resource_inv db'"
  by (auto simp: add_pending_ram_usage_def intro: resource_inv_put_usage split: if_splits)

lemma resource_inv_set_block_parameters:
  "set_block_parameters db c n = Inr db' \<Longrightarrow> resource_inv db \<Longrightarrow> resource_inv db'"
  by (auto simp: set_block_parameters_def Let_def intro: resource_inv_frame split: if_splits)

lemma resource_inv_process_block_usage:
  "process_block_usage db n = Inr db' \<Longrightarrow> resource_inv db \<Longrightarrow> resource_inv db'"
  by (rule resource_inv_frame [of db])
     (auto simp: process_block_usage_def update_virtual_cpu_limit_def update_virtual_net_limit_def Let_def)

text \<open>Setting the limits of an account creates or overwrites its pending row.\<close>

lemma find_or_create_pending_limits_spec:
  assumes "resource_inv db" and "find_or_create_pending_limits db a = Inr (db1, lims)"
  shows "resource_inv db1 \<and> tbl_find rl_key (True, a) (limits_tbl db1) = Some lims \<and>
     (\<forall>b. get_account_limits db1 b = get_account_limits db b) \<and>
     usage_tbl db1 = usage_tbl db \<and> rl_config db1 = rl_config db \<and> rl_state db1 = rl_state db"
proof (cases "tbl_find rl_key (True, a) (limits_tbl db)")
  case None
  then obtain r where r: "tbl_find rl_key (False, a) (limits_tbl db) = Some r"
    and lims: "lims = \<lparr>rl_owner = rl_owner r, rl_pending = True, net_weight = net_weight r,
                      cpu_weight = cpu_weight r, ram_bytes = ram_bytes r\<rparr>"
    and free: "tbl_find rl_key (rl_key lims) (limits_tbl db) = None"
    and db1: "db1 = db\<lparr>limits_tbl := limits_tbl db @ [lims]\<rparr>"
    using assms(2) by (auto simp: find_or_create_pending_limits_def tbl_create_Inr_iff Let_def)
  have ow: "rl_owner r = a" and rt: "r \<in> set (limits_tbl db)"
    using tbl_find_SomeD [OF r] by (auto simp: rl_key_def)
  have "limits_wf (limits_tbl db @ [lims])"
    using assms(1) r rt free
    by (auto simp: resource_inv_def limits_wf_def tbl_unique_snoc tbl_find_append ow lims limits_in_i64_def
          split: option.splits)
  moreover have "totals_ok db1"
    using assms(1) by (simp add: resource_inv_def totals_ok_def db1 lims)
  moreover have f: "tbl_find rl_key (True, b) (limits_tbl db @ [lims]) =
      (if b = a then Some lims else tbl_find rl_key (True, b) (limits_tbl db))"
    "tbl_find rl_key (False, b) (limits_tbl db @ [lims]) = tbl_find rl_key (False, b) (limits_tbl db)" for b
    using None ow by (auto simp: tbl_find_append rl_key_def lims split: option.splits)
  moreover have "get_account_limits db1 b = get_account_limits db b" for b
  proof (cases "b = a")
    case True
    have "ram_bytes lims = ram_bytes r" "net_weight lims = net_weight r" "cpu_weight lims = cpu_weight r"
      by (simp_all add: lims)
    with True None r show ?thesis by (simp add: get_account_limits_def db1 f tbl_get_def)
  next
    case False
    then show ?thesis by (simp add: get_account_limits_def db1 f tbl_get_def split: option.splits)
  qed
  ultimately show ?thesis
    using assms(1) by (simp add: resource_inv_def db1)
next
  case (Some p)
  with assms show ?thesis by (simp add: find_or_create_pending_limits_def)
qed

lemma actual_sum_modify_pending:
  "(\<And>r. rl_pending r \<Longrightarrow> rl_pending (g r)) \<Longrightarrow>
     actual_sum h (tbl_modify rl_key (True, a) g t) = actual_sum h t"
  by (induction t) (auto simp: tbl_modify_def rl_key_def)

lemma set_account_limits_spec:
  assumes "resource_inv db" and "set_account_limits db a ram net cpu = Inr (db', decreased)"
    and "in_i64 ram" and "in_i64 net" and "in_i64 cpu"
  shows "resource_inv db' \<and> get_account_limits db' a = Inr (ram, net, cpu) \<and>
     (\<forall>b. b \<noteq> a \<longrightarrow> get_account_limits db' b = get_account_limits db b) \<and>
     rl_state db' = rl_state db \<and> usage_tbl db' = usage_tbl db \<and> rl_config db' = rl_config db \<and>
     (\<exists>ram0 net0 cpu0. get_account_limits db a = Inr (ram0, net0, cpu0) \<and>
        (decreased \<longleftrightarrow> 0 \<le> ram \<and> (ram0 < 0 \<or> ram < ram0)))"
proof -
  let ?g = "\<lambda>p. p\<lparr>ram_bytes := ram, net_weight := net, cpu_weight := cpu\<rparr>"
  obtain db1 lims where 1: "find_or_create_pending_limits db a = Inr (db1, lims)"
    and dec: "decreased = (if 0 \<le> ram then ram_bytes lims < 0 \<or> ram < ram_bytes lims else False)"
    and db': "db' = db1\<lparr>limits_tbl := tbl_modify rl_key (rl_key lims) ?g (limits_tbl db1)\<rparr>"
    using assms(2) by (auto simp: set_account_limits_def Let_def)
  note s = find_or_create_pending_limits_spec [OF assms(1) 1]
  have k: "rl_key lims = (True, a)" and lt: "lims \<in> set (limits_tbl db1)"
    using s tbl_find_SomeD [of rl_key "(True, a)"] by auto
  let ?t = "tbl_modify rl_key (True, a) ?g (limits_tbl db1)"
  have gk: "rl_key (?g p) = rl_key p" for p by (simp add: rl_key_def)
  have f: "tbl_find rl_key k ?t = (if k = (True, a) then Some (?g lims) else tbl_find rl_key k (limits_tbl db1))" for k
    using s by (subst tbl_find_modify) (simp_all add: gk)
  have "limits_wf ?t"
  proof -
    have "rl_owner r \<in> rl_owner ` set (limits_tbl db1) \<and> limits_in_i64 r" if "r \<in> set ?t" for r
      using that s assms(3-5)
      by (auto simp: tbl_modify_def resource_inv_def limits_wf_def limits_in_i64_def split: if_splits)
    moreover have "tbl_unique rl_key ?t"
      using s by (intro tbl_unique_modify) (simp_all add: gk resource_inv_def limits_wf_def)
    moreover have "tbl_find rl_key (False, b) (limits_tbl db1) \<noteq> None" if "b \<in> rl_owner ` set (limits_tbl db1)" for b
      using that s by (auto simp: limits_wf_def resource_inv_def)
    ultimately show ?thesis unfolding limits_wf_def f by auto
  qed
  moreover have "actual_sum h ?t = actual_sum h (limits_tbl db1)" for h
    by (rule actual_sum_modify_pending) simp
  ultimately have "resource_inv db'"
    using s by (auto simp: db' k resource_inv_def totals_ok_def f)
  moreover have "get_account_limits db' a = Inr (ram, net, cpu)"
    by (simp add: get_account_limits_def db' k f)
  moreover have "get_account_limits db' b = get_account_limits db1 b" if "b \<noteq> a" for b
    using that by (simp add: get_account_limits_def db' k f tbl_get_def split: option.splits)
  moreover have "get_account_limits db1 a = Inr (ram_bytes lims, net_weight lims, cpu_weight lims)"
    using s by (simp add: get_account_limits_def)
  ultimately show ?thesis using s dec by (auto simp: db')
qed

text \<open>
  Setting the limits of an account (to 64-bit values) makes \<open>get_account_limits\<close>
  report them at once, for that account only; the totals do not move before the pending rows are
  applied, and the returned flag tells whether a RAM quota was introduced or lowered.
\<close>

theorem set_account_limits_sets:
  assumes "resource_inv db" and "set_account_limits db a ram net cpu = Inr (db', decreased)"
    and "in_i64 ram" and "in_i64 net" and "in_i64 cpu"
  shows "resource_inv db' \<and> get_account_limits db' a = Inr (ram, net, cpu) \<and>
     (\<forall>b. b \<noteq> a \<longrightarrow> get_account_limits db' b = get_account_limits db b) \<and>
     rl_state db' = rl_state db \<and> usage_tbl db' = usage_tbl db \<and> rl_config db' = rl_config db \<and>
     (\<exists>ram0 net0 cpu0. get_account_limits db a = Inr (ram0, net0, cpu0) \<and>
        (decreased \<longleftrightarrow> 0 \<le> ram \<and> (ram0 < 0 \<or> ram < ram0)))"
  by (rule set_account_limits_spec [OF assms])

section \<open>Reachable states\<close>

text \<open>One call of the manager that returns; a call that throws is undone by the caller.\<close>

inductive resource_step :: "resource_db \<Rightarrow> resource_db \<Rightarrow> bool" where
  step_initialize_account: "initialize_account db a = Inr db' \<Longrightarrow> resource_step db db'"
| step_set_block_parameters: "set_block_parameters db c n = Inr db' \<Longrightarrow> resource_step db db'"
| step_update_account_usage: "update_account_usage db accounts slot = Inr db' \<Longrightarrow> resource_step db db'"
| step_add_transaction_usage:
    "add_transaction_usage db accounts cpu net slot = Inr db' \<Longrightarrow> resource_step db db'"
| step_add_pending_ram_usage: "add_pending_ram_usage db a d = Inr db' \<Longrightarrow> resource_step db db'"
| step_set_account_limits:
    "set_account_limits db a ram net cpu = Inr (db', decreased) \<Longrightarrow>
       in_i64 ram \<Longrightarrow> in_i64 net \<Longrightarrow> in_i64 cpu \<Longrightarrow> resource_step db db'"
| step_process_account_limit_updates: "process_account_limit_updates db = Inr db' \<Longrightarrow> resource_step db db'"
| step_process_block_usage: "process_block_usage db block_num = Inr db' \<Longrightarrow> resource_step db db'"

lemmas resource_inv_ops =
  resource_inv_initialize_account resource_inv_set_block_parameters resource_inv_update_account_usage
  resource_inv_add_transaction_usage resource_inv_add_pending_ram_usage resource_inv_process_block_usage

lemma resource_step_inv: "resource_step db db' \<Longrightarrow> resource_inv db \<Longrightarrow> resource_inv db'"
  by (induction rule: resource_step.induct)
     (blast intro: resource_inv_ops dest: set_account_limits_spec process_updates_inv)+

lemma resource_reachable_inv: "resource_step\<^sup>*\<^sup>* db db' \<Longrightarrow> resource_inv db \<Longrightarrow> resource_inv db'"
  by (induction rule: rtranclp_induct) (auto intro: resource_step_inv)

text \<open>
  C15 (invariant). In every state reached from the initial database by any sequence of calls of the
  manager, the totals of RAM, CPU weight and network weight are the sums over the account rows in
  force, keys are unique, every pending row belongs to an account, and exactly the accounts have a
  usage row.
\<close>

theorem resource_inv_reachable:
  assumes "resource_step\<^sup>*\<^sup>* initialize_database db"
  shows "resource_inv db"
  using resource_reachable_inv [OF assms resource_inv_initialize_database] .

section \<open>Witnesses\<close>

text \<open>One account, created and then given limits.\<close>

definition sample_account_db :: resource_db where
  "sample_account_db = initialize_database
     \<lparr>limits_tbl := [\<lparr>rl_owner = 7, rl_pending = False, net_weight = -1, cpu_weight = -1, ram_bytes = -1\<rparr>],
      usage_tbl := [\<lparr>ru_owner = 7, net_usage = usage_accumulator_init, cpu_usage = usage_accumulator_init,
                     ram_usage = 0\<rparr>]\<rparr>"

definition sample_pending_db :: resource_db where
  "sample_pending_db = sample_account_db
     \<lparr>limits_tbl := limits_tbl sample_account_db @
        [\<lparr>rl_owner = 7, rl_pending = True, net_weight = 5, cpu_weight = 6, ram_bytes = 1000\<rparr>]\<rparr>"

lemma sample_create: "initialize_account initialize_database 7 = Inr sample_account_db"
  by (simp add: initialize_account_def tbl_create_def initialize_database_def sample_account_db_def)

lemma sample_set: "set_account_limits sample_account_db 7 1000 5 6 = Inr (sample_pending_db, True)"
  by (simp add: set_account_limits_def find_or_create_pending_limits_def tbl_create_def tbl_get_def tbl_find_def
        tbl_modify_def rl_key_def sample_account_db_def sample_pending_db_def Let_def)

lemmas sample_account_inv = resource_inv_initialize_account [OF resource_inv_initialize_database sample_create]

theorem set_account_limits_sets_witness:
  "get_account_limits sample_pending_db 7 = Inr (1000, 5, 6)"
  using set_account_limits_sets [OF sample_account_inv sample_set] by (simp add: in_i64_def)

theorem resource_inv_reachable_witness: "resource_inv sample_pending_db"
proof (rule resource_inv_reachable)
  have "resource_step initialize_database sample_account_db"
    by (rule step_initialize_account [OF sample_create])
  moreover have "resource_step sample_account_db sample_pending_db"
    by (rule step_set_account_limits [OF sample_set]) (simp_all add: in_i64_def)
  ultimately show "resource_step\<^sup>*\<^sup>* initialize_database sample_pending_db" by simp
qed

lemma sample_pending_inv: "resource_inv sample_pending_db"
  using set_account_limits_spec [OF sample_account_inv sample_set] by (simp add: in_i64_def)

theorem process_account_limit_updates_spec_witness:
  "\<exists>db'. process_account_limit_updates sample_pending_db = Inr db' \<and> resource_inv db' \<and>
     get_account_limits db' 7 = Inr (1000, 5, 6)"
proof -
  have "sums_fit (limits_tbl sample_pending_db)"
    by (simp add: sums_fit_def sample_pending_db_def sample_account_db_def)
  moreover have "get_account_limits sample_pending_db 7 = Inr (1000, 5, 6)"
    by (simp add: get_account_limits_def tbl_find_def rl_key_def sample_pending_db_def sample_account_db_def)
  ultimately show ?thesis
    using process_account_limit_updates_spec [OF sample_pending_inv] by auto
qed

end
