(* ===== verification/Resource_Billing.thy ===== *)
theory Resource_Billing
  imports Resource_Totals
begin

text \<open>
  Billing of transactions and of RAM: a transaction that is accepted leaves each authorizing
  account within its share of the virtual capacity, computed without wrap-around, and the block
  within its maximum; RAM usage changes by exactly the delta.
\<close>

section \<open>Shares of the capacity\<close>

text \<open>The share of an account as numbers: used capacity in the window against the entitlement.\<close>

definition within_share :: "u64 \<Rightarrow> u32 \<Rightarrow> int \<Rightarrow> u64 \<Rightarrow> u64 \<Rightarrow> bool" where
  "within_share limit w weight tot v \<longleftrightarrow>
     (0 \<le> weight \<and> 0 < tot \<longrightarrow>
       unat v * unat w div 1000000 \<le> unat limit * unat w * nat weight div unat tot)"

lemma unat_product_64_32: "unat (ucast v * ucast w :: u128) = unat (v :: u64) * unat (w :: u32)"
proof -
  have "unat v * unat w \<le> 2 ^ 64 * 2 ^ 32"
    using unsigned_less [of v, where ?'a = nat] unsigned_less [of w, where ?'a = nat]
    by (intro mult_le_mono) simp_all
  then show ?thesis
    by (subst unat_mult_exact) (simp_all add: unat_ucast_up)
qed

lemma unat_used_in_window: "unat (used_in_window v w) = unat v * unat w div 1000000"
  by (simp add: used_in_window_def unat_div_distrib unat_product_64_32 unat_ucast_up unat_precision)

lemma unat_max_user_use:
  assumes "unat limit * unat w < 2 ^ 64" and "in_i64 weight" and "0 \<le> weight"
  shows "unat (max_user_use limit w weight tot) = unat limit * unat w * nat weight div unat tot"
proof -
  have nw: "unat (word_of_int weight :: u128) = nat weight"
    using assms(2,3) by (simp add: in_i64_def unsigned_of_int take_bit_int_eq_self)
  have "unat limit * unat w * nat weight \<le> 2 ^ 64 * 2 ^ 63"
    using assms by (intro mult_le_mono) (auto simp: in_i64_def)
  then have "unat ((ucast limit * ucast w) * word_of_int weight :: u128) = unat limit * unat w * nat weight"
    by (subst unat_mult_exact) (simp_all add: unat_product_64_32 nw)
  then show ?thesis
    by (simp add: max_user_use_def unat_div_distrib unat_ucast_up)
qed

definition capacity_fits :: "resource_db \<Rightarrow> bool" where
  "capacity_fits db \<longleftrightarrow>
     unat (virtual_cpu_limit (rl_state db)) * unat (account_cpu_usage_average_window (rl_config db)) < 2 ^ 64 \<and>
     unat (virtual_net_limit (rl_state db)) * unat (account_net_usage_average_window (rl_config db)) < 2 ^ 64"

definition account_within_share :: "resource_db \<Rightarrow> u64 \<Rightarrow> resource_usage_object \<Rightarrow> bool" where
  "account_within_share db a u \<longleftrightarrow> (\<exists>ram net cpu. get_account_limits db a = Inr (ram, net, cpu) \<and>
     within_share (virtual_cpu_limit (rl_state db)) (account_cpu_usage_average_window (rl_config db)) cpu
       (total_cpu_weight (rl_state db)) (value_ex (cpu_usage u)) \<and>
     within_share (virtual_net_limit (rl_state db)) (account_net_usage_average_window (rl_config db)) net
       (total_net_weight (rl_state db)) (value_ex (net_usage u)))"

lemma get_account_limits_in_i64:
  assumes "resource_inv db" and "get_account_limits db a = Inr (ram, net, cpu)"
  shows "in_i64 ram \<and> in_i64 net \<and> in_i64 cpu"
proof -
  obtain r where "r \<in> set (limits_tbl db)" "ram = ram_bytes r" "net = net_weight r" "cpu = cpu_weight r"
    using assms(2) by (auto simp: get_account_limits_def dest: tbl_find_SomeD split: option.splits)
  then show ?thesis
    using assms(1) by (auto simp: resource_inv_def limits_wf_def limits_in_i64_def)
qed

lemma share_check_iff:
  assumes "unat limit * unat w < 2 ^ 64" and "in_i64 weight"
  shows "(weight \<ge> 0 \<and> tot > 0 \<longrightarrow> used_in_window v w \<le> max_user_use limit w weight tot) \<longleftrightarrow>
     within_share limit w weight tot v"
  using assms by (auto simp: within_share_def word_le_nat_alt unat_used_in_window unat_max_user_use)

section \<open>One authorizing account\<close>

lemma usage_add_owner: "usage_add config bu cpu net slot = Inr bu' \<Longrightarrow> ru_owner bu' = ru_owner bu"
  by (auto simp: usage_add_def)

lemma add_account_usage_Inr_iff:
  assumes "resource_inv db" and "capacity_fits db"
  shows "add_account_usage db a cpu net slot = Inr db' \<longleftrightarrow> (\<exists>u0 u.
     tbl_find ru_owner a (usage_tbl db) = Some u0 \<and> usage_add (rl_config db) u0 cpu net slot = Inr u \<and>
     account_within_share db a u \<and> db' = put_usage db u)"
proof (cases "get_account_limits db a")
  case (Inl e)
  then show ?thesis by (simp add: add_account_usage_def Let_def account_within_share_def)
next
  case (Inr l)
  obtain ram n c where l: "l = (ram, n, c)" by (cases l)
  have i: "in_i64 n" "in_i64 c" using get_account_limits_in_i64 [OF assms(1)] Inr l by auto
  note chk = share_check_iff [OF conjunct1 [OF assms(2) [unfolded capacity_fits_def]] i(2)]
    share_check_iff [OF conjunct2 [OF assms(2) [unfolded capacity_fits_def]] i(1)]
  show ?thesis
    by (auto simp: add_account_usage_def Let_def Inr l chk account_within_share_def)
qed

definition billable :: "resource_db \<Rightarrow> u64 \<Rightarrow> u64 \<Rightarrow> u32 \<Rightarrow> u64 \<Rightarrow> bool" where
  "billable db cpu net slot a \<longleftrightarrow> (\<exists>u0 u. tbl_find ru_owner a (usage_tbl db) = Some u0 \<and>
     usage_add (rl_config db) u0 cpu net slot = Inr u \<and> account_within_share db a u)"

text \<open>The usage row of \<open>a\<close> after billing: the row before with both averages advanced.\<close>

definition billed :: "resource_db \<Rightarrow> resource_db \<Rightarrow> u64 \<Rightarrow> u64 \<Rightarrow> u32 \<Rightarrow> u64 \<Rightarrow> bool" where
  "billed db db' cpu net slot a \<longleftrightarrow> (\<exists>u0 u. tbl_find ru_owner a (usage_tbl db) = Some u0 \<and>
     usage_add (rl_config db) u0 cpu net slot = Inr u \<and> account_within_share db a u \<and>
     tbl_find ru_owner a (usage_tbl db') = Some u)"

lemma find_put_usage:
  "tbl_find ru_owner (ru_owner u) (usage_tbl db) = Some u0 \<Longrightarrow>
     tbl_find ru_owner b (usage_tbl (put_usage db u)) =
       (if b = ru_owner u then Some u else tbl_find ru_owner b (usage_tbl db))"
  by (simp add: put_usage_def tbl_find_modify)

lemma put_usage_keeps:
  "get_account_limits (put_usage db u) = get_account_limits db"
  "account_within_share (put_usage db u) = account_within_share db"
  "capacity_fits (put_usage db u) = capacity_fits db"
  unfolding fun_eq_iff get_account_limits_def account_within_share_def capacity_fits_def put_usage_frame
  by (rule allI, rule refl, intro allI, rule refl, rule refl)

lemma add_accounts_usage_spec:
  assumes "resource_inv db" and "capacity_fits db" and "distinct accounts"
  shows "(\<exists>db'. add_accounts_usage db accounts cpu net slot = Inr db') \<longleftrightarrow>
      (\<forall>a \<in> set accounts. billable db cpu net slot a)"
    and "add_accounts_usage db accounts cpu net slot = Inr db' \<Longrightarrow>
      (\<forall>a \<in> set accounts. billed db db' cpu net slot a) \<and>
      (\<forall>b. b \<notin> set accounts \<longrightarrow> tbl_find ru_owner b (usage_tbl db') = tbl_find ru_owner b (usage_tbl db)) \<and>
      limits_tbl db' = limits_tbl db \<and> rl_config db' = rl_config db \<and> rl_state db' = rl_state db"
  using assms
proof (induction accounts arbitrary: db)
  case (Cons a accounts)
  {
    case 1
    show ?case
    proof (cases "billable db cpu net slot a")
      case True
      then obtain u0 u where u: "tbl_find ru_owner a (usage_tbl db) = Some u0"
          "usage_add (rl_config db) u0 cpu net slot = Inr u" "account_within_share db a u"
        by (auto simp: billable_def)
      then have step: "add_account_usage db a cpu net slot = Inr (put_usage db u)"
        using 1 by (auto simp: add_account_usage_Inr_iff)
      have own: "ru_owner u = a" using u usage_add_owner by (metis tbl_find_SomeD)
      have "billable (put_usage db u) cpu net slot b \<longleftrightarrow> billable db cpu net slot b" if "b \<in> set accounts" for b
        using that 1 u own by (auto simp: billable_def put_usage_keeps put_usage_frame find_put_usage)
      then show ?thesis
        using Cons.IH(1) [of "put_usage db u"] 1 True
        by (simp add: step resource_inv_put_usage put_usage_keeps)
    next
      case False
      then have "\<nexists>db'. add_account_usage db a cpu net slot = Inr db'"
        using 1 by (auto simp: add_account_usage_Inr_iff billable_def)
      with False show ?thesis by auto
    qed
  next
    case 2
    then obtain u0 u where u: "tbl_find ru_owner a (usage_tbl db) = Some u0"
        "usage_add (rl_config db) u0 cpu net slot = Inr u" "account_within_share db a u"
      and rest: "add_accounts_usage (put_usage db u) accounts cpu net slot = Inr db'"
      by (auto simp: add_account_usage_Inr_iff)
    have own: "ru_owner u = a" using u usage_add_owner by (metis tbl_find_SomeD)
    note ih = Cons.IH(2) [OF rest resource_inv_put_usage [OF 2(2)]]
    have "billed (put_usage db u) db' cpu net slot b \<longleftrightarrow> billed db db' cpu net slot b" if "b \<in> set accounts" for b
      using that 2 u own by (auto simp: billed_def put_usage_keeps put_usage_frame find_put_usage)
    with ih 2 u own show ?case
      by (auto simp: put_usage_keeps put_usage_frame find_put_usage billed_def)
  }
qed simp_all

section \<open>Transactions\<close>

text \<open>
  C28 (safety). Billing a transaction to distinct accounts succeeds exactly when every account has
  a usage row whose averages can take the usage and stays within its exact share of the virtual
  capacity, and the block has room for the usage.  Then exactly those accounts are billed and the
  pending usage of the block grows by the usage of the transaction, up to the block maximum at most.
\<close>

theorem add_transaction_usage_spec:
  assumes "resource_inv db" and "capacity_fits db" and "distinct accounts"
    and "unat (pending_cpu_usage (rl_state db)) + unat cpu < 2 ^ 64"
    and "unat (pending_net_usage (rl_state db)) + unat net < 2 ^ 64"
  shows "((\<exists>db'. add_transaction_usage db accounts cpu net slot = Inr db') \<longleftrightarrow>
      (\<forall>a \<in> set accounts. billable db cpu net slot a) \<and>
      unat (pending_cpu_usage (rl_state db)) + unat cpu \<le> unat (max_usage (cpu_limit_parameters (rl_config db))) \<and>
      unat (pending_net_usage (rl_state db)) + unat net \<le> unat (max_usage (net_limit_parameters (rl_config db)))) \<and>
    (\<forall>db'. add_transaction_usage db accounts cpu net slot = Inr db' \<longrightarrow>
      (\<forall>a \<in> set accounts. billed db db' cpu net slot a) \<and>
      (\<forall>b. b \<notin> set accounts \<longrightarrow> tbl_find ru_owner b (usage_tbl db') = tbl_find ru_owner b (usage_tbl db)) \<and>
      unat (pending_cpu_usage (rl_state db')) = unat (pending_cpu_usage (rl_state db)) + unat cpu \<and>
      unat (pending_net_usage (rl_state db')) = unat (pending_net_usage (rl_state db)) + unat net \<and>
      limits_tbl db' = limits_tbl db \<and> rl_config db' = rl_config db)"
proof -
  let ?s = "\<lambda>d. (rl_state d)\<lparr>pending_cpu_usage := pending_cpu_usage (rl_state d) + cpu,
                 pending_net_usage := pending_net_usage (rl_state d) + net\<rparr>"
  note acc = add_accounts_usage_spec [OF assms(1-3), of cpu net slot]
  have fits: "pending_cpu_usage (rl_state db) + cpu \<le> max_usage (cpu_limit_parameters (rl_config db)) \<longleftrightarrow>
      unat (pending_cpu_usage (rl_state db)) + unat cpu \<le> unat (max_usage (cpu_limit_parameters (rl_config db)))"
    "pending_net_usage (rl_state db) + net \<le> max_usage (net_limit_parameters (rl_config db)) \<longleftrightarrow>
      unat (pending_net_usage (rl_state db)) + unat net \<le> unat (max_usage (net_limit_parameters (rl_config db)))"
    using assms(4,5) by (simp_all add: word_le_nat_alt unat_add_exact)
  have iff: "add_transaction_usage db accounts cpu net slot = Inr db' \<longleftrightarrow>
      (\<exists>d. add_accounts_usage db accounts cpu net slot = Inr d \<and>
        unat (pending_cpu_usage (rl_state db)) + unat cpu \<le> unat (max_usage (cpu_limit_parameters (rl_config db))) \<and>
        unat (pending_net_usage (rl_state db)) + unat net \<le> unat (max_usage (net_limit_parameters (rl_config db))) \<and>
        db' = d\<lparr>rl_state := ?s d\<rparr>)" for db'
    using acc(2) by (auto simp: add_transaction_usage_def Let_def fits)
  show ?thesis
    using acc assms(4,5) by (auto simp: iff unat_add_exact billed_def)
qed

lemma sample_billable: "billable sample_account_db 2000 300 5 7"
proof -
  have ema: "\<exists>b. ema_add usage_accumulator_init n 5 43200 = Inr b" if "unat n \<le> 2000" for n
    using that by (intro ema_add_total)
      (auto simp: usage_accumulator_init_def ema_contrib_def ceil_div_def ema_decay_fits_def)
  obtain n c where "ema_add usage_accumulator_init 300 5 43200 = Inr n" "ema_add usage_accumulator_init 2000 5 43200 = Inr c"
    using ema [of 300] ema [of 2000] by auto
  then show ?thesis
    by (simp add: billable_def usage_add_def account_within_share_def within_share_def get_account_limits_def
          sample_account_db_def initialize_database_def Let_def resource_limits_config_default_def
          tbl_find_def tbl_get_def rl_key_def)
qed

theorem add_transaction_usage_spec_witness:
  "\<exists>db'. add_transaction_usage sample_account_db [7] 2000 300 5 = Inr db' \<and>
     unat (pending_cpu_usage (rl_state db')) = 2000 \<and> billed sample_account_db db' 2000 300 5 7"
proof -
  have "capacity_fits sample_account_db"
    by (simp add: capacity_fits_def sample_account_db_def initialize_database_def Let_def
          resource_limits_config_default_def default_max_block_cpu_usage_def default_max_block_net_usage_def)
  from add_transaction_usage_spec [OF sample_account_inv this, of "[7]" 2000 300 5] sample_billable show ?thesis
    by (auto simp: sample_account_db_def initialize_database_def Let_def
          resource_limits_config_default_def default_max_block_cpu_usage_def default_max_block_net_usage_def)
qed

section \<open>RAM\<close>

text \<open>The two guards of \<open>add_pending_ram_usage\<close> together bound the sum.\<close>

lemma ram_delta_checks:
  assumes "in_i64 d" and "- (2 ^ 63) < d"
  shows "(d \<le> 0 \<or> word_of_int d \<le> UINT64_MAX - x) \<and> (0 \<le> d \<or> word_of_int (- d) \<le> x) \<longleftrightarrow>
     0 \<le> uint x + d \<and> uint x + d < 2 ^ 64"
proof -
  have x: "uint x = int (unat x)" "uint x < 2 ^ 64"
    using unsigned_less [of x, where ?'a = int] by simp_all
  have up: "d > 0 \<Longrightarrow> word_of_int d \<le> UINT64_MAX - x \<longleftrightarrow> int (unat x) + d < 2 ^ 64"
  proof -
    assume d: "d > 0"
    then have "n + nat d < 2 ^ 64 \<longleftrightarrow> int n + d < 2 ^ 64" for n by auto
    then show ?thesis using unat_word_of_i64 [OF assms(1) d] by (simp only: word_head_room) simp
  qed
  have "in_i64 (- d)" using assms by (auto simp: in_i64_def)
  then have down: "d < 0 \<Longrightarrow> word_of_int (- d) \<le> x \<longleftrightarrow> 0 \<le> int (unat x) + d"
  proof -
    assume d: "d < 0" and i: "in_i64 (- d)"
    then have "nat (- d) \<le> n \<longleftrightarrow> 0 \<le> int n + d" for n by auto
    then show ?thesis using unat_word_of_i64 [OF i] d by (simp only: word_le_nat_alt)
  qed
  consider "d = 0" | "d > 0" | "d < 0" by linarith
  then show ?thesis unfolding x(1)
    using x(2) up down by cases (simp_all only:, auto)
qed

text \<open>
  A RAM delta is applied exactly: it is accepted if and only if the account has a
  usage row and the new usage is neither negative nor above the 64-bit range; then that usage is the
  sum and no other row changes.  Otherwise the call throws.
\<close>

theorem add_pending_ram_usage_spec:
  assumes "in_i64 d" and "- (2 ^ 63) < d" and "tbl_find ru_owner a (usage_tbl db) = Some u"
  shows "if 0 \<le> uint (ram_usage u) + d \<and> uint (ram_usage u) + d < 2 ^ 64
    then \<exists>db' u'. add_pending_ram_usage db a d = Inr db' \<and>
      tbl_find ru_owner a (usage_tbl db') = Some u' \<and> uint (ram_usage u') = uint (ram_usage u) + d \<and>
      net_usage u' = net_usage u \<and> cpu_usage u' = cpu_usage u \<and>
      (\<forall>b. b \<noteq> a \<longrightarrow> tbl_find ru_owner b (usage_tbl db') = tbl_find ru_owner b (usage_tbl db)) \<and>
      limits_tbl db' = limits_tbl db \<and> rl_state db' = rl_state db
    else add_pending_ram_usage db a d = Inl transaction_exception"
proof -
  let ?u' = "u\<lparr>ram_usage := ram_usage u + word_of_int d\<rparr>"
  have own: "ru_owner u = a" using assms(3) by (auto dest: tbl_find_SomeD)
  have lt: "uint (ram_usage u) < 2 ^ 64" using unsigned_less [of "ram_usage u", where ?'a = int] by simp
  have def: "add_pending_ram_usage db a d =
      (if 0 \<le> uint (ram_usage u) + d \<and> uint (ram_usage u) + d < 2 ^ 64
       then Inr (if d = 0 then db else put_usage db ?u') else Inl transaction_exception)"
    using ram_delta_checks [OF assms(1,2), of "ram_usage u"] assms(3) lt
    by (auto simp: add_pending_ram_usage_def tbl_get_def)
  have "0 \<le> uint (ram_usage u) + d \<and> uint (ram_usage u) + d < 2 ^ 64 \<Longrightarrow>
      uint (ram_usage u + word_of_int d) = uint (ram_usage u) + d"
    by (simp add: uint_word_ariths uint_word_of_int mod_simps)
  with def assms(3) own show ?thesis
    by (auto simp: find_put_usage put_usage_frame)
qed

theorem add_pending_ram_usage_spec_witness:
  "\<exists>db' u'. add_pending_ram_usage sample_account_db 7 4096 = Inr db' \<and>
     tbl_find ru_owner 7 (usage_tbl db') = Some u' \<and> uint (ram_usage u') = 4096"
  using add_pending_ram_usage_spec [of 4096 7 sample_account_db "hd (usage_tbl sample_account_db)"]
  by (auto simp: sample_account_db_def in_i64_def)

end
