(* ===== verification/Authority.thy ===== *)
theory Authority
  imports Chain_Db "HOL-Library.Sublist" "HOL-Library.Multiset"
begin

text \<open>
  Authorities and the checker that decides whether signing keys, permissions and a delay satisfy
  one: \<^verbatim>\<open>include/eosio/chain/authority.hpp\<close>, \<^verbatim>\<open>authority_checker.hpp\<close> and
  \<^verbatim>\<open>permission_level\<close> of \<^verbatim>\<open>action.hpp\<close>.  Public keys are a linearly ordered type \<open>'k\<close>; the
  function that maps a permission to its authority is a parameter of the checker, as in the source.
\<close>

section \<open>Permission levels\<close>

datatype permission_level = permission_level (actor: u64) (permission: u64)

text \<open>The operators of \<open>permission_level\<close> compare the pair of actor and permission.\<close>

instantiation permission_level :: linorder
begin

definition less_eq_permission_level :: "permission_level \<Rightarrow> permission_level \<Rightarrow> bool" where
  "a \<le> b \<longleftrightarrow> actor a < actor b \<or> actor a = actor b \<and> permission a \<le> permission b"

definition less_permission_level :: "permission_level \<Rightarrow> permission_level \<Rightarrow> bool" where
  "a < b \<longleftrightarrow> actor a < actor b \<or> actor a = actor b \<and> permission a < permission b"

instance
  by standard
     (auto simp: less_eq_permission_level_def less_permission_level_def permission_level.expand)

end

section \<open>Authorities\<close>

record permission_level_weight =
  plw_permission :: permission_level
  plw_weight :: u16

record 'k key_weight =
  kw_key :: 'k
  kw_weight :: u16

record wait_weight =
  wait_sec :: u32
  ww_weight :: u16

record 'k authority =
  threshold :: u32
  auth_keys :: "'k key_weight list"
  auth_accounts :: "permission_level_weight list"
  auth_waits :: "wait_weight list"

definition add_delay :: "u32 \<Rightarrow> 'k authority \<Rightarrow> 'k authority" where
  "add_delay delay_sec a =
     (if delay_sec > 0
      then a\<lparr>threshold := 2, auth_waits := auth_waits a @ [\<lparr>wait_sec = delay_sec, ww_weight = 1\<rparr>]\<rparr>
      else a)"

definition authority_of_key :: "'k \<Rightarrow> u32 \<Rightarrow> 'k authority" where
  "authority_of_key k delay_sec = add_delay delay_sec
     \<lparr>threshold = 1, auth_keys = [\<lparr>kw_key = k, kw_weight = 1\<rparr>], auth_accounts = [], auth_waits = []\<rparr>"

definition authority_of_permission :: "permission_level \<Rightarrow> u32 \<Rightarrow> 'k authority" where
  "authority_of_permission p delay_sec = add_delay delay_sec
     \<lparr>threshold = 1, auth_keys = [], auth_accounts = [\<lparr>plw_permission = p, plw_weight = 1\<rparr>],
      auth_waits = []\<rparr>"

text \<open>The empty authority of the default constructor.\<close>

definition authority_empty :: "'k authority" where
  "authority_empty = \<lparr>threshold = 0, auth_keys = [], auth_accounts = [], auth_waits = []\<rparr>"

definition billable_align :: "nat \<Rightarrow> nat" where
  "billable_align v = ((v + 16 - 1) div 16) * 16"

text \<open>\<open>pack_size\<close> is the serialized size of a public key.\<close>

definition get_billable_size :: "('k \<Rightarrow> nat) \<Rightarrow> 'k authority \<Rightarrow> nat" where
  "get_billable_size pack_size a =
     length (auth_accounts a) * billable_align 24 + length (auth_waits a) * billable_align 16 +
     (\<Sum>k\<leftarrow>auth_keys a. billable_align 8 + pack_size (kw_key k))"

text \<open>
  The three loops of \<open>validate\<close>: \<open>None\<close> when a neighbouring pair is out of order, otherwise
  the total weight, in the 32-bit type of the threshold.
\<close>

fun validate_keys :: "'k::linorder option \<Rightarrow> u32 \<Rightarrow> 'k key_weight list \<Rightarrow> u32 option" where
  "validate_keys prev tot [] = Some tot"
| "validate_keys prev tot (k # ks) =
     (if (case prev of None \<Rightarrow> False | Some q \<Rightarrow> \<not> q < kw_key k) then None
      else validate_keys (Some (kw_key k)) (tot + ucast (kw_weight k)) ks)"

fun validate_accounts :: "permission_level option \<Rightarrow> u32 \<Rightarrow> permission_level_weight list \<Rightarrow> u32 option" where
  "validate_accounts prev tot [] = Some tot"
| "validate_accounts prev tot (a # as) =
     (if (case prev of None \<Rightarrow> False | Some q \<Rightarrow> q \<ge> plw_permission a) then None
      else validate_accounts (Some (plw_permission a)) (tot + ucast (plw_weight a)) as)"

fun validate_waits :: "u32 option \<Rightarrow> u32 \<Rightarrow> wait_weight list \<Rightarrow> u32 option" where
  "validate_waits prev tot [] = Some tot"
| "validate_waits prev tot (w # ws) =
     (if (case prev of None \<Rightarrow> False | Some q \<Rightarrow> q \<ge> wait_sec w) then None
      else validate_waits (Some (wait_sec w)) (tot + ucast (ww_weight w)) ws)"

definition validate_authority :: "'k::linorder authority \<Rightarrow> bool" where
  "validate_authority auth =
     (if length (auth_keys auth) + length (auth_accounts auth) + length (auth_waits auth) > 2 ^ 16 then False
      else if threshold auth = 0 then False
      else case validate_keys None 0 (auth_keys auth) of
        None \<Rightarrow> False
      | Some t1 \<Rightarrow>
          (case validate_accounts None t1 (auth_accounts auth) of
            None \<Rightarrow> False
          | Some t2 \<Rightarrow>
              if auth_waits auth \<noteq> [] \<and> wait_sec (hd (auth_waits auth)) = 0 then False
              else (case validate_waits None t2 (auth_waits auth) of
                  None \<Rightarrow> False
                | Some t3 \<Rightarrow> t3 \<ge> threshold auth)))"

section \<open>What a valid authority is\<close>

definition total_weight :: "'k authority \<Rightarrow> nat" where
  "total_weight a = (\<Sum>k\<leftarrow>auth_keys a. unat (kw_weight k)) + (\<Sum>p\<leftarrow>auth_accounts a. unat (plw_weight p)) +
     (\<Sum>w\<leftarrow>auth_waits a. unat (ww_weight w))"

definition authority_wf :: "'k::linorder authority \<Rightarrow> bool" where
  "authority_wf a \<longleftrightarrow>
     length (auth_keys a) + length (auth_accounts a) + length (auth_waits a) \<le> 2 ^ 16 \<and>
     0 < threshold a \<and>
     sorted_wrt (<) (map kw_key (auth_keys a)) \<and>
     sorted_wrt (<) (map plw_permission (auth_accounts a)) \<and>
     sorted_wrt (<) (map wait_sec (auth_waits a)) \<and> (\<forall>w \<in> set (auth_waits a). 0 < wait_sec w) \<and>
     unat (threshold a) \<le> total_weight a"

text \<open>The three loops are one: sum the weights while the keys strictly increase.\<close>

fun checked_sum :: "'a::linorder option \<Rightarrow> u32 \<Rightarrow> ('a \<times> u16) list \<Rightarrow> u32 option" where
  "checked_sum prev tot [] = Some tot"
| "checked_sum prev tot ((k, w) # ks) =
     (if (case prev of None \<Rightarrow> True | Some q \<Rightarrow> q < k) then checked_sum (Some k) (tot + ucast w) ks else None)"

lemma validate_keys_checked:
  "validate_keys prev tot ks = checked_sum prev tot (map (\<lambda>k. (kw_key k, kw_weight k)) ks)"
  by (induction prev tot ks rule: validate_keys.induct) (auto split: option.splits)

lemma validate_accounts_checked:
  "validate_accounts prev tot as = checked_sum prev tot (map (\<lambda>a. (plw_permission a, plw_weight a)) as)"
  by (induction prev tot as rule: validate_accounts.induct) (auto split: option.splits)

lemma validate_waits_checked:
  "validate_waits prev tot ws = checked_sum prev tot (map (\<lambda>w. (wait_sec w, ww_weight w)) ws)"
  by (induction prev tot ws rule: validate_waits.induct) (auto split: option.splits)

lemma checked_sum_eq:
  "checked_sum prev tot ks =
     (if sorted_wrt (<) ((case prev of None \<Rightarrow> [] | Some q \<Rightarrow> [q]) @ map fst ks)
      then Some (tot + (\<Sum>k\<leftarrow>ks. ucast (snd k))) else None)"
  by (induction prev tot ks rule: checked_sum.induct) (auto split: option.splits simp: algebra_simps)

lemma weights_sum_fits:
  "length ws \<le> 2 ^ 16 \<Longrightarrow>
     unat (\<Sum>w\<leftarrow>ws. ucast (w :: u16) :: u32) = (\<Sum>w\<leftarrow>ws. unat w) \<and> (\<Sum>w\<leftarrow>ws. unat w) \<le> length ws * 65535"
proof (induction ws)
  case (Cons w ws)
  have w: "unat (ucast w :: u32) = unat w" "unat w \<le> 65535"
    using unsigned_less [of w, where ?'a = nat] by (simp_all add: unsigned_ucast_eq take_bit_nat_eq_self)
  have "unat w + (\<Sum>w\<leftarrow>ws. unat w) < 2 ^ 32"
    using Cons w(2) by simp
  with Cons w show ?case by (simp add: unat_word_ariths)
qed simp

lemma sorted_waits_positive:
  "sorted_wrt (<) (map wait_sec ws) \<Longrightarrow>
     (ws \<noteq> [] \<and> wait_sec (hd ws) = 0) \<longleftrightarrow> \<not> (\<forall>w \<in> set ws. 0 < wait_sec w)"
  by (cases ws) (auto simp: word_gt_0 dest: order_le_less_trans [OF word_zero_le])

text \<open>
  C31 (equivalence). \<open>validate\<close> accepts exactly the authorities with a positive threshold that the
  weights can reach, computed without overflow, whose keys, permissions and waits are strictly
  increasing (so without duplicates), and whose waits are positive.
\<close>

theorem validate_authority_iff: "validate_authority a \<longleftrightarrow> authority_wf a"
proof (cases "length (auth_keys a) + length (auth_accounts a) + length (auth_waits a) \<le> 2 ^ 16")
  case True
  let ?ws = "map kw_weight (auth_keys a) @ map plw_weight (auth_accounts a) @ map ww_weight (auth_waits a)"
  have "unat (\<Sum>w\<leftarrow>?ws. ucast (w :: u16) :: u32) = (\<Sum>w\<leftarrow>?ws. unat w)"
    using weights_sum_fits [of ?ws] True by simp
  then have "unat ((\<Sum>k\<leftarrow>auth_keys a. ucast (kw_weight k)) + (\<Sum>p\<leftarrow>auth_accounts a. ucast (plw_weight p)) +
      (\<Sum>w\<leftarrow>auth_waits a. ucast (ww_weight w)) :: u32) = total_weight a"
    by (simp add: total_weight_def comp_def add.assoc)
  then show ?thesis
    using True sorted_waits_positive [of "auth_waits a"]
    by (auto simp: validate_authority_def authority_wf_def validate_keys_checked validate_accounts_checked
          validate_waits_checked checked_sum_eq comp_def word_le_nat_alt word_gt_0)
qed (simp add: validate_authority_def authority_wf_def)

end
