(* ===== verification/Authority_Checker.thy ===== *)
theory Authority_Checker
  imports Authority
begin

text \<open>
  The recursive authority checker of \<^verbatim>\<open>include/eosio/chain/authority_checker.hpp\<close>: the entries
  of an authority in order of weight, the tally with its early return, the cache of permissions
  and the marking of used keys, which is reverted when an authority is not satisfied.
\<close>

section \<open>Entries of an authority\<close>

datatype 'k meta_permission =
    MP_account permission_level_weight
  | MP_key "'k key_weight"
  | MP_wait wait_weight

fun mp_weight :: "'k meta_permission \<Rightarrow> u32" where
  "mp_weight (MP_account p) = ucast (plw_weight p)"
| "mp_weight (MP_key k) = ucast (kw_weight k)"
| "mp_weight (MP_wait w) = ucast (ww_weight w)"

fun mp_which :: "'k meta_permission \<Rightarrow> nat" where
  "mp_which (MP_account p) = 0"
| "mp_which (MP_key k) = 1"
| "mp_which (MP_wait w) = 2"

definition meta_permission_comparator :: "'k meta_permission \<Rightarrow> 'k meta_permission \<Rightarrow> bool" where
  "meta_permission_comparator l r \<longleftrightarrow>
     mp_weight l > mp_weight r \<or> mp_weight l = mp_weight r \<and> mp_which l > mp_which r"

text \<open>Insertion into a \<open>flat_multiset\<close>: after the elements that are not ordered behind the new one.\<close>

fun mp_insert :: "'k meta_permission \<Rightarrow> 'k meta_permission list \<Rightarrow> 'k meta_permission list" where
  "mp_insert x [] = [x]"
| "mp_insert x (y # ys) = (if meta_permission_comparator x y then x # y # ys else y # mp_insert x ys)"

definition meta_permissions :: "'k authority \<Rightarrow> 'k meta_permission list" where
  "meta_permissions a =
     fold mp_insert (map MP_wait (auth_waits a) @ map MP_key (auth_keys a) @ map MP_account (auth_accounts a)) []"

lemma mset_mp_insert [simp]: "mset (mp_insert x ys) = add_mset x (mset ys)"
  by (induction ys) auto

lemma mset_fold_mp_insert: "mset (fold mp_insert xs ys) = mset xs + mset ys"
  by (induction xs arbitrary: ys) auto

lemma mset_meta_permissions:
  "mset (meta_permissions a) =
     mset (map MP_wait (auth_waits a) @ map MP_key (auth_keys a) @ map MP_account (auth_accounts a))"
  by (simp add: meta_permissions_def mset_fold_mp_insert)

section \<open>The checker\<close>

datatype permission_cache_status = being_evaluated | permission_unsatisfied | permission_satisfied

type_synonym permission_cache = "permission_level \<rightharpoonup> permission_cache_status"

text \<open>What a checker is constructed with, and what its calls change.\<close>

record 'k checker =
  permission_to_authority :: "permission_level \<Rightarrow> 'k authority res"
  provided_keys :: "'k list"
  provided_permissions :: "permission_level list"
  provided_delay :: int
  recursion_depth_limit :: u16

record check_state =
  used_keys :: "bool list"
  cached_permissions :: permission_cache

definition permission_status_in_cache :: "permission_cache \<Rightarrow> permission_level \<Rightarrow> permission_cache_status option" where
  "permission_status_in_cache permissions level =
     (case permissions level of
        Some s \<Rightarrow> Some s
      | None \<Rightarrow> permissions (permission_level (actor level) 0))"

definition initialize_permission_cache :: "'k checker \<Rightarrow> permission_cache" where
  "initialize_permission_cache c = map_of (map (\<lambda>p. (p, permission_satisfied)) (provided_permissions c))"

text \<open>\<open>boost::find\<close>: the index of the first element equal to the key, the length if there is none.\<close>

fun find_index :: "'k \<Rightarrow> 'k list \<Rightarrow> nat" where
  "find_index k [] = 0"
| "find_index k (x # xs) = (if x = k then 0 else Suc (find_index k xs))"

text \<open>
  \<open>visit_wait\<close>, \<open>visit_key\<close> and \<open>visit_account\<close> are the three call operators of
  \<open>weight_tally_visitor\<close>, \<open>satisfied_authority\<close> is the private \<open>satisfied\<close> with the cache and the
  depth, \<open>tally\<close> its loop.
\<close>

definition visit_wait :: "'k checker \<Rightarrow> u32 \<Rightarrow> wait_weight \<Rightarrow> u32" where
  "visit_wait c tot w =
     (if provided_delay c \<ge> 1000000 * uint (wait_sec w) then tot + ucast (ww_weight w) else tot)"

definition visit_key :: "'k checker \<Rightarrow> u32 \<Rightarrow> 'k key_weight \<Rightarrow> check_state \<Rightarrow> u32 \<times> check_state" where
  "visit_key c tot k st =
     (let i = find_index (kw_key k) (provided_keys c)
      in if i < length (provided_keys c)
         then (tot + ucast (kw_weight k), st\<lparr>used_keys := (used_keys st)[i := True]\<rparr>)
         else (tot, st))"

lemma unat_next_depth: "depth < (limit :: u16) \<Longrightarrow> unat (depth + 1) = Suc (unat depth)"
proof -
  assume "depth < limit"
  then have "unat depth < unat limit" by (simp add: word_less_nat_alt)
  moreover have "unat limit < 2 ^ 16" using unsigned_less [of limit, where ?'a = nat] by simp
  ultimately show ?thesis by (simp add: unat_word_ariths)
qed

function (sequential)
  visit_account :: "'k checker \<Rightarrow> u16 \<Rightarrow> u32 \<Rightarrow> permission_level_weight \<Rightarrow> check_state \<Rightarrow> (u32 \<times> check_state) res"
  and tally :: "'k checker \<Rightarrow> u16 \<Rightarrow> u32 \<Rightarrow> u32 \<Rightarrow> 'k meta_permission list \<Rightarrow> check_state \<Rightarrow> (bool \<times> check_state) res"
  and satisfied_authority :: "'k checker \<Rightarrow> u16 \<Rightarrow> 'k authority \<Rightarrow> check_state \<Rightarrow> (bool \<times> check_state) res"
where
  "visit_account c depth tot w st =
     (let p = plw_permission w
      in case permission_status_in_cache (cached_permissions st) p of
           None \<Rightarrow>
             if depth < recursion_depth_limit c
             then (case permission_to_authority c p of
                     Inl e \<Rightarrow> if e = permission_query_exception then Inr (tot, st) else Inl e
                   | Inr auth \<Rightarrow>
                       bind_res
                         (satisfied_authority c (depth + 1) auth
                           (st\<lparr>cached_permissions := (cached_permissions st)(p \<mapsto> being_evaluated)\<rparr>))
                         (\<lambda>rs. let st' = snd rs
                               in if fst rs
                                  then Inr (tot + ucast (plw_weight w),
                                    st'\<lparr>cached_permissions := (cached_permissions st')(p \<mapsto> permission_satisfied)\<rparr>)
                                  else Inr (tot,
                                    st'\<lparr>cached_permissions := (cached_permissions st')(p \<mapsto> permission_unsatisfied)\<rparr>)))
             else Inr (tot, st)
         | Some s \<Rightarrow> Inr (if s = permission_satisfied then tot + ucast (plw_weight w) else tot, st))"
| "tally c depth thr tot [] st = Inr (False, st)"
| "tally c depth thr tot (p # ps) st =
     bind_res
       (case p of
          MP_wait w \<Rightarrow> Inr (visit_wait c tot w, st)
        | MP_key k \<Rightarrow> Inr (visit_key c tot k st)
        | MP_account w \<Rightarrow> visit_account c depth tot w st)
       (\<lambda>ts. if fst ts \<ge> thr then Inr (True, snd ts) else tally c depth thr (fst ts) ps (snd ts))"
| "satisfied_authority c depth auth st =
     bind_res (tally c depth (threshold auth) 0 (meta_permissions auth) st)
       (\<lambda>rs. if fst rs then Inr (True, snd rs)
             else Inr (False, (snd rs)\<lparr>used_keys := used_keys st\<rparr>))"
  by pat_completeness auto

termination
proof (relation "measures
    [case_sum (\<lambda>(c, depth, tot, w, st). unat (recursion_depth_limit c) - unat depth)
       (case_sum (\<lambda>(c, depth, thr, tot, ps, st). unat (recursion_depth_limit c) - unat depth)
         (\<lambda>(c, depth, auth, st). unat (recursion_depth_limit c) - unat depth)),
     case_sum (\<lambda>(c, depth, tot, w, st). 0)
       (case_sum (\<lambda>(c, depth, thr, tot, ps, st). Suc (length ps))
         (\<lambda>(c, depth, auth, st). Suc (Suc (length (meta_permissions auth)))))]", goal_cases)
  case (2 c depth tot w st p auth)
  then show ?case
    using unat_next_depth [of depth "recursion_depth_limit c"] by (simp add: word_less_nat_alt diff_less_mono2)
qed auto

declare visit_account.simps [simp del] satisfied_authority.simps [simp del]

section \<open>The public calls\<close>

text \<open>
  Each public call starts from a fresh cache of the provided permissions; the marks of used keys
  carry over from call to call.
\<close>

definition satisfied_permission :: "'k checker \<Rightarrow> permission_level \<Rightarrow> bool list \<Rightarrow> (bool \<times> bool list) res" where
  "satisfied_permission c p used =
     bind_res (visit_account c 0 0 \<lparr>plw_permission = p, plw_weight = 1\<rparr>
                 \<lparr>used_keys = used, cached_permissions = initialize_permission_cache c\<rparr>)
       (\<lambda>ts. Inr (fst ts > 0, used_keys (snd ts)))"

definition satisfied_auth :: "'k checker \<Rightarrow> 'k authority \<Rightarrow> bool list \<Rightarrow> (bool \<times> bool list) res" where
  "satisfied_auth c auth used =
     bind_res (satisfied_authority c 0 auth
                 \<lparr>used_keys = used, cached_permissions = initialize_permission_cache c\<rparr>)
       (\<lambda>rs. Inr (fst rs, used_keys (snd rs)))"

text \<open>The overloads that replace the provided delay for the duration of the call.\<close>

definition satisfied_permission_delay ::
    "'k checker \<Rightarrow> permission_level \<Rightarrow> int \<Rightarrow> bool list \<Rightarrow> (bool \<times> bool list) res" where
  "satisfied_permission_delay c p override_provided_delay used =
     satisfied_permission (c\<lparr>provided_delay := override_provided_delay\<rparr>) p used"

definition satisfied_auth_delay ::
    "'k checker \<Rightarrow> 'k authority \<Rightarrow> int \<Rightarrow> bool list \<Rightarrow> (bool \<times> bool list) res" where
  "satisfied_auth_delay c auth override_provided_delay used =
     satisfied_auth (c\<lparr>provided_delay := override_provided_delay\<rparr>) auth used"

definition initial_used_keys :: "'k checker \<Rightarrow> bool list" where
  "initial_used_keys c = replicate (length (provided_keys c)) False"

definition all_keys_used :: "bool list \<Rightarrow> bool" where
  "all_keys_used used \<longleftrightarrow> list_all (\<lambda>b. b = True) used"

definition filter_data_by_marker :: "'d list \<Rightarrow> 'm list \<Rightarrow> 'm \<Rightarrow> 'd list" where
  "filter_data_by_marker data markers marker = map snd (filter (\<lambda>t. fst t = marker) (zip markers data))"

definition get_used_keys :: "'k checker \<Rightarrow> bool list \<Rightarrow> 'k list" where
  "get_used_keys c used = filter_data_by_marker (provided_keys c) used True"

definition get_unused_keys :: "'k checker \<Rightarrow> bool list \<Rightarrow> 'k list" where
  "get_unused_keys c used = filter_data_by_marker (provided_keys c) used False"

end
