(* ===== verification/Authority_Decides.thy ===== *)
theory Authority_Decides
  imports Authority_Checker
begin

text \<open>
  What the authority checker decides.  An inductive definition says when an authority is
  satisfied; the checker only accepts satisfied authorities, and it accepts all of them when the
  permissions it follows form no cycle and fit into the depth limit.
\<close>

section \<open>Satisfied authorities\<close>

definition auth_entries :: "'k authority \<Rightarrow> 'k meta_permission multiset" where
  "auth_entries a =
     mset (map MP_wait (auth_waits a) @ map MP_key (auth_keys a) @ map MP_account (auth_accounts a))"

definition weight_sum :: "'k meta_permission multiset \<Rightarrow> nat" where
  "weight_sum es = (\<Sum>e\<in>#es. unat (mp_weight e))"

inductive perm_ok and auth_ok and entry_ok for c :: "'k checker" where
  perm_provided:
    "p \<in> set (provided_permissions c) \<or> permission_level (actor p) 0 \<in> set (provided_permissions c) \<Longrightarrow> perm_ok c p"
| perm_authority: "permission_to_authority c p = Inr a \<Longrightarrow> auth_ok c a \<Longrightarrow> perm_ok c p"
| auth_weights:
    "es \<subseteq># auth_entries a \<Longrightarrow> \<forall>e. e \<in># es \<longrightarrow> entry_ok c e \<Longrightarrow> unat (threshold a) \<le> weight_sum es \<Longrightarrow> auth_ok c a"
| entry_wait: "1000000 * uint (wait_sec w) \<le> provided_delay c \<Longrightarrow> entry_ok c (MP_wait w)"
| entry_key: "kw_key k \<in> set (provided_keys c) \<Longrightarrow> entry_ok c (MP_key k)"
| entry_account: "perm_ok c (plw_permission w) \<Longrightarrow> entry_ok c (MP_account w)"

inductive_simps entry_ok_simps:
  "entry_ok c (MP_wait w)" "entry_ok c (MP_key k)" "entry_ok c (MP_account w)"

inductive_cases auth_okE: "auth_ok c a"
inductive_cases perm_okE: "perm_ok c p"

lemma weight_sum_add [simp]: "weight_sum (add_mset e es) = unat (mp_weight e) + weight_sum es"
  and weight_sum_empty [simp]: "weight_sum {#} = 0"
  by (simp_all add: weight_sum_def)

lemma find_index_less_iff: "find_index k ks < length ks \<longleftrightarrow> k \<in> set ks"
  by (induction ks) auto

lemma nth_find_index: "k \<in> set ks \<Longrightarrow> ks ! find_index k ks = k"
  by (induction ks) auto

section \<open>The checker accepts only satisfied authorities\<close>

text \<open>No authority is stored under the empty permission name, which stands for any permission.\<close>

definition no_empty_permission :: "'k checker \<Rightarrow> bool" where
  "no_empty_permission c \<longleftrightarrow> (\<forall>a auth. permission_to_authority c (permission_level a 0) \<noteq> Inr auth)"

definition cache_sound :: "'k checker \<Rightarrow> permission_cache \<Rightarrow> bool" where
  "cache_sound c m \<longleftrightarrow> (\<forall>p. m p = Some permission_satisfied \<longrightarrow> perm_ok c p) \<and>
     (\<forall>a s. m (permission_level a 0) = Some s \<longrightarrow> permission_level a 0 \<in> set (provided_permissions c))"

lemma cache_sound_init: "cache_sound c (initialize_permission_cache c)"
  by (auto simp: cache_sound_def initialize_permission_cache_def dest!: map_of_SomeD intro: perm_provided)

lemma cache_sound_status:
  "cache_sound c m \<Longrightarrow> permission_status_in_cache m p = Some permission_satisfied \<Longrightarrow> perm_ok c p"
  by (auto simp: cache_sound_def permission_status_in_cache_def split: option.splits intro: perm_provided)

lemma cache_sound_update:
  assumes "cache_sound c m" and "permission_to_authority c p = Inr auth" and "no_empty_permission c"
    and "s = permission_satisfied \<longrightarrow> perm_ok c p"
  shows "cache_sound c (m(p \<mapsto> s))"
proof -
  have "p \<noteq> permission_level a 0" for a
    using assms(2,3) by (auto simp: no_empty_permission_def)
  with assms show ?thesis by (auto simp: cache_sound_def)
qed

lemma add_weight_bound: "unat (tot + mp_weight e) \<le> unat tot + unat (mp_weight e)"
  by (simp add: unat_word_ariths)

lemma checker_sound:
  fixes c :: "'k checker"
  assumes "no_empty_permission c"
  shows "visit_account c d tot w st = Inr (tot', st') \<Longrightarrow> cache_sound c (cached_permissions st) \<Longrightarrow>
      cache_sound c (cached_permissions st') \<and>
      (tot' = tot \<or> tot' = tot + mp_weight (MP_account w :: 'k meta_permission) \<and> perm_ok c (plw_permission w))"
    and "tally c d thr tot ps st = Inr (r, st') \<Longrightarrow> cache_sound c (cached_permissions st) \<Longrightarrow>
      cache_sound c (cached_permissions st') \<and>
      (r \<longrightarrow> (\<exists>es. es \<subseteq># mset ps \<and> (\<forall>e. e \<in># es \<longrightarrow> entry_ok c e) \<and> unat thr \<le> unat tot + weight_sum es))"
    and "satisfied_authority c d a st = Inr (r, st') \<Longrightarrow> cache_sound c (cached_permissions st) \<Longrightarrow>
      cache_sound c (cached_permissions st') \<and> (r \<longrightarrow> auth_ok c a)"
  using assms
proof (induction c d tot w st and c d thr tot ps st and c d a st
    arbitrary: tot' st' and r st' and r st' rule: visit_account_tally_satisfied_authority.induct)
  case (1 c d tot w st)
  let ?p = "plw_permission w"
  show ?case
  proof (cases "permission_status_in_cache (cached_permissions st) ?p")
    case (Some s)
    then show ?thesis
      using 1(2,3) cache_sound_status [of c "cached_permissions st" ?p]
      by (auto simp: visit_account.simps Let_def split: if_splits)
  next
    case None
    show ?thesis
    proof (cases "d < recursion_depth_limit c")
      case False
      then show ?thesis using 1(2,3) None by (simp add: visit_account.simps Let_def)
    next
      case True
      show ?thesis
      proof (cases "permission_to_authority c ?p")
        case (Inl e)
        then show ?thesis
          using 1(2,3) None True by (auto simp: visit_account.simps Let_def split: if_splits)
      next
        case (Inr auth)
        let ?st = "st\<lparr>cached_permissions := (cached_permissions st)(?p \<mapsto> being_evaluated)\<rparr>"
        obtain r st1 where r: "satisfied_authority c (d + 1) auth ?st = Inr (r, st1)"
          using 1(2) None True Inr by (cases "satisfied_authority c (d + 1) auth ?st") (auto simp: visit_account.simps Let_def)
        have st': "tot' = (if r then tot + ucast (plw_weight w) else tot)"
            "cached_permissions st' = (cached_permissions st1)(?p \<mapsto> if r then permission_satisfied else permission_unsatisfied)"
          using 1(2) None True Inr r by (auto simp: visit_account.simps Let_def)
        have "cache_sound c (cached_permissions ?st)"
          using cache_sound_update [OF 1(3) Inr 1(4)] by simp
        from 1(1) [OF refl None True Inr r this 1(4)]
        have s: "cache_sound c (cached_permissions st1)" "r \<longrightarrow> auth_ok c auth" by auto
        then have ok: "r \<longrightarrow> perm_ok c ?p" using Inr by (auto intro: perm_authority)
        then have "cache_sound c (cached_permissions st')"
          unfolding st'(2) by (intro cache_sound_update [OF s(1) Inr 1(4)]) simp
        with ok st'(1) show ?thesis by auto
      qed
    qed
  qed
next
  case (2 c d thr tot st)
  then show ?case by auto
next
  case (3 c d thr tot p ps st)
  obtain t1 st1 where v: "(case p of MP_wait w \<Rightarrow> Inr (visit_wait c tot w, st)
        | MP_key k \<Rightarrow> Inr (visit_key c tot k st)
        | MP_account w \<Rightarrow> visit_account c d tot w st) = Inr (t1, st1)"
    and rest: "if t1 \<ge> thr then r \<and> st' = st1 else tally c d thr t1 ps st1 = Inr (r, st')"
    using 3(3) by (auto split: if_splits)
  have one: "cache_sound c (cached_permissions st1) \<and> (t1 = tot \<or> t1 = tot + mp_weight p \<and> entry_ok c p)"
    using v 3(1) [of _ t1 st1] 3(4,5)
    by (cases p) (auto simp: visit_wait_def visit_key_def Let_def find_index_less_iff entry_ok_simps split: if_splits)
  define us where "us = (if t1 = tot then {#} else {#p#})"
  have us: "us \<subseteq># {#p#}" "\<forall>e. e \<in># us \<longrightarrow> entry_ok c e" "unat t1 \<le> unat tot + weight_sum us"
    using one add_weight_bound [of tot p] by (auto simp: us_def)
  show ?case
  proof (cases "t1 \<ge> thr")
    case True
    have "us \<subseteq># mset (p # ps)" using us(1) by (simp add: us_def)
    moreover have "unat thr \<le> unat tot + weight_sum us"
      using True us(3) by (simp add: word_le_nat_alt)
    ultimately show ?thesis using True rest one us(2) by auto
  next
    case False
    with rest have t: "tally c d thr t1 ps st1 = Inr (r, st')" by simp
    from 3(2) [OF v _ _ _ 3(5), of r st'] False t one
    have ih: "cache_sound c (cached_permissions st')"
      "r \<longrightarrow> (\<exists>es. es \<subseteq># mset ps \<and> (\<forall>e. e \<in># es \<longrightarrow> entry_ok c e) \<and> unat thr \<le> unat t1 + weight_sum es)"
      by auto
    {
      assume r
      then obtain es where es: "es \<subseteq># mset ps" "\<forall>e. e \<in># es \<longrightarrow> entry_ok c e" "unat thr \<le> unat t1 + weight_sum es"
        using ih(2) by blast
      have "us + es \<subseteq># mset (p # ps)"
        using subset_mset.add_mono [OF us(1) es(1)] by simp
      moreover have "unat thr \<le> unat tot + weight_sum (us + es)"
        using es(3) us(3) by (simp add: weight_sum_def)
      ultimately have "\<exists>es. es \<subseteq># mset (p # ps) \<and> (\<forall>e. e \<in># es \<longrightarrow> entry_ok c e) \<and> unat thr \<le> unat tot + weight_sum es"
        using es(2) us(2) by (intro exI [of _ "us + es"]) auto
    }
    with ih(1) show ?thesis by blast
  qed
next
  case (4 c d auth st)
  obtain st1 where t: "tally c d (threshold auth) 0 (meta_permissions auth) st = Inr (r, st1)"
    and c: "cached_permissions st' = cached_permissions st1"
    using 4(2) by (auto simp: satisfied_authority.simps split: if_splits)
  have "mset (meta_permissions auth) = auth_entries auth"
    by (simp only: mset_meta_permissions auth_entries_def)
  with 4(1) [OF t 4(3,4)] c show ?case by (auto intro: auth_weights)
qed

section \<open>Used keys\<close>

definition marks_grow :: "bool list \<Rightarrow> bool list \<Rightarrow> bool" where
  "marks_grow us vs \<longleftrightarrow> length us = length vs \<and> (\<forall>i < length us. us ! i \<longrightarrow> vs ! i)"

lemma marks_grow_refl [simp]: "marks_grow us us"
  and marks_grow_trans: "marks_grow us vs \<Longrightarrow> marks_grow vs ws \<Longrightarrow> marks_grow us ws"
  and marks_grow_update: "marks_grow us (us[i := True])"
  by (auto simp: marks_grow_def) (metis nth_list_update_eq nth_list_update_neq)

lemma checker_marks:
  fixes c :: "'k checker"
  shows "visit_account c d tot w st = Inr (tot', st') \<Longrightarrow>
      marks_grow (used_keys st) (used_keys st') \<and> (tot' = tot \<or> tot' = tot + ucast (plw_weight w)) \<and>
      (tot' = tot \<and> plw_weight w \<noteq> 0 \<longrightarrow> used_keys st' = used_keys st)"
    and "tally c d thr tot ps st = Inr (r, st') \<Longrightarrow> marks_grow (used_keys st) (used_keys st')"
    and "satisfied_authority c d a st = Inr (r, st') \<Longrightarrow>
      marks_grow (used_keys st) (used_keys st') \<and> (\<not> r \<longrightarrow> used_keys st' = used_keys st)"
proof (induction c d tot w st and c d thr tot ps st and c d a st
    arbitrary: tot' st' and r st' and r st' rule: visit_account_tally_satisfied_authority.induct)
  case (1 c d tot w st)
  have up: "unat (ucast (plw_weight w) :: u32) = unat (plw_weight w)" by (rule unat_ucast_up) simp
  have nz: "(ucast (plw_weight w) :: u32) = 0 \<Longrightarrow> plw_weight w = 0"
    using up by (simp only:) (simp add: unat_eq_0)
  let ?p = "plw_permission w"
  let ?st = "st\<lparr>cached_permissions := (cached_permissions st)(?p \<mapsto> being_evaluated)\<rparr>"
  show ?case
  proof (cases "permission_status_in_cache (cached_permissions st) ?p = None \<and> d < recursion_depth_limit c \<and>
      (\<exists>auth. permission_to_authority c ?p = Inr auth)")
    case True
    then obtain auth where none: "permission_status_in_cache (cached_permissions st) ?p = None"
      and d: "d < recursion_depth_limit c" and auth: "permission_to_authority c ?p = Inr auth" by blast
    obtain r st1 where r: "satisfied_authority c (d + 1) auth ?st = Inr (r, st1)"
      using 1(2) none d auth by (cases "satisfied_authority c (d + 1) auth ?st") (auto simp: visit_account.simps Let_def)
    have "tot' = (if r then tot + ucast (plw_weight w) else tot)" "used_keys st' = used_keys st1"
      using 1(2) none d auth r by (auto simp: visit_account.simps Let_def split: if_splits)
    with 1(1) [OF refl none d auth r] nz show ?thesis by auto
  next
    case False
    then show ?thesis
      using 1(2) by (auto simp: visit_account.simps Let_def split: if_splits option.splits sum.splits)
  qed
next
  case (3 c d thr tot p ps st)
  obtain t1 st1 where v: "(case p of MP_wait w \<Rightarrow> Inr (visit_wait c tot w, st)
        | MP_key k \<Rightarrow> Inr (visit_key c tot k st)
        | MP_account w \<Rightarrow> visit_account c d tot w st) = Inr (t1, st1)"
    and rest: "if t1 \<ge> thr then r \<and> st' = st1 else tally c d thr t1 ps st1 = Inr (r, st')"
    using 3(3) by (auto split: if_splits)
  have one: "marks_grow (used_keys st) (used_keys st1)"
    using v 3(1) [of _ t1 st1]
    by (cases p) (auto simp: visit_wait_def visit_key_def Let_def marks_grow_update split: if_splits)
  show ?case
  proof (cases "t1 \<ge> thr")
    case False
    with rest 3(2) [OF v, of r st'] one show ?thesis by (auto intro: marks_grow_trans)
  qed (use rest one in auto)
next
  case (4 c d auth st)
  then show ?case by (auto simp: satisfied_authority.simps split: if_splits)
qed simp_all

lemma visit_account_nonzero:
  assumes "visit_account c 0 0 \<lparr>plw_permission = p, plw_weight = 1\<rparr> st = Inr (tot', st')"
  shows "tot' = 0 \<or> tot' = 1"
  using checker_marks(1) [OF assms] by auto

lemma satisfied_permission_ok:
  assumes "no_empty_permission c" and "satisfied_permission c p used = Inr (r, used')"
  shows "(r \<longrightarrow> perm_ok c p) \<and> marks_grow used used' \<and> (\<not> r \<longrightarrow> used' = used)"
proof -
  let ?w = "\<lparr>plw_permission = p, plw_weight = 1\<rparr>"
  let ?st = "\<lparr>used_keys = used, cached_permissions = initialize_permission_cache c\<rparr>"
  obtain tot st' where v: "visit_account c 0 0 ?w ?st = Inr (tot, st')"
    and r: "r = (tot > 0)" "used' = used_keys st'"
    using assms(2) by (auto simp: satisfied_permission_def)
  from checker_sound(1) [OF assms(1) v] cache_sound_init checker_marks(1) [OF v] show ?thesis
    by (auto simp: r word_gt_0)
qed

text \<open>
  C12 (safety). A permission that the checker reports satisfied is satisfied by the provided keys,
  permissions and delay, through authorities whose satisfied entries reach their thresholds; marks of used keys
  are only added, and none is added when the permission is reported unsatisfied.
\<close>

theorem satisfied_permission_sound:
  assumes "no_empty_permission c" and "satisfied_permission c p used = Inr (r, used')"
  shows "(r \<longrightarrow> perm_ok c p) \<and> marks_grow used used' \<and> (\<not> r \<longrightarrow> used' = used)"
  using assms by (rule satisfied_permission_ok)

section \<open>The checker decides\<close>

text \<open>
  The permissions reachable from an authority are ranked: an authority only refers to
  permissions of lower rank, with names that are not empty.  Lookups of such permissions either
  give a sized authority or report that the permission does not exist.
\<close>

definition named :: "permission_level \<Rightarrow> bool" where
  "named p \<longleftrightarrow> actor p \<noteq> 0 \<and> permission p \<noteq> 0"

definition ranked :: "'k checker \<Rightarrow> (permission_level \<Rightarrow> nat) \<Rightarrow> bool" where
  "ranked c rank \<longleftrightarrow> (\<forall>p a w. permission_to_authority c p = Inr a \<and> w \<in> set (auth_accounts a) \<longrightarrow>
     rank (plw_permission w) < rank p \<and> named (plw_permission w))"

definition auth_sized :: "'k authority \<Rightarrow> bool" where
  "auth_sized a \<longleftrightarrow> 0 < threshold a \<and> size (auth_entries a) \<le> 2 ^ 16"

definition lookups_ok :: "'k checker \<Rightarrow> bool" where
  "lookups_ok c \<longleftrightarrow> no_empty_permission c \<and>
     (\<forall>p. case permission_to_authority c p of Inl e \<Rightarrow> named p \<longrightarrow> e = permission_query_exception | Inr a \<Rightarrow> auth_sized a)"

lemma auth_ok_iff:
  "auth_ok c a \<longleftrightarrow> unat (threshold a) \<le> weight_sum (filter_mset (entry_ok c) (auth_entries a))"
proof
  assume "auth_ok c a"
  then obtain es where es: "es \<subseteq># auth_entries a" "\<forall>e. e \<in># es \<longrightarrow> entry_ok c e" "unat (threshold a) \<le> weight_sum es"
    by (rule auth_okE)
  have "filter_mset (entry_ok c) es = es" using es(2) by (simp add: filter_mset_eq_conv)
  with es(1) have "es \<subseteq># filter_mset (entry_ok c) (auth_entries a)"
    by (metis multiset_filter_mono)
  then have "weight_sum es \<le> weight_sum (filter_mset (entry_ok c) (auth_entries a))"
    unfolding weight_sum_def by (metis image_mset_subseteq_mono sum_mset.union le_add1 subset_mset.le_iff_add)
  with es(3) show "unat (threshold a) \<le> weight_sum (filter_mset (entry_ok c) (auth_entries a))" by linarith
next
  assume "unat (threshold a) \<le> weight_sum (filter_mset (entry_ok c) (auth_entries a))"
  then show "auth_ok c a"
    by (intro auth_weights [of "filter_mset (entry_ok c) (auth_entries a)"]) auto
qed

lemma perm_ok_iff:
  "perm_ok c p \<longleftrightarrow> p \<in> set (provided_permissions c) \<or> permission_level (actor p) 0 \<in> set (provided_permissions c) \<or>
     (\<exists>a. permission_to_authority c p = Inr a \<and> auth_ok c a)"
  by (auto intro: perm_provided perm_authority elim: perm_okE)

text \<open>The cache holds the truth about every permission that is not being evaluated.\<close>

definition cache_exact :: "'k checker \<Rightarrow> permission_cache \<Rightarrow> bool" where
  "cache_exact c m \<longleftrightarrow>
     (\<forall>p s. m p = Some s \<longrightarrow> (s = permission_satisfied \<longrightarrow> perm_ok c p) \<and> (s = permission_unsatisfied \<longrightarrow> \<not> perm_ok c p)) \<and>
     (\<forall>a s. m (permission_level a 0) = Some s \<longrightarrow> permission_level a 0 \<in> set (provided_permissions c)) \<and>
     (\<forall>p \<in> set (provided_permissions c). m p = Some permission_satisfied)"

definition evaluated :: "permission_cache \<Rightarrow> permission_level set" where
  "evaluated m = {p. m p = Some being_evaluated}"

lemma initialize_permission_cache_eq:
  "initialize_permission_cache c p = (if p \<in> set (provided_permissions c) then Some permission_satisfied else None)"
  by (simp add: initialize_permission_cache_def map_of_map_restrict restrict_map_def)

lemma cache_exact_init: "cache_exact c (initialize_permission_cache c)"
  by (auto simp: cache_exact_def initialize_permission_cache_eq intro: perm_provided split: if_splits)

lemma evaluated_init [simp]: "evaluated (initialize_permission_cache c) = {}"
  by (auto simp: evaluated_def initialize_permission_cache_eq split: if_splits)

lemma cache_exact_update:
  assumes "cache_exact c m" and "permission_to_authority c p = Inr auth" and "no_empty_permission c"
    and "p \<notin> set (provided_permissions c)"
    and "s = permission_satisfied \<longrightarrow> perm_ok c p" and "s = permission_unsatisfied \<longrightarrow> \<not> perm_ok c p"
  shows "cache_exact c (m(p \<mapsto> s))"
proof -
  have "p \<noteq> permission_level a 0" for a
    using assms(2,3) by (auto simp: no_empty_permission_def)
  with assms show ?thesis by (auto simp: cache_exact_def)
qed

lemma cache_status_exact:
  assumes "cache_exact c m" and "p \<notin> evaluated m"
  shows "case permission_status_in_cache m p of
      Some s \<Rightarrow> s = permission_satisfied \<longleftrightarrow> perm_ok c p
    | None \<Rightarrow> p \<notin> set (provided_permissions c) \<and> permission_level (actor p) 0 \<notin> set (provided_permissions c)"
proof (cases "m p")
  case None
  show ?thesis
  proof (cases "m (permission_level (actor p) 0)")
    case (Some s)
    then have "permission_level (actor p) 0 \<in> set (provided_permissions c)"
      using assms(1) by (auto simp: cache_exact_def)
    moreover from this have "s = permission_satisfied" using assms(1) Some by (auto simp: cache_exact_def)
    ultimately show ?thesis using None Some by (simp add: permission_status_in_cache_def perm_ok_iff)
  qed (use None assms(1) in \<open>auto simp: permission_status_in_cache_def cache_exact_def\<close>)
next
  case (Some s)
  then show ?thesis
    using assms by (cases s) (auto simp: permission_status_in_cache_def cache_exact_def evaluated_def)
qed

definition account_ranks_below :: "(permission_level \<Rightarrow> nat) \<Rightarrow> nat \<Rightarrow> 'k meta_permission multiset \<Rightarrow> bool" where
  "account_ranks_below rank n es \<longleftrightarrow>
     (\<forall>w. MP_account w \<in># es \<longrightarrow> rank (plw_permission w) < n \<and> named (plw_permission w))"

lemma mp_weight_bound: "unat (mp_weight e) \<le> 65535"
proof -
  have "unat (ucast (x :: u16) :: u32) \<le> 65535" for x
    using unsigned_less [of x, where ?'a = nat] unat_ucast_up [of x, where ?'b = 32] by simp
  then show ?thesis by (cases e) auto
qed

lemma weight_sum_bound: "weight_sum es \<le> size es * 65535"
proof (induction es)
  case (add e es)
  then show ?case using mp_weight_bound [of e] by simp
qed simp

lemma checker_exact:
  fixes c :: "'k checker"
  assumes "lookups_ok c" and "ranked c rank"
  shows "cache_exact c (cached_permissions st) \<Longrightarrow> \<forall>q \<in> evaluated (cached_permissions st). n \<le> rank q \<Longrightarrow>
      n + unat d \<le> unat (recursion_depth_limit c) \<Longrightarrow> rank (plw_permission w) < n \<Longrightarrow> named (plw_permission w) \<Longrightarrow>
      \<exists>st'. visit_account c d tot w st =
          Inr (if perm_ok c (plw_permission w) then tot + ucast (plw_weight w) else tot, st') \<and>
        cache_exact c (cached_permissions st') \<and>
        evaluated (cached_permissions st') = evaluated (cached_permissions st)"
    and "cache_exact c (cached_permissions st) \<Longrightarrow> \<forall>q \<in> evaluated (cached_permissions st). n \<le> rank q \<Longrightarrow>
      n + unat d \<le> unat (recursion_depth_limit c) \<Longrightarrow> account_ranks_below rank n (mset ps) \<Longrightarrow>
      tot < thr \<Longrightarrow> unat tot + weight_sum (mset ps) < 2 ^ 32 \<Longrightarrow>
      \<exists>st'. tally c d thr tot ps st =
          Inr (unat thr \<le> unat tot + weight_sum (filter_mset (entry_ok c) (mset ps)), st') \<and>
        cache_exact c (cached_permissions st') \<and>
        evaluated (cached_permissions st') = evaluated (cached_permissions st)"
    and "cache_exact c (cached_permissions st) \<Longrightarrow> \<forall>q \<in> evaluated (cached_permissions st). n \<le> rank q \<Longrightarrow>
      n + unat d \<le> unat (recursion_depth_limit c) \<Longrightarrow> account_ranks_below rank n (auth_entries a) \<Longrightarrow>
      auth_sized a \<Longrightarrow>
      \<exists>st'. satisfied_authority c d a st = Inr (auth_ok c a, st') \<and>
        cache_exact c (cached_permissions st') \<and>
        evaluated (cached_permissions st') = evaluated (cached_permissions st)"
  using assms
proof (induction c d tot w st and c d thr tot ps st and c d a st
    arbitrary: n and n and n rule: visit_account_tally_satisfied_authority.induct)
  case (1 c d tot w st)
  let ?p = "plw_permission w" and ?m = "cached_permissions st"
  have nev: "?p \<notin> evaluated ?m" using 1(3,5) by force
  note status = cache_status_exact [OF 1(2) nev]
  show ?case
  proof (cases "permission_status_in_cache ?m ?p")
    case (Some s)
    with status 1(2) show ?thesis by (simp add: visit_account.simps Let_def)
  next
    case None
    have d: "d < recursion_depth_limit c" using 1(4,5) by (simp add: word_less_nat_alt)
    show ?thesis
    proof (cases "permission_to_authority c ?p")
      case (Inl e)
      then have "\<not> perm_ok c ?p" using status None by (simp add: perm_ok_iff)
      moreover have "e = permission_query_exception" using 1(6,7) Inl by (force simp: lookups_ok_def split: sum.splits)
      ultimately show ?thesis using None d Inl 1(2) by (simp add: visit_account.simps Let_def)
    next
      case (Inr auth)
      let ?st = "st\<lparr>cached_permissions := ?m(?p \<mapsto> being_evaluated)\<rparr>"
      have ne: "no_empty_permission c" "auth_sized auth"
        using 1(7) Inr by (auto simp: lookups_ok_def dest!: spec [of _ ?p])
      have prov: "?p \<notin> set (provided_permissions c)" using status None by simp
      have ok: "perm_ok c ?p \<longleftrightarrow> auth_ok c auth" using status None Inr by (simp add: perm_ok_iff)
      have ex: "cache_exact c (cached_permissions ?st)"
        using cache_exact_update [OF 1(2) Inr ne(1) prov] by simp
      have ev: "evaluated (cached_permissions ?st) = insert ?p (evaluated ?m)"
        by (auto simp: evaluated_def)
      have sub: "account_ranks_below rank (rank ?p) (auth_entries auth)"
          "\<forall>q \<in> evaluated (cached_permissions ?st). rank ?p \<le> rank q"
          "rank ?p + unat (d + 1) \<le> unat (recursion_depth_limit c)"
        using 1(3-5,8) Inr unat_next_depth [OF d] unfolding ev
        by (auto simp: account_ranks_below_def ranked_def auth_entries_def)
      obtain st1 where st1: "satisfied_authority c (d + 1) auth ?st = Inr (auth_ok c auth, st1)"
          "cache_exact c (cached_permissions st1)"
          "evaluated (cached_permissions st1) = evaluated (cached_permissions ?st)"
        using 1(1) [OF refl None d Inr ex, of "rank ?p"] sub 1(7,8) ne(2) by blast
      let ?s = "if auth_ok c auth then permission_satisfied else permission_unsatisfied"
      let ?st' = "st1\<lparr>cached_permissions := (cached_permissions st1)(?p \<mapsto> ?s)\<rparr>"
      have "cache_exact c (cached_permissions ?st')"
        using cache_exact_update [OF st1(2) Inr ne(1) prov, of ?s] by (simp add: ok)
      moreover have "evaluated (cached_permissions ?st') = evaluated (cached_permissions st1) - {?p}"
        by (auto simp: evaluated_def)
      then have "evaluated (cached_permissions ?st') = evaluated ?m" unfolding st1(3) ev using nev by auto
      moreover have "visit_account c d tot w st =
          Inr (if perm_ok c ?p then tot + ucast (plw_weight w) else tot, ?st')"
        using None d Inr st1(1) by (simp add: visit_account.simps Let_def ok)
      ultimately show ?thesis by blast
    qed
  qed
next
  case (2 c d thr tot st)
  then show ?case by (simp add: word_less_nat_alt)
next
  case (3 c d thr tot p ps st)
  have fit: "unat (tot + mp_weight p) = unat tot + unat (mp_weight p)"
    using 3(8) by (intro unat_add_exact) simp
  have vs: "\<exists>t1 st1. (case p of MP_wait w \<Rightarrow> Inr (visit_wait c tot w, st)
        | MP_key k \<Rightarrow> Inr (visit_key c tot k st)
        | MP_account w \<Rightarrow> visit_account c d tot w st) = Inr (t1, st1) \<and>
      t1 = (if entry_ok c p then tot + mp_weight p else tot) \<and> cache_exact c (cached_permissions st1) \<and>
      evaluated (cached_permissions st1) = evaluated (cached_permissions st)"
  proof (cases p)
    case (MP_account w)
    then have "rank (plw_permission w) < n" "named (plw_permission w)" using 3(6) by (simp_all add: account_ranks_below_def)
    from 3(1) [OF MP_account 3(3,4,5) this 3(9,10)] show ?thesis
      by (auto simp: MP_account entry_ok_simps)
  next
    case (MP_key k)
    then show ?thesis using 3(3) by (simp add: visit_key_def Let_def find_index_less_iff entry_ok_simps)
  next
    case (MP_wait w)
    then show ?thesis using 3(3) by (simp add: visit_wait_def entry_ok_simps)
  qed
  then obtain t1 st1 where v: "(case p of MP_wait w \<Rightarrow> Inr (visit_wait c tot w, st)
        | MP_key k \<Rightarrow> Inr (visit_key c tot k st)
        | MP_account w \<Rightarrow> visit_account c d tot w st) = Inr (t1, st1)"
    and t1: "t1 = (if entry_ok c p then tot + mp_weight p else tot)"
    and st1: "cache_exact c (cached_permissions st1)"
      "evaluated (cached_permissions st1) = evaluated (cached_permissions st)" by blast
  have t1': "unat t1 = unat tot + (if entry_ok c p then unat (mp_weight p) else 0)"
    using fit by (simp add: t1)
  show ?case
  proof (cases "t1 \<ge> thr")
    case True
    then show ?thesis using v st1 t1' by (auto simp: word_le_nat_alt)
  next
    case False
    have "account_ranks_below rank n (mset ps)" using 3(6) by (simp add: account_ranks_below_def)
    moreover have "unat t1 + weight_sum (mset ps) < 2 ^ 32" using 3(8) t1' by (simp split: if_splits)
    ultimately obtain st' where "tally c d thr t1 ps st1 =
        Inr (unat thr \<le> unat t1 + weight_sum (filter_mset (entry_ok c) (mset ps)), st')"
      "cache_exact c (cached_permissions st')" "evaluated (cached_permissions st') = evaluated (cached_permissions st1)"
      using 3(2) [OF v, of n] False st1 3(4,5,9,10) by (simp only: fst_conv snd_conv not_le) blast
    then show ?thesis using v False t1' st1 by (auto simp: add.assoc split: if_splits)
  qed
next
  case (4 c d auth st)
  have e: "mset (meta_permissions auth) = auth_entries auth"
    by (simp only: mset_meta_permissions auth_entries_def)
  have "unat (0 :: u32) + weight_sum (mset (meta_permissions auth)) < 2 ^ 32" "0 < threshold auth"
    using weight_sum_bound [of "auth_entries auth"] 4(6) by (simp_all add: e auth_sized_def)
  with 4(1) [OF 4(2-4), unfolded e, OF 4(5)] 4(7,8) obtain st' where
    "tally c d (threshold auth) 0 (meta_permissions auth) st = Inr (auth_ok c auth, st')"
    "cache_exact c (cached_permissions st')" "evaluated (cached_permissions st') = evaluated (cached_permissions st)"
    by (auto simp: auth_ok_iff e)
  then show ?case by (auto simp: satisfied_authority.simps)
qed

text \<open>
  C5 (equivalence). When lookups give sized authorities or report a missing permission, and the permissions refer to each other
  without a cycle and to a depth below the limit, the checker returns without an exception and its
  answer is exactly whether the permission is satisfied.
\<close>

theorem satisfied_permission_decides:
  assumes "lookups_ok c" and "ranked c rank" and "rank p < unat (recursion_depth_limit c)" and "named p"
  shows "\<exists>used'. satisfied_permission c p used = Inr (perm_ok c p, used')"
proof -
  let ?w = "\<lparr>plw_permission = p, plw_weight = 1\<rparr>"
  let ?st = "\<lparr>used_keys = used, cached_permissions = initialize_permission_cache c\<rparr>"
  have "\<exists>st'. visit_account c 0 0 ?w ?st = Inr (if perm_ok c p then 1 else 0, st')"
    using checker_exact(1) [OF assms(1,2), of ?st "unat (recursion_depth_limit c)" 0 ?w 0] assms(3,4)
    by (auto simp: cache_exact_init split: if_splits)
  then show ?thesis by (auto simp: satisfied_permission_def)
qed

section \<open>Witnesses and an observation\<close>

text \<open>
  Three permissions: account 1 needs key 10; account 2 needs account 1 and key 20; account 3 is
  satisfied by either, and lists account 2 with the larger weight.  Key 10 is provided.
\<close>

definition sample_authorities :: "permission_level \<Rightarrow> nat authority res" where
  "sample_authorities p =
     (if permission p \<noteq> 1 then Inl permission_query_exception
      else if actor p = 1 then Inr \<lparr>threshold = 1, auth_keys = [\<lparr>kw_key = 10, kw_weight = 1\<rparr>], auth_accounts = [], auth_waits = []\<rparr>
      else if actor p = 2 then Inr \<lparr>threshold = 2, auth_keys = [\<lparr>kw_key = 20, kw_weight = 1\<rparr>],
        auth_accounts = [\<lparr>plw_permission = permission_level 1 1, plw_weight = 1\<rparr>], auth_waits = []\<rparr>
      else if actor p = 3 then Inr \<lparr>threshold = 1, auth_keys = [],
        auth_accounts = [\<lparr>plw_permission = permission_level 1 1, plw_weight = 1\<rparr>,
                         \<lparr>plw_permission = permission_level 2 1, plw_weight = 2\<rparr>], auth_waits = []\<rparr>
      else Inl permission_query_exception)"

definition sample_checker :: "nat checker" where
  "sample_checker = \<lparr>permission_to_authority = sample_authorities, provided_keys = [10],
     provided_permissions = [], provided_delay = 0, recursion_depth_limit = 6\<rparr>"

lemma sample_lookups_ok: "lookups_ok sample_checker"
  by (auto simp: lookups_ok_def no_empty_permission_def sample_checker_def sample_authorities_def
        auth_sized_def auth_entries_def split: sum.splits if_splits)

lemma sample_ranked: "ranked sample_checker (\<lambda>p. unat (actor p))"
  by (auto simp: ranked_def named_def sample_checker_def sample_authorities_def split: if_splits)

lemma sample_eval:
  "satisfied_permission sample_checker (permission_level 3 1) [False] = Inr (True, [False])"
  by (simp add: satisfied_permission_def visit_account.simps satisfied_authority.simps Let_def
        sample_checker_def sample_authorities_def permission_status_in_cache_def initialize_permission_cache_def
        meta_permissions_def meta_permission_comparator_def visit_key_def
        word_le_nat_alt word_less_nat_alt del: bind_res_Inr_iff EOS_ASSERT_Inr_iff)

text \<open>Visiting an account whose permission is not cached, when the outcome of its authority is known.\<close>

lemma visit_account_fresh:
  assumes "permission_status_in_cache (cached_permissions st) q = None" and "depth < recursion_depth_limit c"
    and "permission_to_authority c q = Inr auth"
    and "satisfied_authority c (depth + 1) auth (st\<lparr>cached_permissions := (cached_permissions st)(q \<mapsto> being_evaluated)\<rparr>) =
      Inr (ok, st')"
  shows "visit_account c depth tot \<lparr>plw_permission = q, plw_weight = w\<rparr> st =
    Inr (if ok then tot + ucast w else tot, st'\<lparr>cached_permissions := (cached_permissions st')(q \<mapsto>
      (if ok then permission_satisfied else permission_unsatisfied))\<rparr>)"
  using assms by (simp add: visit_account.simps)

lemma find_index_less: "find_index k xs < length xs \<longleftrightarrow> k \<in> set xs"
  by (induction xs) auto

lemma one_key_authority:
  assumes "auth = \<lparr>threshold = t, auth_keys = [\<lparr>kw_key = k, kw_weight = w\<rparr>], auth_accounts = [], auth_waits = []\<rparr>"
    and "0 < t" and "t \<le> ucast w"
  shows "satisfied_authority c depth auth st =
    Inr (k \<in> set (provided_keys c),
      if k \<in> set (provided_keys c) then st\<lparr>used_keys := (used_keys st)[find_index k (provided_keys c) := True]\<rparr> else st)"
  using assms
  by (auto simp: satisfied_authority.simps meta_permissions_def visit_key_def Let_def find_index_less not_le)

text \<open>An authority that needs the permission \<open>a\<close> and a key that is not provided keeps no mark, but \<open>a\<close> stays cached.\<close>

lemma failing_authority:
  assumes "auth = \<lparr>threshold = t, auth_keys = [\<lparr>kw_key = k, kw_weight = w\<rparr>],
      auth_accounts = [\<lparr>plw_permission = a, plw_weight = v\<rparr>], auth_waits = []\<rparr>"
    and "k \<notin> set (provided_keys c)" and "ucast v < t"
    and visit: "visit_account c depth 0 \<lparr>plw_permission = a, plw_weight = v\<rparr> st = Inr (if ok then ucast v else 0, st')"
  shows "satisfied_authority c depth auth st = Inr (False, st'\<lparr>used_keys := used_keys st\<rparr>)"
proof -
  have t: "\<not> t \<le> 0" "\<not> t \<le> ucast v" using assms(3) by (auto simp: not_le)
  let ?a = "MP_account \<lparr>plw_permission = a, plw_weight = v\<rparr>" and ?k = "MP_key \<lparr>kw_key = k, kw_weight = w\<rparr>"
  have "meta_permissions auth = (if meta_permission_comparator ?a ?k then [?a, ?k] else [?k, ?a])"
    using assms(1) by (simp add: meta_permissions_def)
  then show ?thesis
    using assms(1,2) visit t
    by (simp add: satisfied_authority.simps visit_key_def find_index_less Let_def del: bind_res_Inr_iff EOS_ASSERT_Inr_iff)
qed

text \<open>
  C32 (error). The marks of used keys can be too few.  Let the permission \<open>p\<close> be satisfied by \<open>a\<close> or, with
  the larger weight, by \<open>b\<close>, let \<open>a\<close> need the key \<open>k\<close>, and \<open>b\<close> need \<open>a\<close> and a key that is not provided.
  Then \<open>p\<close> is satisfied exactly when \<open>k\<close> is provided, but no key is marked as used: \<open>b\<close> fails, which
  reverts the mark set below it, and \<open>a\<close> is then answered from the cache.
\<close>

theorem cached_permission_leaves_key_unused:
  assumes "provided_permissions c = []" and "k' \<notin> set (provided_keys c)" and "2 < recursion_depth_limit c"
    and "distinct [p, a, b]" and "permission p \<noteq> 0" and "permission a \<noteq> 0" and "permission b \<noteq> 0"
    and pa: "permission_to_authority c a = Inr \<lparr>threshold = ta, auth_keys = [\<lparr>kw_key = k, kw_weight = wa\<rparr>],
        auth_accounts = [], auth_waits = []\<rparr>" "0 < ta" "ta \<le> ucast wa"
    and pb: "permission_to_authority c b = Inr \<lparr>threshold = tb, auth_keys = [\<lparr>kw_key = k', kw_weight = wk\<rparr>],
        auth_accounts = [\<lparr>plw_permission = a, plw_weight = wb\<rparr>], auth_waits = []\<rparr>" "ucast wb < tb"
    and pp: "permission_to_authority c p = Inr \<lparr>threshold = tp, auth_keys = [],
        auth_accounts = [\<lparr>plw_permission = a, plw_weight = v\<rparr>, \<lparr>plw_permission = b, plw_weight = v'\<rparr>], auth_waits = []\<rparr>"
      "0 < tp" "tp \<le> ucast v" "v < v'"
  shows "satisfied_permission c p used = Inr (k \<in> set (provided_keys c), used)"
proof -
  let ?ok = "k \<in> set (provided_keys c)"
  have free: "permission_status_in_cache m q = None" if "m q = None" "\<forall>q. permission q = 0 \<longrightarrow> m q = None" for m q
    using that by (simp add: permission_status_in_cache_def)
  define m where "m = [p \<mapsto> being_evaluated]"
  define ma where "ma = m(b \<mapsto> being_evaluated, a \<mapsto> (if ?ok then permission_satisfied else permission_unsatisfied))"
  have depth: "0 < recursion_depth_limit c" "1 < recursion_depth_limit c"
    using assms(3) by (auto simp: word_less_nat_alt)
  have va: "\<exists>us. visit_account c 2 0 \<lparr>plw_permission = a, plw_weight = wb\<rparr>
      \<lparr>used_keys = used, cached_permissions = m(b \<mapsto> being_evaluated)\<rparr> =
      Inr (if ?ok then ucast wb else 0, \<lparr>used_keys = us, cached_permissions = ma\<rparr>)"
    using assms(3-7) pa
    by (subst visit_account_fresh [OF free _ pa(1) one_key_authority [OF refl pa(2,3)]])
      (auto simp: m_def ma_def permission_status_in_cache_def)
  then obtain us where "visit_account c 2 0 \<lparr>plw_permission = a, plw_weight = wb\<rparr>
      \<lparr>used_keys = used, cached_permissions = m(b \<mapsto> being_evaluated)\<rparr> =
      Inr (if ?ok then ucast wb else 0, \<lparr>used_keys = us, cached_permissions = ma\<rparr>)" by blast
  from failing_authority [OF refl assms(2) pb(2) this]
  have vb: "visit_account c 1 0 \<lparr>plw_permission = b, plw_weight = v'\<rparr> \<lparr>used_keys = used, cached_permissions = m\<rparr> =
      Inr (0, \<lparr>used_keys = used, cached_permissions = ma(b \<mapsto> permission_unsatisfied)\<rparr>)"
    using assms(4-7) depth pb by (subst visit_account_fresh [OF free _ pb(1)]) (auto simp: m_def)
  have order: "meta_permissions \<lparr>threshold = tp, auth_keys = [],
        auth_accounts = [\<lparr>plw_permission = a, plw_weight = v\<rparr>, \<lparr>plw_permission = b, plw_weight = v'\<rparr>], auth_waits = []\<rparr> =
      [MP_account \<lparr>plw_permission = b, plw_weight = v'\<rparr>, MP_account \<lparr>plw_permission = a, plw_weight = v\<rparr>]"
    using pp(4) by (simp add: meta_permissions_def meta_permission_comparator_def word_less_nat_alt unat_ucast_up)
  have tp: "\<not> tp \<le> 0" using pp(2) by (simp add: not_le)
  have va': "visit_account c 1 0 \<lparr>plw_permission = a, plw_weight = v\<rparr>
      \<lparr>used_keys = used, cached_permissions = ma(b \<mapsto> permission_unsatisfied)\<rparr> =
      Inr (if ?ok then ucast v else 0, \<lparr>used_keys = used, cached_permissions = ma(b \<mapsto> permission_unsatisfied)\<rparr>)"
    using assms(4) by (simp add: visit_account.simps permission_status_in_cache_def ma_def)
  have "satisfied_authority c 1 \<lparr>threshold = tp, auth_keys = [],
        auth_accounts = [\<lparr>plw_permission = a, plw_weight = v\<rparr>, \<lparr>plw_permission = b, plw_weight = v'\<rparr>], auth_waits = []\<rparr>
      \<lparr>used_keys = used, cached_permissions = m\<rparr> =
      Inr (?ok, \<lparr>used_keys = used, cached_permissions = ma(b \<mapsto> permission_unsatisfied)\<rparr>)"
    using pp(3) tp by (simp add: satisfied_authority.simps order vb va' del: bind_res_Inr_iff EOS_ASSERT_Inr_iff)
  then show ?thesis
    using assms(1,5) depth pp(1) unfolding satisfied_permission_def
    by (subst visit_account_fresh [OF free _ pp(1)]) (auto simp: initialize_permission_cache_def m_def)
qed

theorem cached_permission_leaves_key_unused_witness:
  "satisfied_permission sample_checker (permission_level 3 1) (initial_used_keys sample_checker) = Inr (True, [False]) \<and>
     \<not> all_keys_used [False]"
proof -
  have "satisfied_permission sample_checker (permission_level 3 1) [False] = Inr (10 \<in> set (provided_keys sample_checker), [False])"
    by (rule cached_permission_leaves_key_unused [where a = "permission_level 1 1" and b = "permission_level 2 1" and k' = 20
          and ta = 1 and wa = 1 and tb = 2 and wk = 1 and wb = 1 and tp = 1 and v = 1 and v' = 2])
      (simp_all add: sample_checker_def sample_authorities_def word_le_nat_alt word_less_nat_alt)
  then show ?thesis by (simp add: initial_used_keys_def all_keys_used_def sample_checker_def)
qed

theorem satisfied_permission_decides_witness:
  "\<exists>used'. satisfied_permission sample_checker (permission_level 3 1) [False] =
     Inr (perm_ok sample_checker (permission_level 3 1), used')"
  using satisfied_permission_decides [OF sample_lookups_ok sample_ranked, of "permission_level 3 1" "[False]"]
  by (simp add: sample_checker_def named_def)

theorem satisfied_permission_sound_witness: "perm_ok sample_checker (permission_level 3 1)"
  using satisfied_permission_sound [OF _ sample_eval] sample_lookups_ok by (simp add: lookups_ok_def)

end
