(* ===== verification/Chain_Name.thy ===== *)
theory Chain_Name
  imports Chain_Prelude
begin

text \<open>
  The account, action and permission names of
  \<^verbatim>\<open>libraries/chain/include/eosio/chain/name.hpp\<close> and \<^verbatim>\<open>libraries/chain/name.cpp\<close>: a name is a
  64-bit integer holding up to thirteen characters, twelve in 5-bit slots from the top
  and the thirteenth in the low four bits.
\<close>

unbundle bit_operations_syntax

section \<open>C strings\<close>

text \<open>
  A \<open>const char*\<close> argument is the list of its characters; reading at or past the end
  gives the terminating NUL.  A string object is turned into one by \<open>c_str()\<close>, which the
  callee sees up to the first NUL.
\<close>

definition c_at :: "string \<Rightarrow> nat \<Rightarrow> char" where
  "c_at s i = (if i < length s then s ! i else CHR 0x00)"

definition c_str :: "string \<Rightarrow> string" where
  "c_str s = takeWhile (\<lambda>c. c \<noteq> CHR 0x00) s"

definition strnlen :: "string \<Rightarrow> nat \<Rightarrow> nat" where
  "strnlen s n = min n (length (c_str s))"

definition is_c_string :: "string \<Rightarrow> bool" where
  "is_c_string s \<longleftrightarrow> CHR 0x00 \<notin> set s"

section \<open>Encoding a string\<close>

definition char_to_symbol :: "char \<Rightarrow> u64" where
  "char_to_symbol c =
     (if CHR ''a'' \<le> c \<and> c \<le> CHR ''z'' then word_of_nat (of_char c - of_char CHR ''a'') + 6
      else if CHR ''1'' \<le> c \<and> c \<le> CHR ''5'' then word_of_nat (of_char c - of_char CHR ''1'') + 1
      else 0)"

text \<open>The \<open>for\<close> loop of \<open>string_to_name\<close>, from index \<open>i\<close>: the final index and the name.\<close>

function string_to_name_loop :: "string \<Rightarrow> nat \<Rightarrow> u64 \<Rightarrow> nat \<times> u64" where
  "string_to_name_loop str i nm =
     (if c_at str i \<noteq> CHR 0x00 \<and> i < 12
      then string_to_name_loop str (Suc i)
             (nm OR push_bit (64 - 5 * (i + 1)) (char_to_symbol (c_at str i) AND 0x1f))
      else (i, nm))"
  by pat_completeness auto
termination
  by (relation "measure (\<lambda>(str, i, nm). 12 - i)") auto

definition string_to_name :: "string \<Rightarrow> u64" where
  "string_to_name str =
     (let (i, nm) = string_to_name_loop str 0 0
      in if i = 12 then nm OR (char_to_symbol (c_at str 12) AND 0x0F) else nm)"

text \<open>The account of the system contract, a constant of \<^verbatim>\<open>config.hpp\<close>.\<close>

definition system_account_name :: u64 where "system_account_name = string_to_name ''eosio''"

section \<open>Decoding a name\<close>

definition charmap :: string where
  "charmap = ''.12345abcdefghijklmnopqrstuvwxyz''"

function name_to_string_loop :: "nat \<Rightarrow> u64 \<Rightarrow> string \<Rightarrow> string" where
  "name_to_string_loop i tmp str =
     (if i \<le> 12
      then name_to_string_loop (Suc i) (drop_bit (if i = 0 then 4 else 5) tmp)
             (str[12 - i := charmap ! unat (tmp AND (if i = 0 then 0x0f else 0x1f))])
      else str)"
  by pat_completeness auto
termination
  by (relation "measure (\<lambda>(i, tmp, str). 13 - i)") auto

definition name_to_string :: "u64 \<Rightarrow> string" where
  "name_to_string v =
     trim_right_if (\<lambda>c. c = CHR ''.'') (name_to_string_loop 0 v (replicate 13 CHR ''.''))"

definition name_set :: "string \<Rightarrow> u64 res" where
  "name_set str =
     EOS_ASSERT (strnlen str 14 \<le> 13) name_type_exception
       (let v = string_to_name str
        in EOS_ASSERT (name_to_string v = c_str str) name_type_exception (Inr v))"

text \<open>The constructor from a string object and the assignment from one.\<close>

definition name_from_string :: "string \<Rightarrow> u64 res" where
  "name_from_string str = name_set (c_str str)"

text \<open>
  What a well-formed name looks like: at most thirteen characters of the alphabet, no
  trailing dot, and a thirteenth character from the first half of the alphabet.
\<close>

definition well_formed_name :: "string \<Rightarrow> bool" where
  "well_formed_name s \<longleftrightarrow>
     length s \<le> 13 \<and> (\<forall>c \<in> set s. c \<in> set charmap) \<and>
     (s \<noteq> [] \<longrightarrow> last s \<noteq> CHR ''.'') \<and>
     (length s = 13 \<longrightarrow> s ! 12 \<in> set (take 16 charmap))"

text \<open>
  Views of a name used in the proofs: the slot that character \<open>i\<close> of a string occupies,
  the digit that a name holds for character \<open>i\<close>, and the last \<open>k\<close> of the twelve 5-bit
  slots together with the 4-bit slot, for the symbols \<open>f\<close> of the thirteen characters.
\<close>

definition name_field :: "string \<Rightarrow> nat \<Rightarrow> u64" where
  "name_field s i = push_bit (64 - 5 * (i + 1)) (take_bit 5 (char_to_symbol (c_at s i)))"

definition name_digit :: "u64 \<Rightarrow> nat \<Rightarrow> u64" where
  "name_digit v i = (if i = 12 then take_bit 4 v else take_bit 5 (drop_bit (64 - 5 * (i + 1)) v))"

fun name_low :: "(nat \<Rightarrow> u64) \<Rightarrow> nat \<Rightarrow> u64" where
  "name_low f 0 = take_bit 4 (f 12)"
| "name_low f (Suc k) = push_bit (4 + 5 * k) (take_bit 5 (f (11 - k))) OR name_low f k"

declare string_to_name_loop.simps [simp del]
declare name_to_string_loop.simps [simp del]

section \<open>The alphabet\<close>

lemma length_charmap: "length charmap = 32"
  by (simp add: charmap_def)

lemma charmap_no_nul: "CHR 0x00 \<notin> set charmap"
  by (simp add: charmap_def)

lemma char_to_symbol_NUL [simp]: "char_to_symbol CHR 0x00 = 0"
  by (simp add: char_to_symbol_def less_eq_char_def)

lemma char_to_symbol_dot [simp]: "char_to_symbol CHR ''.'' = 0"
  by (simp add: char_to_symbol_def less_eq_char_def)

lemma char_to_symbol_charmap_all:
  "\<forall>n \<in> set [0..<32]. char_to_symbol (charmap ! n) = word_of_nat n"
  by (simp add: charmap_def char_to_symbol_def less_eq_char_def upt_rec)

lemma char_to_symbol_charmap: "n < 32 \<Longrightarrow> char_to_symbol (charmap ! n) = word_of_nat n"
  using char_to_symbol_charmap_all by simp

lemma charmap_char_to_symbol:
  assumes "c \<in> set charmap"
  shows "charmap ! unat (char_to_symbol c) = c"
proof -
  from assms obtain n where n: "n < 32" "c = charmap ! n"
    by (metis in_set_conv_nth length_charmap)
  then have "unat (char_to_symbol c) = n"
    by (simp add: char_to_symbol_charmap unat_of_nat take_bit_eq_mod)
  with n show ?thesis by simp
qed

section \<open>From strings to names\<close>

lemma and_31_eq_take_bit: "x AND 31 = take_bit 5 (x :: u64)"
  by (simp flip: take_bit_eq_mask add: mask_eq_exp_minus_1 take_bit_eq_mask)

lemma and_15_eq_take_bit: "x AND 15 = take_bit 4 (x :: u64)"
  by (simp flip: take_bit_eq_mask add: mask_eq_exp_minus_1 take_bit_eq_mask)

lemma c_at_end: "length s \<le> i \<Longrightarrow> c_at s i = CHR 0x00"
  by (simp add: c_at_def)

lemma c_at_eq_NUL_iff: "is_c_string s \<Longrightarrow> c_at s i = CHR 0x00 \<longleftrightarrow> length s \<le> i"
  by (auto simp: c_at_def is_c_string_def) (metis not_le nth_mem)

lemma name_field_end: "length s \<le> i \<Longrightarrow> name_field s i = 0"
  by (simp add: name_field_def c_at_end)

lemma string_to_name_loop_eq:
  "is_c_string s \<Longrightarrow> i \<le> 12 \<Longrightarrow> string_to_name_loop s i nm =
     (max i (min 12 (length s)), nm OR foldr (OR) (map (name_field s) [i..<12]) 0)"
proof (induction s i nm rule: string_to_name_loop.induct)
  case (1 s i nm)
  show ?case
  proof (cases "i < length s \<and> i < 12")
    case True
    with 1 show ?thesis
      by (subst string_to_name_loop.simps)
        (simp add: c_at_eq_NUL_iff upt_conv_Cons name_field_def [of s i] and_31_eq_take_bit or.assoc)
  next
    case False
    have z: "foldr (OR) (map (name_field s) [i..<12]) 0 = 0"
      using False "1.prems" by (intro foldr_or_zero) (auto intro!: name_field_end)
    from False "1.prems" show ?thesis
      by (subst string_to_name_loop.simps) (auto simp: c_at_eq_NUL_iff z)
  qed
qed

lemma string_to_name_eq:
  assumes "is_c_string s"
  shows "string_to_name s =
           foldr (OR) (map (name_field s) [0..<12]) 0 OR take_bit 4 (char_to_symbol (c_at s 12))"
proof (cases "12 \<le> length s")
  case True
  with assms show ?thesis
    by (simp add: string_to_name_def string_to_name_loop_eq and_15_eq_take_bit)
next
  case False
  with assms show ?thesis
    by (simp add: string_to_name_def string_to_name_loop_eq c_at_end)
qed

section \<open>From names to strings\<close>

lemma upt_13: "[0..<13] = [0,1,2,3,4,5,6,7,8,9,10,11,12::nat]" 
  by (simp add: upt_rec)


lemma replicate_13: "replicate 13 x = [x,x,x,x,x,x,x,x,x,x,x,x,x]"
  by (simp add: numeral_eq_Suc)

lemma name_to_string_loop_eq:
  "name_to_string_loop 0 v (replicate 13 CHR ''.'') = map (\<lambda>i. charmap ! unat (name_digit v i)) [0..<13]"
  by (simp add: name_to_string_loop.simps replicate_13 upt_13 name_digit_def and_31_eq_take_bit and_15_eq_take_bit)

lemma unat_name_digit: "unat (name_digit v i) < 32"
proof -
  have "name_digit v i = take_bit 5 (name_digit v i)"
    by (simp add: name_digit_def min_def)
  then show ?thesis using unat_take_bit_less [of 5 "name_digit v i"] by simp
qed

lemma char_to_symbol_trim:
  "char_to_symbol (c_at (trim_right_if (\<lambda>c. c = CHR ''.'') s) i) = char_to_symbol (c_at s i)"
proof (induction s rule: rev_induct)
  case Nil
  then show ?case by (simp add: trim_right_if_def)
next
  case (snoc x xs)
  then show ?case
    by (cases "x = CHR ''.''") (auto simp: trim_right_if_def c_at_def nth_append)
qed

lemma is_c_string_trim: "is_c_string s \<Longrightarrow> is_c_string (trim_right_if P s)"
  by (auto simp: is_c_string_def trim_right_if_def dest: set_dropWhileD)

lemma nth_charmap_not_NUL: "n < 32 \<Longrightarrow> charmap ! n \<noteq> CHR 0x00"
  using charmap_no_nul by (metis length_charmap nth_mem)

lemma is_c_string_name_to_string: "is_c_string (name_to_string v)"
  unfolding name_to_string_def
  by (rule is_c_string_trim)
    (auto simp: is_c_string_def name_to_string_loop_eq nth_charmap_not_NUL unat_name_digit dest: sym)

lemma symbol_name_to_string:
  "i \<le> 12 \<Longrightarrow> char_to_symbol (c_at (name_to_string v) i) = name_digit v i"
  unfolding name_to_string_def char_to_symbol_trim name_to_string_loop_eq
  by (simp add: c_at_def char_to_symbol_charmap unat_name_digit del: upt.simps)

section \<open>Slots\<close>

lemma name_low_cong: "(\<And>i. i \<le> 12 \<Longrightarrow> f i = g i) \<Longrightarrow> name_low f k = name_low g k"
  by (induction k) auto

lemma foldr_fields_name_low:
  "k \<le> 12 \<Longrightarrow> foldr (OR) (map (name_field s) [12 - k..<12]) 0 OR take_bit 4 (char_to_symbol (c_at s 12))
     = name_low (\<lambda>i. char_to_symbol (c_at s i)) k"
proof (induction k)
  case 0
  show ?case by simp
next
  case (Suc k)
  have u: "[11 - k..<12] = (11 - k) # [12 - k..<12]"
    using Suc.prems upt_conv_Cons [of "11 - k" 12] Suc_diff_le [of k 11] by simp
  have e: "59 - 5 * (11 - k) = 4 + 5 * k"
    using Suc.prems by simp
  show ?case
    using Suc by (simp add: u name_field_def [of s "11 - k"] e or.assoc del: upt.simps)
qed

lemma string_to_name_low:
  "is_c_string s \<Longrightarrow> string_to_name s = name_low (\<lambda>i. char_to_symbol (c_at s i)) 12"
  using foldr_fields_name_low [of 12 s] by (simp add: string_to_name_eq)

lemma name_low_digits: "k \<le> 12 \<Longrightarrow> name_low (name_digit v) k = take_bit (4 + 5 * k) v"
proof (induction k)
  case 0
  show ?case by (simp add: name_digit_def)
next
  case (Suc k)
  have e: "64 - 5 * (11 - k + 1) = 4 + 5 * k" "11 - k \<noteq> 12"
    using Suc.prems by simp_all
  have "push_bit (4 + 5 * k) (take_bit 5 (drop_bit (4 + 5 * k) v)) OR take_bit (4 + 5 * k) v
          = take_bit (4 + 5 * Suc k) v"
    using take_bit_or_push [of "4 + 5 * k" v 5] by (simp add: or.commute add.commute)
  with Suc e show ?case by (simp add: name_digit_def)
qed

lemma take_bit_name_low: "take_bit (4 + 5 * k) (name_low f k) = name_low f k"
proof (induction k)
  case (Suc k)
  have "take_bit (4 + 5 * Suc k) (take_bit (4 + 5 * k) (name_low f k)) = take_bit (4 + 5 * k) (name_low f k)"
    by simp
  then have "take_bit (4 + 5 * Suc k) (name_low f k) = name_low f k"
    by (simp only: Suc.IH)
  moreover have "take_bit (4 + 5 * Suc k) (push_bit (4 + 5 * k) (take_bit 5 x))
      = push_bit (4 + 5 * k) (take_bit 5 (x :: u64))" for x
    by (rule bit_word_eqI) (auto simp: bit_simps)
  ultimately show ?case by simp
qed simp

lemma slot_of_push:
  "k < m \<Longrightarrow> take_bit 5 (drop_bit (4 + 5 * k) (push_bit (4 + 5 * m) x)) = (0 :: u64)"
  by (rule bit_word_eqI) (auto simp: bit_simps)

lemma slot_own:
  "k < 12 \<Longrightarrow> take_bit 5 (drop_bit (4 + 5 * k) (push_bit (4 + 5 * k) (take_bit 5 x))) = take_bit 5 (x :: u64)"
  by (rule bit_word_eqI) (auto simp: bit_simps)

lemma slot_name_low:
  "m \<le> 12 \<Longrightarrow> k < m \<Longrightarrow> take_bit 5 (drop_bit (4 + 5 * k) (name_low f m)) = take_bit 5 (f (11 - k))"
proof (induction m)
  case (Suc m)
  then show ?case
    by (cases "k = m") (simp_all add: slot_of_push drop_bit_of_take_bit slot_own take_bit_name_low)
qed simp

lemma low_slot_name_low: "take_bit 4 (name_low f m) = take_bit 4 (f 12)"
proof (induction m)
  case (Suc m)
  have "take_bit 4 (push_bit (4 + 5 * m) x) = (0 :: u64)" for x
    by (rule bit_word_eqI) (auto simp: bit_simps)
  with Suc show ?case by simp
qed simp

lemma name_digit_name_low:
  "i \<le> 12 \<Longrightarrow> name_digit (name_low f 12) i = take_bit (if i = 12 then 4 else 5) (f i)"
proof -
  assume i: "i \<le> 12"
  show ?thesis
  proof (cases "i = 12")
    case False
    with i have "4 + 5 * (11 - i) = 64 - 5 * (i + 1)" "11 - (11 - i) = i" "11 - i < 12" by auto
    with False slot_name_low [of 12 "11 - i" f] show ?thesis
      by (simp add: name_digit_def)
  qed (simp add: name_digit_def low_slot_name_low)
qed

section \<open>Round trips\<close>

lemma string_to_name_to_string: "string_to_name (name_to_string v) = v"
proof -
  have "string_to_name (name_to_string v) = name_low (name_digit v) 12"
    unfolding string_to_name_low [OF is_c_string_name_to_string]
    by (rule name_low_cong) (simp add: symbol_name_to_string)
  then show ?thesis
    using name_low_digits [of 12 v] by (simp add: take_bit_word_eq_self)
qed

lemma name_to_string_eq:
  "name_to_string v =
     trim_right_if (\<lambda>c. c = CHR ''.'') (map (\<lambda>i. charmap ! unat (name_digit v i)) [0..<13])"
  by (simp add: name_to_string_def name_to_string_loop_eq del: upt.simps)

lemma length_name_to_string: "length (name_to_string v) \<le> 13"
  unfolding name_to_string_eq by (rule order_trans [OF length_trim_right_if]) simp

lemma c_str_eq: "is_c_string s \<Longrightarrow> c_str s = s"
  by (auto simp: c_str_def is_c_string_def takeWhile_eq_all_conv)

lemma name_set_iff:
  assumes "is_c_string s"
  shows "name_set s = Inr v \<longleftrightarrow> s = name_to_string v"
  using assms length_name_to_string [of v]
  by (auto simp: name_set_def strnlen_def c_str_eq Let_def string_to_name_to_string)

lemma well_formed_name_to_string: "well_formed_name (name_to_string v)"
proof -
  have "c \<in> set charmap" if "c \<in> set (name_to_string v)" for c
    using that set_trim_right_if unat_name_digit
    by (fastforce simp: name_to_string_eq length_charmap)
  moreover have "name_to_string v ! 12 \<in> set (take 16 charmap)" if l: "length (name_to_string v) = 13"
  proof -
    have "unat (name_digit v 12) < 16"
      using take_bit_nat_less_exp [of 4] by (simp add: name_digit_def unsigned_take_bit_eq)
    moreover have "name_to_string v ! 12 = charmap ! unat (name_digit v 12)"
      using l unfolding name_to_string_eq by (subst trim_right_if_prefix) auto
    ultimately show ?thesis
      by (auto simp: in_set_conv_nth length_charmap)
  qed
  ultimately show ?thesis
    using length_name_to_string [of v] last_trim_right_if
    by (auto simp: well_formed_name_def name_to_string_eq)
qed

lemma unat_char_to_symbol: "c \<in> set charmap \<Longrightarrow> unat (char_to_symbol c) < 32"
  by (auto simp: in_set_conv_nth length_charmap char_to_symbol_charmap unat_of_nat take_bit_eq_mod)

lemma unat_char_to_symbol_16: "c \<in> set (take 16 charmap) \<Longrightarrow> unat (char_to_symbol c) < 16"
  by (auto simp: in_set_conv_nth length_charmap char_to_symbol_charmap unat_of_nat take_bit_eq_mod)

lemma name_digit_well_formed:
  assumes "well_formed_name s" "i \<le> 12"
  shows "name_digit (name_low (\<lambda>i. char_to_symbol (c_at s i)) 12) i = char_to_symbol (c_at s i)"
proof (cases "i < length s")
  case True
  then have "s ! i \<in> set charmap" "i = 12 \<Longrightarrow> s ! i \<in> set (take 16 charmap)"
    using assms by (auto simp: well_formed_name_def)
  then have "unat (char_to_symbol (s ! i)) < 2 ^ (if i = 12 then 4 else 5)"
    using unat_char_to_symbol unat_char_to_symbol_16 by auto
  with True assms(2) show ?thesis
    by (simp add: name_digit_name_low c_at_def take_bit_word_self)
qed (simp add: name_digit_name_low assms c_at_def)

lemma charmap_symbol_c_at:
  assumes "well_formed_name s" "i \<le> 12"
  shows "charmap ! unat (char_to_symbol (c_at s i)) = (s @ replicate (13 - length s) CHR ''.'') ! i"
proof (cases "i < length s")
  case True
  with assms show ?thesis
    by (simp add: c_at_def nth_append charmap_char_to_symbol well_formed_name_def)
next
  case False
  with assms show ?thesis
    by (simp add: c_at_def nth_append) (simp add: charmap_def)
qed

lemma name_to_string_string_to_name:
  assumes "well_formed_name s"
  shows "name_to_string (string_to_name s) = s"
proof -
  have c: "is_c_string s"
    using assms charmap_no_nul by (auto simp: well_formed_name_def is_c_string_def)
  have "map (\<lambda>i. charmap ! unat (name_digit (string_to_name s) i)) [0..<13]
        = s @ replicate (13 - length s) CHR ''.''"
  proof (rule nth_equalityI)
    show "map (\<lambda>i. charmap ! unat (name_digit (string_to_name s) i)) [0..<13] ! i
        = (s @ replicate (13 - length s) CHR ''.'') ! i"
      if "i < length (map (\<lambda>i. charmap ! unat (name_digit (string_to_name s) i)) [0..<13])" for i
      using that assms
      by (simp add: string_to_name_low c name_digit_well_formed charmap_symbol_c_at del: upt.simps)
  qed (use assms in \<open>auto simp: well_formed_name_def\<close>)
  then show ?thesis
    using assms
    by (simp add: name_to_string_eq trim_right_if_replicate trim_right_if_self well_formed_name_def
        del: upt.simps)
qed

interpretation name_codec: codec name_to_string string_to_name "\<lambda>_. True" well_formed_name
  by unfold_locales
    (auto simp: string_to_name_to_string well_formed_name_to_string name_to_string_string_to_name)

section \<open>Properties\<close>

text \<open>
  C24 (round trip). Printing any 64-bit name and encoding the resulting string gives the name
  back, so that distinct names have distinct strings; the strings printed are exactly the
  well-formed ones.
\<close>

theorem name_roundtrip:
  "string_to_name (name_to_string v) = v \<and> (name_to_string v = name_to_string w \<longleftrightarrow> v = w) \<and>
   (well_formed_name s \<longleftrightarrow> (\<exists>u. s = name_to_string u))"
  using name_codec.dec_enc name_codec.enc_inj name_codec.rep_iff by simp

text \<open>
  Setting a name from a C string succeeds exactly for the well-formed
  strings; the value then prints as that very string, and every other string raises
  \<open>name_type_exception\<close>.
\<close>

theorem name_set_spec:
  assumes "is_c_string s"
  shows "name_set s = (if well_formed_name s then Inr (string_to_name s) else Inl name_type_exception) \<and>
         (name_set s = Inr v \<longleftrightarrow> s = name_to_string v)"
proof -
  have iff: "name_set s = Inr u \<longleftrightarrow> s = name_to_string u" for u
    using assms by (rule name_set_iff)
  show ?thesis
  proof (cases "well_formed_name s")
    case True
    then show ?thesis using iff name_to_string_string_to_name by auto
  next
    case False
    then have "\<nexists>u. name_set s = Inr u"
      by (auto simp: iff well_formed_name_to_string)
    with False iff show ?thesis by (auto simp: name_set_def Let_def split: if_splits)
  qed
qed

theorem name_set_spec_witness:
  "name_set ''eosio.token'' = Inr (string_to_name ''eosio.token'') \<and>
   name_set ''EOS'' = Inl name_type_exception"
proof -
  have "is_c_string ''eosio.token''" "is_c_string ''EOS''"
    by (simp_all add: is_c_string_def)
  moreover have "well_formed_name ''eosio.token''" "\<not> well_formed_name ''EOS''"
    by (simp_all add: well_formed_name_def charmap_def)
  ultimately show ?thesis
    using name_set_spec [of "''eosio.token''"] name_set_spec [of "''EOS''"] by simp
qed

end
