(* ===== verification/Authorization.thy ===== *)
theory Authorization
  imports Authority_Decides Chain_Name
begin

text \<open>
  The authorization manager: \<^verbatim>\<open>libraries/chain/authorization_manager.cpp\<close> with the objects of
  \<^verbatim>\<open>permission_object.hpp\<close> and \<^verbatim>\<open>permission_link_object.hpp\<close>.  The deserialization of action data
  and of packed transactions, and what the manager asks the controller for, are parameters.
\<close>

section \<open>Tables\<close>

record 'k permission_object =
  po_id :: nat
  po_usage_id :: nat
  po_parent :: nat
  po_owner :: u64
  po_name :: u64
  po_last_updated :: int
  po_auth :: "'k authority"

record permission_usage_object =
  pu_id :: nat
  last_used :: int

record permission_link_object =
  pl_account :: u64
  pl_code :: u64
  pl_message_type :: u64
  required_permission :: u64

text \<open>The tables with the counters from which chainbase takes the ids of new rows.\<close>

record 'k auth_db =
  perms :: "'k permission_object list"
  perm_next_id :: nat
  usages :: "permission_usage_object list"
  usage_next_id :: nat
  links :: "permission_link_object list"

definition by_owner :: "'k permission_object \<Rightarrow> u64 \<times> u64" where
  "by_owner p = (po_owner p, po_name p)"

definition by_action_name :: "permission_link_object \<Rightarrow> u64 \<times> u64 \<times> u64" where
  "by_action_name l = (pl_account l, pl_code l, pl_message_type l)"

text \<open>Permission 0 is reserved: it is the parent of the permissions that have none.\<close>

definition auth_initialize_database :: "'k auth_db" where
  "auth_initialize_database =
     \<lparr>perms = [\<lparr>po_id = 0, po_usage_id = 0, po_parent = 0, po_owner = 0, po_name = 0,
                po_last_updated = 0, po_auth = authority_empty\<rparr>],
      perm_next_id = 1, usages = [], usage_next_id = 0, links = []\<rparr>"

definition create_permission :: "int \<Rightarrow> 'k auth_db \<Rightarrow> u64 \<Rightarrow> u64 \<Rightarrow> nat \<Rightarrow> 'k authority \<Rightarrow> int \<Rightarrow>
    ('k auth_db \<times> 'k permission_object) res" where
  "create_permission pending_block_time db account nm parent auth initial_creation_time =
     (let creation_time = (if initial_creation_time = 0 then pending_block_time else initial_creation_time);
          usage = \<lparr>pu_id = usage_next_id db, last_used = creation_time\<rparr>;
          perm = \<lparr>po_id = perm_next_id db, po_usage_id = pu_id usage, po_parent = parent, po_owner = account,
                  po_name = nm, po_last_updated = creation_time, po_auth = auth\<rparr>
      in bind_res (tbl_create by_owner perm (perms db)) (\<lambda>ps.
           Inr (db\<lparr>perms := ps, perm_next_id := perm_next_id db + 1,
                   usages := usages db @ [usage], usage_next_id := usage_next_id db + 1\<rparr>, perm)))"

definition modify_permission :: "int \<Rightarrow> 'k auth_db \<Rightarrow> 'k permission_object \<Rightarrow> 'k authority \<Rightarrow> 'k auth_db" where
  "modify_permission pending_block_time db perm auth =
     db\<lparr>perms := tbl_modify po_id (po_id perm)
                   (\<lambda>po. po\<lparr>po_auth := auth, po_last_updated := pending_block_time\<rparr>) (perms db)\<rparr>"

definition remove_permission :: "'k auth_db \<Rightarrow> 'k permission_object \<Rightarrow> 'k auth_db res" where
  "remove_permission db perm =
     EOS_ASSERT (\<not> list_ex (\<lambda>p. po_parent p = po_id perm) (perms db)) action_validate_exception
     (bind_res (tbl_get pu_id (po_usage_id perm) (usages db)) (\<lambda>u.
        Inr (db\<lparr>usages := tbl_remove pu_id (po_usage_id perm) (usages db),
                perms := tbl_remove po_id (po_id perm) (perms db)\<rparr>)))"

definition update_permission_usage :: "int \<Rightarrow> 'k auth_db \<Rightarrow> 'k permission_object \<Rightarrow> 'k auth_db res" where
  "update_permission_usage pending_block_time db perm =
     bind_res (tbl_get pu_id (po_usage_id perm) (usages db)) (\<lambda>puo.
       Inr (db\<lparr>usages := tbl_modify pu_id (pu_id puo) (\<lambda>p. p\<lparr>last_used := pending_block_time\<rparr>) (usages db)\<rparr>))"

definition get_permission_last_used :: "'k auth_db \<Rightarrow> 'k permission_object \<Rightarrow> int res" where
  "get_permission_last_used db perm =
     bind_res (tbl_get pu_id (po_usage_id perm) (usages db)) (\<lambda>puo. Inr (last_used puo))"

text \<open>
  \<open>EOS_RETHROW_EXCEPTIONS\<close> passes chain exceptions on and turns the missing row of \<open>get\<close> into a
  \<open>permission_query_exception\<close>.
\<close>

definition find_permission :: "'k auth_db \<Rightarrow> permission_level \<Rightarrow> 'k permission_object option res" where
  "find_permission db level =
     EOS_ASSERT (actor level \<noteq> 0 \<and> permission level \<noteq> 0) invalid_permission
       (Inr (tbl_find by_owner (actor level, permission level) (perms db)))"

definition get_permission :: "'k auth_db \<Rightarrow> permission_level \<Rightarrow> 'k permission_object res" where
  "get_permission db level =
     EOS_ASSERT (actor level \<noteq> 0 \<and> permission level \<noteq> 0) invalid_permission
       (case tbl_find by_owner (actor level, permission level) (perms db) of
          None \<Rightarrow> Inl permission_query_exception
        | Some p \<Rightarrow> Inr p)"

text \<open>
  The walk of \<open>permission_object::satisfies\<close> up the parents of the other permission.  A dangling
  parent, and a loop that never ends, are undefined behaviour in C++; the fuel is one more than the
  number of rows, after which a walk can only repeat itself.
\<close>

fun satisfies_walk :: "nat \<Rightarrow> 'k permission_object list \<Rightarrow> nat \<Rightarrow> nat \<Rightarrow> bool res" where
  "satisfies_walk 0 ps this_id next_id = Inl undefined_behaviour"
| "satisfies_walk (Suc fuel) ps this_id next_id =
     (case tbl_find po_id next_id ps of
        None \<Rightarrow> Inl undefined_behaviour
      | Some parent \<Rightarrow>
          if this_id = po_parent parent then Inr True
          else if po_parent parent = 0 then Inr False
          else satisfies_walk fuel ps this_id (po_parent parent))"

definition satisfies :: "'k auth_db \<Rightarrow> 'k permission_object \<Rightarrow> 'k permission_object \<Rightarrow> bool res" where
  "satisfies db this other =
     (if po_owner this \<noteq> po_owner other then Inr False
      else if po_id this = po_id other \<or> po_id this = po_parent other then Inr True
      else satisfies_walk (Suc (length (perms db))) (perms db) (po_id this) (po_parent other))"

section \<open>Links\<close>

definition active_name :: u64 where "active_name = string_to_name ''active''"
definition owner_name :: u64 where "owner_name = string_to_name ''owner''"
definition eosio_any_name :: u64 where "eosio_any_name = string_to_name ''eosio.any''"
definition eosio_code_name :: u64 where "eosio_code_name = string_to_name ''eosio.code''"
definition updateauth_name :: u64 where "updateauth_name = string_to_name ''updateauth''"
definition deleteauth_name :: u64 where "deleteauth_name = string_to_name ''deleteauth''"
definition linkauth_name :: u64 where "linkauth_name = string_to_name ''linkauth''"
definition unlinkauth_name :: u64 where "unlinkauth_name = string_to_name ''unlinkauth''"
definition canceldelay_name :: u64 where "canceldelay_name = string_to_name ''canceldelay''"

text \<open>The values the preprocessor macro \<open>N\<close> computes for these names.\<close>

lemma system_name_values:
  "system_account_name = 6138663577826885632"
  "active_name = 3617214756542218240"
  "owner_name = 12044502819693133824"
  "eosio_any_name = 6138663581382606848"
  "eosio_code_name = 6138663582462279680"
  "updateauth_name = 15371467950649982976"
  "deleteauth_name = 5378050746259030016"
  "linkauth_name = 10063015651234021376"
  "unlinkauth_name = 15340080295291076608"
  "canceldelay_name = 4730614990712192000"
  by (simp_all add: system_account_name_def active_name_def owner_name_def eosio_any_name_def eosio_code_name_def updateauth_name_def deleteauth_name_def linkauth_name_def unlinkauth_name_def canceldelay_name_def
        string_to_name_def string_to_name_loop.simps c_at_def char_to_symbol_def less_eq_char_def of_char_def)

definition lookup_linked_permission :: "'k auth_db \<Rightarrow> u64 \<Rightarrow> u64 \<Rightarrow> u64 \<Rightarrow> u64 option" where
  "lookup_linked_permission db authorizer_account scope act_name =
     (let link = (case tbl_find by_action_name (authorizer_account, scope, act_name) (links db) of
                    Some l \<Rightarrow> Some l
                  | None \<Rightarrow> tbl_find by_action_name (authorizer_account, scope, 0) (links db))
      in case link of Some l \<Rightarrow> Some (required_permission l) | None \<Rightarrow> None)"

definition lookup_minimum_permission :: "'k auth_db \<Rightarrow> u64 \<Rightarrow> u64 \<Rightarrow> u64 \<Rightarrow> u64 option res" where
  "lookup_minimum_permission db authorizer_account scope act_name =
     EOS_ASSERT (scope = system_account_name \<longrightarrow>
         act_name \<noteq> updateauth_name \<and> act_name \<noteq> deleteauth_name \<and> act_name \<noteq> linkauth_name \<and>
         act_name \<noteq> unlinkauth_name \<and> act_name \<noteq> canceldelay_name)
       unlinkable_min_permission_action
       (case lookup_linked_permission db authorizer_account scope act_name of
          None \<Rightarrow> Inr (Some active_name)
        | Some linked \<Rightarrow> if linked = eosio_any_name then Inr None else Inr (Some linked))"

section \<open>Authorization of the native actions\<close>

record 'k updateauth =
  ua_account :: u64
  ua_permission :: u64
  ua_parent :: u64
  ua_auth :: "'k authority"

record deleteauth =
  da_account :: u64
  da_permission :: u64

record linkauth =
  la_account :: u64
  la_code :: u64
  la_type :: u64
  la_requirement :: u64

record unlinkauth =
  un_account :: u64
  un_code :: u64
  un_type :: u64

record 't canceldelay =
  canceling_auth :: permission_level
  cd_trx_id :: 't

text \<open>\<open>get_permission(auth).satisfies(min)\<close> as the condition of an assertion.\<close>

definition require_satisfies :: "'k auth_db \<Rightarrow> permission_level \<Rightarrow> 'k permission_object \<Rightarrow> unit res" where
  "require_satisfies db auth min_perm =
     bind_res (get_permission db auth) (\<lambda>p.
     bind_res (satisfies db p min_perm) (\<lambda>ok.
       EOS_ASSERT ok irrelevant_auth_exception (Inr ())))"

definition check_updateauth_authorization :: "'k auth_db \<Rightarrow> 'k updateauth \<Rightarrow> permission_level list \<Rightarrow> unit res" where
  "check_updateauth_authorization db update auths =
     EOS_ASSERT (length auths = 1) irrelevant_auth_exception
     (let auth = auths ! 0
      in EOS_ASSERT (actor auth = ua_account update) irrelevant_auth_exception
         (bind_res (find_permission db (permission_level (ua_account update) (ua_permission update))) (\<lambda>found.
          bind_res (case found of
                      Some m \<Rightarrow> Inr m
                    | None \<Rightarrow> get_permission db (permission_level (ua_account update) (ua_parent update)))
            (\<lambda>min_perm. require_satisfies db auth min_perm))))"

definition check_deleteauth_authorization :: "'k auth_db \<Rightarrow> deleteauth \<Rightarrow> permission_level list \<Rightarrow> unit res" where
  "check_deleteauth_authorization db del auths =
     EOS_ASSERT (length auths = 1) irrelevant_auth_exception
     (let auth = auths ! 0
      in EOS_ASSERT (actor auth = da_account del) irrelevant_auth_exception
         (bind_res (get_permission db (permission_level (da_account del) (da_permission del)))
           (\<lambda>min_perm. require_satisfies db auth min_perm)))"

definition check_linkauth_authorization ::
    "bool \<Rightarrow> 'k auth_db \<Rightarrow> linkauth \<Rightarrow> permission_level list \<Rightarrow> unit res" where
  "check_linkauth_authorization fix_linkauth_restriction db link auths =
     EOS_ASSERT (length auths = 1) irrelevant_auth_exception
     (let auth = auths ! 0
      in EOS_ASSERT (actor auth = la_account link) irrelevant_auth_exception
         (EOS_ASSERT (la_code link = system_account_name \<or> \<not> fix_linkauth_restriction \<longrightarrow>
              la_type link \<noteq> updateauth_name \<and> la_type link \<noteq> deleteauth_name \<and> la_type link \<noteq> linkauth_name \<and>
              la_type link \<noteq> unlinkauth_name \<and> la_type link \<noteq> canceldelay_name)
            action_validate_exception
         (bind_res (lookup_minimum_permission db (la_account link) (la_code link) (la_type link))
           (\<lambda>linked. case linked of
                None \<Rightarrow> Inr ()
              | Some nm \<Rightarrow>
                  bind_res (get_permission db (permission_level (la_account link) nm))
                    (\<lambda>min_perm. require_satisfies db auth min_perm)))))"

definition check_unlinkauth_authorization :: "'k auth_db \<Rightarrow> unlinkauth \<Rightarrow> permission_level list \<Rightarrow> unit res" where
  "check_unlinkauth_authorization db unlink auths =
     EOS_ASSERT (length auths = 1) irrelevant_auth_exception
     (let auth = auths ! 0
      in EOS_ASSERT (actor auth = un_account unlink) irrelevant_auth_exception
         (case lookup_linked_permission db (un_account unlink) (un_code unlink) (un_type unlink) of
            None \<Rightarrow> Inl transaction_exception
          | Some nm \<Rightarrow>
              if nm = eosio_any_name then Inr ()
              else bind_res (get_permission db (permission_level (un_account unlink) nm))
                     (\<lambda>min_perm. require_satisfies db auth min_perm)))"

text \<open>A deferred transaction, \<open>generated_transaction_object\<close>.\<close>

record ('t, 'b) deferred_trx =
  dt_trx_id :: 't
  dt_sender :: u64
  dt_sender_id :: u128
  dt_payer :: u64
  dt_delay_until :: int
  dt_expiration :: int
  dt_published :: int
  dt_packed_trx :: 'b

text \<open>\<open>unpack_auths\<close> gives the declared authorizations of the actions of a packed transaction.\<close>

definition check_canceldelay_authorization ::
    "('b \<Rightarrow> permission_level list list res) \<Rightarrow> ('t, 'b) deferred_trx list \<Rightarrow> 'k auth_db \<Rightarrow> 't canceldelay \<Rightarrow>
     permission_level list \<Rightarrow> int res" where
  "check_canceldelay_authorization unpack_auths deferred db cancel auths =
     EOS_ASSERT (length auths = 1) irrelevant_auth_exception
     (let auth = auths ! 0
      in bind_res (get_permission db (canceling_auth cancel)) (\<lambda>target_perm.
         bind_res (require_satisfies db auth target_perm) (\<lambda>_.
         case tbl_find dt_trx_id (cd_trx_id cancel) deferred of
           None \<Rightarrow> Inl tx_not_found
         | Some itr \<Rightarrow>
             EOS_ASSERT (dt_sender itr = 0) tx_not_found
             (bind_res (unpack_auths (dt_packed_trx itr)) (\<lambda>acts.
                EOS_ASSERT (list_ex (list_ex (\<lambda>a. a = canceling_auth cancel)) acts) action_validate_exception
                  (Inr (dt_delay_until itr - dt_published itr)))))))"

section \<open>Checking the authorizations of a transaction\<close>

record 'd action =
  act_account :: u64
  act_name :: u64
  act_authorization :: "permission_level list"
  act_data :: 'd

text \<open>
  What the manager takes from the controller and from deserialization.  \<open>checktime k\<close> is the
  outcome of the \<open>k\<close>-th call of the deadline check.
\<close>

record ('d, 'k, 't, 'b) auth_env =
  max_transaction_delay :: u32
  max_authority_depth :: u16
  fix_linkauth_restriction :: bool
  deferred_trxs :: "('t, 'b) deferred_trx list"
  unpack_auths :: "'b \<Rightarrow> permission_level list list res"
  unpack_updateauth :: "'d \<Rightarrow> 'k updateauth res"
  unpack_deleteauth :: "'d \<Rightarrow> deleteauth res"
  unpack_linkauth :: "'d \<Rightarrow> linkauth res"
  unpack_unlinkauth :: "'d \<Rightarrow> unlinkauth res"
  unpack_canceldelay :: "'d \<Rightarrow> 't canceldelay res"
  checktime :: "nat \<Rightarrow> unit res"

definition data_as :: "u64 \<Rightarrow> ('d \<Rightarrow> 'a res) \<Rightarrow> 'd action \<Rightarrow> 'a res" where
  "data_as nm unpack act =
     EOS_ASSERT (act_account act = system_account_name) action_type_exception
     (EOS_ASSERT (act_name act = nm) action_type_exception (unpack (act_data act)))"

definition microseconds_maximum :: int where
  "microseconds_maximum = 0x7FFFFFFFFFFFFFFF"

definition effective_delay :: "('d, 'k, 't, 'b) auth_env \<Rightarrow> int \<Rightarrow> int" where
  "effective_delay env delay =
     (if delay \<ge> 1000000 * uint (max_transaction_delay env) then microseconds_maximum else delay)"

text \<open>The special cases of the native actions: whether one applies, and the delay of the action.\<close>

definition check_native :: "('d, 'k, 't, 'b) auth_env \<Rightarrow> 'k auth_db \<Rightarrow> int \<Rightarrow> 'd action \<Rightarrow> (bool \<times> int) res" where
  "check_native env db delay act =
     (if act_account act = system_account_name
      then if act_name act = updateauth_name
        then bind_res (data_as updateauth_name (unpack_updateauth env) act) (\<lambda>u.
             bind_res (check_updateauth_authorization db u (act_authorization act)) (\<lambda>_. Inr (True, delay)))
      else if act_name act = deleteauth_name
        then bind_res (data_as deleteauth_name (unpack_deleteauth env) act) (\<lambda>u.
             bind_res (check_deleteauth_authorization db u (act_authorization act)) (\<lambda>_. Inr (True, delay)))
      else if act_name act = linkauth_name
        then bind_res (data_as linkauth_name (unpack_linkauth env) act) (\<lambda>u.
             bind_res (check_linkauth_authorization (fix_linkauth_restriction env) db u (act_authorization act))
               (\<lambda>_. Inr (True, delay)))
      else if act_name act = unlinkauth_name
        then bind_res (data_as unlinkauth_name (unpack_unlinkauth env) act) (\<lambda>u.
             bind_res (check_unlinkauth_authorization db u (act_authorization act)) (\<lambda>_. Inr (True, delay)))
      else if act_name act = canceldelay_name
        then bind_res (data_as canceldelay_name (unpack_canceldelay env) act) (\<lambda>u.
             bind_res (check_canceldelay_authorization (unpack_auths env) (deferred_trxs env) db u
                         (act_authorization act)) (\<lambda>d. Inr (True, max delay d)))
      else Inr (False, delay)
      else Inr (False, delay))"

text \<open>The map \<open>permissions_to_satisfy\<close>, in ascending order of its keys.\<close>

fun pts_emplace :: "permission_level \<Rightarrow> int \<Rightarrow> (permission_level \<times> int) list \<Rightarrow> (permission_level \<times> int) list" where
  "pts_emplace p d [] = [(p, d)]"
| "pts_emplace p d ((q, e) # m) =
     (if p < q then (p, d) # (q, e) # m
      else if p = q then (q, if e > d then d else e) # m
      else (q, e) # pts_emplace p d m)"

text \<open>The loop over the declared authorizations of one action.\<close>

fun check_declared :: "('d, 'k, 't, 'b) auth_env \<Rightarrow> 'k auth_db \<Rightarrow> permission_level list \<Rightarrow> 'd action \<Rightarrow> bool \<Rightarrow> int \<Rightarrow>
    permission_level list \<Rightarrow> nat \<times> (permission_level \<times> int) list \<Rightarrow> (nat \<times> (permission_level \<times> int) list) res" where
  "check_declared env db satisfied_authorizations act special delay [] (k, m) = Inr (k, m)"
| "check_declared env db satisfied_authorizations act special delay (declared # auths) (k, m) =
     bind_res (checktime env k) (\<lambda>_.
     bind_res
       (if special then Inr ()
        else bind_res (lookup_minimum_permission db (actor declared) (act_account act) (act_name act)) (\<lambda>min_nm.
          case min_nm of
            None \<Rightarrow> Inr ()
          | Some nm \<Rightarrow>
              bind_res (get_permission db (permission_level (actor declared) nm))
                (\<lambda>min_perm. require_satisfies db declared min_perm)))
       (\<lambda>_. check_declared env db satisfied_authorizations act special delay auths
              (Suc k, if declared \<in> set satisfied_authorizations then m else pts_emplace declared delay m)))"

fun check_actions :: "('d, 'k, 't, 'b) auth_env \<Rightarrow> 'k auth_db \<Rightarrow> permission_level list \<Rightarrow> int \<Rightarrow> 'd action list \<Rightarrow>
    nat \<times> (permission_level \<times> int) list \<Rightarrow> (nat \<times> (permission_level \<times> int) list) res" where
  "check_actions env db satisfied_authorizations delay [] km = Inr km"
| "check_actions env db satisfied_authorizations delay (act # acts) km =
     bind_res (check_native env db delay act) (\<lambda>(special, act_delay).
     bind_res (check_declared env db satisfied_authorizations act special act_delay (act_authorization act) km)
       (\<lambda>km'. check_actions env db satisfied_authorizations delay acts km'))"

definition make_checker :: "('d, 'k, 't, 'b) auth_env \<Rightarrow> 'k auth_db \<Rightarrow> 'k list \<Rightarrow> permission_level list \<Rightarrow> int \<Rightarrow> 'k checker" where
  "make_checker env db keys permissions delay =
     \<lparr>permission_to_authority = (\<lambda>p. bind_res (get_permission db p) (\<lambda>po. Inr (po_auth po))),
      provided_keys = keys, provided_permissions = permissions, provided_delay = delay,
      recursion_depth_limit = max_authority_depth env\<rparr>"

fun satisfy_all :: "('d, 'k, 't, 'b) auth_env \<Rightarrow> 'k checker \<Rightarrow> (permission_level \<times> int) list \<Rightarrow> nat \<times> bool list \<Rightarrow>
    bool list res" where
  "satisfy_all env c [] (k, used) = Inr used"
| "satisfy_all env c ((p, delay) # m) (k, used) =
     bind_res (checktime env k) (\<lambda>_.
     bind_res (satisfied_permission_delay c p delay used) (\<lambda>(ok, used').
       EOS_ASSERT ok unsatisfied_authorization (satisfy_all env c m (Suc k, used'))))"

definition check_authorization :: "('d, 'k, 't, 'b) auth_env \<Rightarrow> 'k auth_db \<Rightarrow> 'd action list \<Rightarrow> 'k list \<Rightarrow>
    permission_level list \<Rightarrow> int \<Rightarrow> bool \<Rightarrow> permission_level list \<Rightarrow> unit res" where
  "check_authorization env db actions keys permissions delay allow_unused_keys satisfied_authorizations =
     (let eff = effective_delay env delay;
          c = make_checker env db keys permissions eff
      in bind_res (check_actions env db satisfied_authorizations eff actions (0, [])) (\<lambda>(k, m).
         bind_res (satisfy_all env c m (k, initial_used_keys c)) (\<lambda>used.
           EOS_ASSERT (\<not> allow_unused_keys \<longrightarrow> all_keys_used used) tx_irrelevant_sig (Inr ()))))"

definition check_authorization_permission :: "('d, 'k, 't, 'b) auth_env \<Rightarrow> 'k auth_db \<Rightarrow> u64 \<Rightarrow> u64 \<Rightarrow> 'k list \<Rightarrow>
    permission_level list \<Rightarrow> int \<Rightarrow> bool \<Rightarrow> unit res" where
  "check_authorization_permission env db account nm keys permissions delay allow_unused_keys =
     (let c = make_checker env db keys permissions (effective_delay env delay)
      in bind_res (satisfied_permission c (permission_level account nm) (initial_used_keys c)) (\<lambda>(ok, used).
         EOS_ASSERT ok unsatisfied_authorization
           (EOS_ASSERT (\<not> allow_unused_keys \<longrightarrow> all_keys_used used) tx_irrelevant_sig (Inr ()))))"

fun satisfy_declared :: "'k checker \<Rightarrow> permission_level list \<Rightarrow> bool list \<Rightarrow> bool list res" where
  "satisfy_declared c [] used = Inr used"
| "satisfy_declared c (p # ps) used =
     bind_res (satisfied_permission c p used) (\<lambda>(ok, used').
       EOS_ASSERT ok unsatisfied_authorization (satisfy_declared c ps used'))"

definition get_required_keys :: "('d, 'k, 't, 'b) auth_env \<Rightarrow> 'k auth_db \<Rightarrow> 'd action list \<Rightarrow> 'k list \<Rightarrow> int \<Rightarrow> 'k list res" where
  "get_required_keys env db actions candidate_keys delay =
     (let c = make_checker env db candidate_keys [] delay
      in bind_res (satisfy_declared c (concat (map act_authorization actions)) (initial_used_keys c))
           (\<lambda>used. Inr (get_used_keys c used)))"

end
