(* ===== verification/Authorization_Props.thy ===== *)
theory Authorization_Props
  imports Authorization
begin

text \<open>
  Properties of the authorization manager: the permissions of each account form a tree that every
  operation keeps, \<open>satisfies\<close> is the ancestor relation of that tree, and a transaction that
  passes \<open>check_authorization\<close> has every declared authorization covered.
\<close>

section \<open>The permission tree\<close>

definition row0 :: "'k permission_object \<Rightarrow> bool" where
  "row0 p \<longleftrightarrow> po_id p = 0 \<and> po_parent p = 0 \<and> po_owner p = 0 \<and> po_name p = 0"

text \<open>A permission's parent is the reserved row or an older permission of the same account.\<close>

definition parent_ok :: "'k permission_object list \<Rightarrow> 'k permission_object \<Rightarrow> bool" where
  "parent_ok ps p \<longleftrightarrow> row0 p \<or>
     (po_parent p < po_id p \<and> po_owner p \<noteq> 0 \<and>
      (\<exists>q. tbl_find po_id (po_parent p) ps = Some q \<and> (po_parent p \<noteq> 0 \<longrightarrow> po_owner q = po_owner p)))"

definition auth_wf :: "'k auth_db \<Rightarrow> bool" where
  "auth_wf db \<longleftrightarrow> tbl_unique po_id (perms db) \<and> tbl_unique by_owner (perms db) \<and>
     (\<forall>p \<in> set (perms db). po_id p < perm_next_id db \<and> parent_ok (perms db) p) \<and>
     (\<exists>p. tbl_find po_id 0 (perms db) = Some p \<and> row0 p)"

inductive ancestor for db :: "'k auth_db" where
  ancestor_refl: "ancestor db i i"
| ancestor_parent: "tbl_find po_id j (perms db) = Some q \<Longrightarrow> ancestor db i (po_parent q) \<Longrightarrow> ancestor db i j"

inductive_simps ancestor_simps: "ancestor db i j"

lemma ancestor_0:
  assumes "auth_wf db" and "ancestor db i j" and "j = 0"
  shows "i = 0"
  using assms(2,3)
proof (induction rule: ancestor.induct)
  case (ancestor_parent j q i)
  then show ?case using assms(1) by (auto simp: auth_wf_def row0_def)
qed simp

section \<open>Satisfying a permission\<close>

definition rows_to :: "'k permission_object list \<Rightarrow> nat \<Rightarrow> 'k permission_object set" where
  "rows_to ps i = {r \<in> set ps. po_id r \<le> i}"

lemma rows_to_less:
  assumes "tbl_find po_id j ps = Some q" and "i < j"
  shows "card (rows_to ps i) < card (rows_to ps j)"
proof (rule psubset_card_mono)
  have "q \<in> set ps" "po_id q = j" using assms(1) by (auto dest: tbl_find_SomeD)
  then have "q \<in> rows_to ps j - rows_to ps i" "rows_to ps i \<subseteq> rows_to ps j"
    using assms(2) by (auto simp: rows_to_def)
  then show "rows_to ps i \<subset> rows_to ps j" by blast
qed (simp add: rows_to_def)

lemma satisfies_walk_eq:
  assumes wf: "auth_wf db" and "i \<noteq> 0"
  shows "card (rows_to (perms db) j) < fuel \<Longrightarrow> tbl_find po_id j (perms db) \<noteq> None \<Longrightarrow> i \<noteq> j \<Longrightarrow>
     satisfies_walk fuel (perms db) i j = Inr (ancestor db i j)"
proof (induction fuel arbitrary: j)
  case (Suc fuel)
  then obtain q where q: "tbl_find po_id j (perms db) = Some q" by blast
  have qs: "q \<in> set (perms db)" "po_id q = j" using q by (auto dest: tbl_find_SomeD)
  have anc: "ancestor db i j \<longleftrightarrow> ancestor db i (po_parent q)"
    using Suc.prems(3) q by (subst ancestor_simps) auto
  show ?case
  proof (cases "i = po_parent q \<or> po_parent q = 0")
    case True
    then show ?thesis
      using q anc assms(2) ancestor_0 [OF wf, of i 0] by (auto intro: ancestor_refl)
  next
    case False
    then have "parent_ok (perms db) q" "\<not> row0 q" using wf qs by (auto simp: auth_wf_def row0_def)
    then have p: "po_parent q < j" "tbl_find po_id (po_parent q) (perms db) \<noteq> None"
      using qs by (auto simp: parent_ok_def)
    then have "card (rows_to (perms db) (po_parent q)) < fuel"
      using rows_to_less [OF q p(1)] Suc.prems(1) by linarith
    with Suc.IH [of "po_parent q"] p False q anc show ?thesis by simp
  qed
qed simp

lemma satisfies_ancestor:
  assumes "auth_wf db" and "p \<in> set (perms db)" and "q \<in> set (perms db)" and "po_id p \<noteq> 0"
  shows "satisfies db p q = Inr (po_owner p = po_owner q \<and> ancestor db (po_id p) (po_id q))"
proof -
  have q: "tbl_find po_id (po_id q) (perms db) = Some q"
    using assms(1,3) by (simp add: auth_wf_def tbl_find_Some_iff)
  have anc: "po_id p \<noteq> po_id q \<Longrightarrow> ancestor db (po_id p) (po_id q) \<longleftrightarrow> ancestor db (po_id p) (po_parent q)"
    using q by (subst ancestor_simps) auto
  have par: "tbl_find po_id (po_parent q) (perms db) \<noteq> None"
    using assms(1,3) by (auto simp: auth_wf_def parent_ok_def row0_def)
  have "card (rows_to (perms db) (po_parent q)) \<le> card (set (perms db))"
    by (rule card_mono) (auto simp: rows_to_def)
  also have "\<dots> \<le> length (perms db)" by (rule card_length)
  finally have "card (rows_to (perms db) (po_parent q)) < Suc (length (perms db))" by simp
  with satisfies_walk_eq [OF assms(1,4) this par] anc show ?thesis
    by (cases "po_id p = po_id q") (auto simp: satisfies_def ancestor_refl)
qed

text \<open>
  C33 (functional). For rows of a well-formed permission table the walk of \<open>satisfies\<close> ends, never
  leaves the table, and answers whether the first permission is the second or one of
  its ancestors, within one account.
\<close>

theorem satisfies_iff_ancestor:
  assumes "auth_wf db" and "p \<in> set (perms db)" and "q \<in> set (perms db)" and "po_id p \<noteq> 0"
  shows "satisfies db p q = Inr (po_owner p = po_owner q \<and> ancestor db (po_id p) (po_id q))"
  using assms by (rule satisfies_ancestor)

section \<open>The operations keep the tree\<close>

lemma auth_wf_initialize: "auth_wf auth_initialize_database"
  by (simp add: auth_wf_def auth_initialize_database_def parent_ok_def row0_def tbl_unique_def)

lemma parent_ok_mono:
  assumes "parent_ok ps p"
    and "\<And>j q. tbl_find po_id j ps = Some q \<Longrightarrow> \<exists>q'. tbl_find po_id j ps' = Some q' \<and> po_owner q' = po_owner q"
  shows "parent_ok ps' p"
proof (cases "row0 p")
  case False
  with assms(1) obtain q where "po_parent p < po_id p" "po_owner p \<noteq> 0" "tbl_find po_id (po_parent p) ps = Some q"
      "po_parent p \<noteq> 0 \<longrightarrow> po_owner q = po_owner p"
    by (auto simp: parent_ok_def)
  with assms(2) [of "po_parent p" q] show ?thesis by (auto simp: parent_ok_def)
qed (simp add: parent_ok_def)

lemma create_permission_spec:
  assumes wf: "auth_wf db" and c: "create_permission now db account nm parent auth t0 = Inr (db', p)"
    and acc: "account \<noteq> 0"
    and par: "parent = 0 \<or> (\<exists>q. tbl_find po_id parent (perms db) = Some q \<and> po_owner q = account)"
  shows "auth_wf db' \<and> po_auth p = auth \<and> po_parent p = parent \<and>
     (\<forall>k. tbl_find by_owner k (perms db') = (if k = (account, nm) then Some p else tbl_find by_owner k (perms db)))"
proof -
  have free: "tbl_find by_owner (account, nm) (perms db) = None" and p: "po_id p = perm_next_id db" "po_parent p = parent"
      "po_owner p = account" "po_name p = nm" "po_auth p = auth"
    and ps: "perms db' = perms db @ [p]" "perm_next_id db' = perm_next_id db + 1"
    using c by (auto simp: create_permission_def Let_def tbl_create_Inr_iff by_owner_def)
  have new: "tbl_find po_id (perm_next_id db) (perms db) = None"
    using wf by (auto simp: auth_wf_def tbl_find_None_iff)
  have old: "tbl_find po_id j (perms db @ [p]) = (if j = perm_next_id db then Some p else tbl_find po_id j (perms db))" for j
    using new by (auto simp: tbl_find_append p split: option.splits)
  obtain z where z: "tbl_find po_id 0 (perms db) = Some z" "row0 z" using wf by (auto simp: auth_wf_def)
  have pos: "0 < perm_next_id db" using wf tbl_find_SomeD [OF z(1)] by (auto simp: auth_wf_def)
  have keep: "\<exists>q'. tbl_find po_id j (perms db @ [p]) = Some q' \<and> po_owner q' = po_owner q"
    if "tbl_find po_id j (perms db) = Some q" for j q
    unfolding old using that new by auto
  have rows: "\<forall>r \<in> set (perms db). po_id r < perm_next_id db \<and> parent_ok (perms db) r"
    using wf by (simp add: auth_wf_def)
  have "parent_ok (perms db @ [p]) r" if "r \<in> set (perms db)" for r
    using rows that keep parent_ok_mono [of "perms db" r "perms db @ [p]"] by blast
  moreover have "parent_ok (perms db @ [p]) p"
  proof (cases "parent = 0")
    case True
    then show ?thesis using acc p pos z by (simp add: parent_ok_def old)
  next
    case False
    then obtain q where q: "tbl_find po_id parent (perms db) = Some q" "po_owner q = account" using par by blast
    have "parent < perm_next_id db" using wf tbl_find_SomeD [OF q(1)] by (auto simp: auth_wf_def)
    with q acc p show ?thesis by (simp add: parent_ok_def old)
  qed
  moreover have "tbl_unique po_id (perms db @ [p])" "tbl_unique by_owner (perms db @ [p])"
    using wf new free p by (simp_all add: auth_wf_def tbl_unique_snoc by_owner_def)
  ultimately have "auth_wf db'"
    using wf z pos p by (auto simp: auth_wf_def ps old less_Suc_eq)
  moreover have "tbl_find by_owner k (perms db') = (if k = (account, nm) then Some p else tbl_find by_owner k (perms db))" for k
    using free p by (auto simp: ps tbl_find_append by_owner_def split: option.splits)
  ultimately show ?thesis using p by simp
qed

lemma modify_permission_wf:
  assumes "auth_wf db"
  shows "auth_wf (modify_permission now db p auth)"
proof -
  let ?g = "\<lambda>po. po\<lparr>po_auth := auth, po_last_updated := now\<rparr>"
  let ?m = "tbl_modify po_id (po_id p) ?g (perms db)"
  have f: "tbl_find po_id j ?m = (if j = po_id p then map_option ?g (tbl_find po_id j (perms db)) else tbl_find po_id j (perms db))" for j
    by (subst tbl_find_modify) auto
  have po: "parent_ok ?m r" if "parent_ok (perms db) r" for r
    using that by (rule parent_ok_mono) (auto simp: f)
  have g: "parent_ok ps (?g r) = parent_ok ps r" for ps r
    by (simp add: parent_ok_def row0_def)
  have "map by_owner ?m = map by_owner (perms db)" "map po_id ?m = map po_id (perms db)"
    by (simp_all add: tbl_modify_def by_owner_def)
  then have "tbl_unique po_id ?m" "tbl_unique by_owner ?m"
    using assms by (simp_all add: auth_wf_def tbl_unique_def)
  moreover have "po_id r < perm_next_id db \<and> parent_ok ?m r" if "r \<in> set ?m" for r
    using that assms po by (auto simp: tbl_modify_def auth_wf_def g split: if_splits)
  moreover have "\<exists>z. tbl_find po_id 0 ?m = Some z \<and> row0 z"
    using assms by (auto simp: f auth_wf_def row0_def)
  ultimately show ?thesis by (simp add: modify_permission_def auth_wf_def)
qed

lemma remove_permission_wf:
  assumes wf: "auth_wf db" and "remove_permission db p = Inr db'" and "p \<in> set (perms db)" and "po_id p \<noteq> 0"
  shows "auth_wf db'"
proof -
  let ?m = "tbl_remove po_id (po_id p) (perms db)"
  have nochild: "\<forall>r \<in> set (perms db). po_parent r \<noteq> po_id p" and db': "perms db' = ?m" "perm_next_id db' = perm_next_id db"
    using assms(2) by (auto simp: remove_permission_def list_ex_iff)
  have "parent_ok ?m r" if "r \<in> set (perms db)" for r
    using that wf nochild by (auto simp: auth_wf_def parent_ok_def tbl_find_remove)
  moreover have "tbl_unique po_id ?m" "tbl_unique by_owner ?m"
    using wf by (simp_all add: auth_wf_def tbl_unique_remove tbl_unique_def tbl_remove_def distinct_map_filter)
  moreover have "set ?m \<subseteq> set (perms db)" by (auto simp: tbl_remove_def)
  ultimately show ?thesis
    using wf assms(4) by (auto simp: auth_wf_def db' tbl_find_remove)
qed

lemma get_permissionD:
  assumes "auth_wf db" and "get_permission db l = Inr p"
  shows "p \<in> set (perms db) \<and> po_owner p = actor l \<and> po_name p = permission l \<and> po_owner p \<noteq> 0 \<and> po_id p \<noteq> 0"
proof -
  have p: "tbl_find by_owner (actor l, permission l) (perms db) = Some p" "actor l \<noteq> 0"
    using assms(2) by (auto simp: get_permission_def split: if_splits option.splits)
  have ps: "p \<in> set (perms db)" "po_owner p = actor l" "po_name p = permission l"
    using tbl_find_SomeD [OF p(1)] by (auto simp: by_owner_def)
  obtain z where z: "tbl_find po_id 0 (perms db) = Some z" "row0 z" using assms(1) by (auto simp: auth_wf_def)
  have "po_id p \<noteq> 0"
  proof
    assume "po_id p = 0"
    then have "tbl_find po_id 0 (perms db) = Some p"
      using ps(1) assms(1) by (simp add: auth_wf_def tbl_find_Some_iff)
    with z ps(2) p(2) show False by (simp add: row0_def)
  qed
  with ps p(2) show ?thesis by simp
qed

text \<open>
  The calls of the manager that change its tables.  A new permission belongs to an account and
  hangs below a permission of that account or has no parent; the other calls take a permission
  that was looked up.
\<close>

inductive perm_step :: "'k auth_db \<Rightarrow> 'k auth_db \<Rightarrow> bool" where
  step_create_root:
    "create_permission now db account nm 0 auth t0 = Inr (db', p) \<Longrightarrow> account \<noteq> 0 \<Longrightarrow> perm_step db db'"
| step_create_child:
    "get_permission db (permission_level account parent_name) = Inr q \<Longrightarrow>
     create_permission now db account nm (po_id q) auth t0 = Inr (db', p) \<Longrightarrow> perm_step db db'"
| step_modify: "get_permission db l = Inr p \<Longrightarrow> perm_step db (modify_permission now db p auth)"
| step_remove: "get_permission db l = Inr p \<Longrightarrow> remove_permission db p = Inr db' \<Longrightarrow> perm_step db db'"
| step_usage: "get_permission db l = Inr p \<Longrightarrow> update_permission_usage now db p = Inr db' \<Longrightarrow> perm_step db db'"

lemma perm_step_wf: "perm_step db db' \<Longrightarrow> auth_wf db \<Longrightarrow> auth_wf db'"
proof (induction rule: perm_step.induct)
  case (step_create_root now db account nm auth t0 db' p)
  then show ?case using create_permission_spec [of db now account nm 0 auth t0 db' p] by simp
next
  case (step_create_child db account parent_name q now nm auth t0 db' p)
  note q = get_permissionD [OF step_create_child(3,1)]
  have "tbl_find po_id (po_id q) (perms db) = Some q"
    using q step_create_child(3) by (simp add: auth_wf_def tbl_find_Some_iff)
  with q show ?case
    using create_permission_spec [OF step_create_child(3,2)] by auto
next
  case (step_modify db l p now auth)
  then show ?case by (simp add: modify_permission_wf)
next
  case (step_remove db l p db')
  then show ?case using get_permissionD [of db l p] remove_permission_wf by blast
next
  case (step_usage db l p now db')
  then show ?case by (auto simp: update_permission_usage_def auth_wf_def)
qed

text \<open>
  C22 (invariant). In every state reached from the initial tables the ids and the pairs of account
  and permission name are unique, and the parent of a permission is the reserved row or an older
  permission of the same account that is still there: the permissions of an account form a forest.
\<close>

theorem auth_wf_reachable:
  assumes "perm_step\<^sup>*\<^sup>* auth_initialize_database db"
  shows "auth_wf db"
  using assms by (induction rule: rtranclp_induct) (auto intro: perm_step_wf auth_wf_initialize)

section \<open>A transaction that passes\<close>

lemma perm_ok_delay_mono:
  fixes c :: "'k checker"
  assumes "d \<le> d'"
  shows "perm_ok (c\<lparr>provided_delay := d\<rparr>) p \<Longrightarrow> perm_ok (c\<lparr>provided_delay := d'\<rparr>) p"
    and "auth_ok (c\<lparr>provided_delay := d\<rparr>) a \<Longrightarrow> auth_ok (c\<lparr>provided_delay := d'\<rparr>) a"
    and "entry_ok (c\<lparr>provided_delay := d\<rparr>) e \<Longrightarrow> entry_ok (c\<lparr>provided_delay := d'\<rparr>) e"
  using assms
  by (induction rule: perm_ok_auth_ok_entry_ok.inducts)
     (auto intro: perm_ok_auth_ok_entry_ok.intros)

lemma make_checker_named: "no_empty_permission (make_checker env db keys permissions delay)"
  by (simp add: no_empty_permission_def make_checker_def get_permission_def)

text \<open>The map of permissions to satisfy: every declared permission is in it, with at most its delay.\<close>

lemma pts_emplace_covers:
  "\<exists>e \<le> d. (p, e) \<in> set (pts_emplace p d m)"
  "(q, e) \<in> set m \<Longrightarrow> \<exists>e' \<le> e. (q, e') \<in> set (pts_emplace p d m)"
  by (induction p d m rule: pts_emplace.induct) (auto simp: not_less intro: order_less_imp_le)

definition covered :: "permission_level list \<Rightarrow> (permission_level \<times> int) list \<Rightarrow> int \<Rightarrow> permission_level \<Rightarrow> bool" where
  "covered sat m d p \<longleftrightarrow> p \<in> set sat \<or> (\<exists>e \<le> d. (p, e) \<in> set m)"

definition submap :: "(permission_level \<times> int) list \<Rightarrow> (permission_level \<times> int) list \<Rightarrow> bool" where
  "submap m m' \<longleftrightarrow> (\<forall>q e. (q, e) \<in> set m \<longrightarrow> (\<exists>e' \<le> e. (q, e') \<in> set m'))"

lemma submap_refl [simp]: "submap m m"
  and submap_trans: "submap m m' \<Longrightarrow> submap m' m'' \<Longrightarrow> submap m m''"
  and submap_emplace: "submap m (pts_emplace p d m)"
  and covered_submap: "covered sat m d p \<Longrightarrow> submap m m' \<Longrightarrow> covered sat m' d p"
  unfolding submap_def covered_def using pts_emplace_covers(2) by (blast | meson order_trans)+

text \<open>The minimum permission of an action is satisfied by the declared one.\<close>

definition minimum_ok :: "'k auth_db \<Rightarrow> 'd action \<Rightarrow> permission_level \<Rightarrow> bool" where
  "minimum_ok db act declared \<longleftrightarrow>
     lookup_minimum_permission db (actor declared) (act_account act) (act_name act) = Inr None \<or>
     (\<exists>nm m p. lookup_minimum_permission db (actor declared) (act_account act) (act_name act) = Inr (Some nm) \<and>
        get_permission db (permission_level (actor declared) nm) = Inr m \<and>
        get_permission db declared = Inr p \<and> satisfies db p m = Inr True)"

lemma require_satisfies_iff:
  "require_satisfies db auth m = Inr () \<longleftrightarrow> (\<exists>p. get_permission db auth = Inr p \<and> satisfies db p m = Inr True)"
  by (auto simp: require_satisfies_def)

lemma check_declared_sound:
  "check_declared env db sat act special delay auths (k, m) = Inr (k', m') \<Longrightarrow>
     submap m m' \<and> (\<forall>d \<in> set auths. covered sat m' delay d \<and> (\<not> special \<longrightarrow> minimum_ok db act d))"
proof (induction auths arbitrary: k m)
  case (Cons declared auths)
  let ?m1 = "if declared \<in> set sat then m else pts_emplace declared delay m"
  have rest: "check_declared env db sat act special delay auths (Suc k, ?m1) = Inr (k', m')"
    using Cons.prems by (auto split: if_splits)
  have chk: "\<not> special \<longrightarrow> minimum_ok db act declared"
  proof (cases "lookup_minimum_permission db (actor declared) (act_account act) (act_name act)")
    case (Inr x)
    then show ?thesis using Cons.prems by (cases x) (auto simp: minimum_ok_def require_satisfies_iff)
  qed (use Cons.prems in auto)
  have ih: "submap ?m1 m' \<and> (\<forall>d \<in> set auths. covered sat m' delay d \<and> (\<not> special \<longrightarrow> minimum_ok db act d))"
    by (rule Cons.IH [OF rest])
  have "submap m ?m1" by (simp add: submap_emplace)
  moreover have "covered sat ?m1 delay declared"
    using pts_emplace_covers(1) [of delay declared m] by (simp add: covered_def)
  ultimately show ?case
    using ih chk covered_submap [of sat ?m1 delay declared m'] submap_trans [of m ?m1 m'] by auto
qed simp

text \<open>What holds of an action whose checks have passed, with the delay that applied to it.\<close>

definition action_ok :: "('d, 'k, 't, 'b) auth_env \<Rightarrow> 'k auth_db \<Rightarrow> permission_level list \<Rightarrow>
    (permission_level \<times> int) list \<Rightarrow> int \<Rightarrow> 'd action \<Rightarrow> bool" where
  "action_ok env db sat m delay act \<longleftrightarrow>
     (\<exists>special d. check_native env db delay act = Inr (special, d) \<and>
       (\<forall>declared \<in> set (act_authorization act).
          covered sat m d declared \<and> (\<not> special \<longrightarrow> minimum_ok db act declared)))"

lemma action_ok_submap: "action_ok env db sat m delay act \<Longrightarrow> submap m m' \<Longrightarrow> action_ok env db sat m' delay act"
  unfolding action_ok_def using covered_submap by blast

lemma check_actions_sound:
  "check_actions env db sat delay acts (k, m) = Inr (k', m') \<Longrightarrow>
     submap m m' \<and> (\<forall>act \<in> set acts. action_ok env db sat m' delay act)"
proof (induction acts arbitrary: k m)
  case (Cons act acts)
  obtain special d k1 m1 where n: "check_native env db delay act = Inr (special, d)"
    and c: "check_declared env db sat act special d (act_authorization act) (k, m) = Inr (k1, m1)"
    and rest: "check_actions env db sat delay acts (k1, m1) = Inr (k', m')"
    using Cons.prems by auto
  note one = check_declared_sound [OF c]
  have "action_ok env db sat m1 delay act"
    using n one by (auto simp: action_ok_def)
  with Cons.IH [OF rest] one show ?case
    by (auto intro: submap_trans action_ok_submap)
qed simp

lemma satisfy_all_sound:
  "satisfy_all env c m (k, used) = Inr used' \<Longrightarrow> no_empty_permission c \<Longrightarrow>
     \<forall>(p, d) \<in> set m. perm_ok (c\<lparr>provided_delay := d\<rparr>) p"
proof (induction m arbitrary: k used)
  case (Cons pd m)
  obtain p d where pd: "pd = (p, d)" by (cases pd)
  obtain used1 where s: "satisfied_permission (c\<lparr>provided_delay := d\<rparr>) p used = Inr (True, used1)"
    and rest: "satisfy_all env c m (Suc k, used1) = Inr used'"
    using Cons.prems(1) by (auto simp: pd satisfied_permission_delay_def split: if_splits)
  have "no_empty_permission (c\<lparr>provided_delay := d\<rparr>)"
    using Cons.prems(2) by (simp add: no_empty_permission_def)
  from satisfied_permission_ok [OF this s] Cons.IH [OF rest Cons.prems(2)] show ?case by (simp add: pd)
qed simp

text \<open>
  C11 (safety). If a transaction passes \<open>check_authorization\<close>, then every authorization declared by
  each of its actions is already satisfied or is satisfied by the provided keys and permissions
  under the delay of that action, and unless the action is one of the native ones, which have their
  own checks, the declared permission is the minimum permission of the action or an
  ancestor of it, where an action linked to \<open>eosio.any\<close> has no minimum.
\<close>

theorem check_authorization_sound:
  assumes "check_authorization env db actions keys permissions delay allow_unused sat = Inr ()"
    and "act \<in> set actions" and "declared \<in> set (act_authorization act)"
  shows "\<exists>special d. check_native env db (effective_delay env delay) act = Inr (special, d) \<and>
     (declared \<in> set sat \<or> perm_ok (make_checker env db keys permissions d) declared) \<and>
     (\<not> special \<longrightarrow> minimum_ok db act declared)"
proof -
  let ?c = "make_checker env db keys permissions"
  let ?eff = "effective_delay env delay"
  obtain k m used where a: "check_actions env db sat ?eff actions (0, []) = Inr (k, m)"
    and s: "satisfy_all env (?c ?eff) m (k, initial_used_keys (?c ?eff)) = Inr used"
    using assms(1) by (auto simp: check_authorization_def Let_def)
  obtain special d where n: "check_native env db ?eff act = Inr (special, d)"
    and cov: "covered sat m d declared" "\<not> special \<longrightarrow> minimum_ok db act declared"
    using check_actions_sound [OF a] assms(2,3) by (auto simp: action_ok_def)
  have upd: "(?c ?eff)\<lparr>provided_delay := x\<rparr> = ?c x" for x by (simp add: make_checker_def)
  have "perm_ok (?c d) declared" if "(declared, e) \<in> set m" "e \<le> d" for e
    using satisfy_all_sound [OF s make_checker_named] that perm_ok_delay_mono(1) [OF that(2), of "?c ?eff"]
    by (fastforce simp: upd)
  with n cov show ?thesis by (auto simp: covered_def)
qed

section \<open>Witnesses\<close>

text \<open>Account 5 with its owner permission (key 10) and, below it, its active permission (key 11).\<close>

definition sample_owner :: "nat permission_object" where
  "sample_owner = \<lparr>po_id = 1, po_usage_id = 0, po_parent = 0, po_owner = 5, po_name = owner_name,
     po_last_updated = 9, po_auth = authority_of_key 10 0\<rparr>"

definition sample_active :: "nat permission_object" where
  "sample_active = \<lparr>po_id = 2, po_usage_id = 1, po_parent = 1, po_owner = 5, po_name = active_name,
     po_last_updated = 9, po_auth = authority_of_key 11 0\<rparr>"

definition sample_owner_db :: "nat auth_db" where
  "sample_owner_db = auth_initialize_database
     \<lparr>perms := perms auth_initialize_database @ [sample_owner], perm_next_id := 2,
      usages := [\<lparr>pu_id = 0, last_used = 9\<rparr>], usage_next_id := 1\<rparr>"

definition sample_auth_db :: "nat auth_db" where
  "sample_auth_db = sample_owner_db
     \<lparr>perms := perms sample_owner_db @ [sample_active], perm_next_id := 3,
      usages := usages sample_owner_db @ [\<lparr>pu_id = 1, last_used = 9\<rparr>], usage_next_id := 2\<rparr>"

lemmas sample_auth_defs = sample_auth_db_def sample_owner_db_def sample_owner_def sample_active_def
  auth_initialize_database_def system_name_values

lemma sample_auth_reachable: "perm_step\<^sup>*\<^sup>* auth_initialize_database sample_auth_db"
proof -
  have "create_permission 9 auth_initialize_database 5 owner_name 0 (authority_of_key 10 0) 0 =
      Inr (sample_owner_db, sample_owner)"
    by (simp add: create_permission_def Let_def tbl_create_def by_owner_def sample_auth_defs)
  then have "perm_step auth_initialize_database sample_owner_db" by (rule step_create_root) simp
  moreover have "get_permission sample_owner_db (permission_level 5 owner_name) = Inr sample_owner"
    by (simp add: get_permission_def tbl_find_def by_owner_def sample_auth_defs)
  moreover have "create_permission 9 sample_owner_db 5 active_name (po_id sample_owner) (authority_of_key 11 0) 0 =
      Inr (sample_auth_db, sample_active)"
    by (simp add: create_permission_def Let_def tbl_create_def tbl_find_def by_owner_def sample_auth_defs)
  ultimately show ?thesis by (meson converse_rtranclp_into_rtranclp rtranclp.rtrancl_refl step_create_child)
qed

lemma sample_auth_wf: "auth_wf sample_auth_db"
  using sample_auth_reachable by (induction rule: rtranclp_induct) (auto intro: perm_step_wf auth_wf_initialize)

theorem auth_wf_reachable_witness: "auth_wf sample_auth_db"
  by (rule auth_wf_reachable [OF sample_auth_reachable])

theorem satisfies_iff_ancestor_witness:
  "satisfies sample_auth_db sample_owner sample_active = Inr (ancestor sample_auth_db 1 2)"
  using satisfies_iff_ancestor [OF sample_auth_wf, of sample_owner sample_active] by (simp add: sample_auth_defs)

text \<open>An action of contract 9 that declares the active permission of account 5, signed with key 11.\<close>

definition sample_env :: "(unit, nat, nat, unit) auth_env" where
  "sample_env = \<lparr>max_transaction_delay = 3888000, max_authority_depth = 6, fix_linkauth_restriction = False,
     deferred_trxs = [], unpack_auths = (\<lambda>_. Inr []), unpack_updateauth = (\<lambda>_. Inl undefined_behaviour),
     unpack_deleteauth = (\<lambda>_. Inl undefined_behaviour), unpack_linkauth = (\<lambda>_. Inl undefined_behaviour),
     unpack_unlinkauth = (\<lambda>_. Inl undefined_behaviour), unpack_canceldelay = (\<lambda>_. Inl undefined_behaviour),
     checktime = (\<lambda>_. Inr ())\<rparr>"

definition sample_action :: "unit action" where
  "sample_action = \<lparr>act_account = 9, act_name = 3, act_authorization = [permission_level 5 active_name], act_data = ()\<rparr>"

lemma sample_check: "check_authorization sample_env sample_auth_db [sample_action] [11] [] 0 False [] = Inr ()"
  by (simp add: check_authorization_def check_native_def effective_delay_def lookup_minimum_permission_def
        lookup_linked_permission_def get_permission_def require_satisfies_def satisfies_def by_owner_def tbl_find_def
        satisfied_permission_delay_def satisfied_permission_def visit_account.simps satisfied_authority.simps
        make_checker_def initial_used_keys_def permission_status_in_cache_def initialize_permission_cache_def
        meta_permissions_def visit_key_def authority_of_key_def add_delay_def all_keys_used_def Let_def
        sample_env_def sample_action_def sample_auth_defs del: bind_res_Inr_iff EOS_ASSERT_Inr_iff)

theorem check_authorization_sound_witness:
  "perm_ok (make_checker sample_env sample_auth_db [11] [] 0) (permission_level 5 active_name) \<and>
     minimum_ok sample_auth_db sample_action (permission_level 5 active_name)"
  using check_authorization_sound [OF sample_check, of sample_action "permission_level 5 active_name"]
  by (auto simp: check_native_def effective_delay_def sample_env_def sample_action_def system_name_values)

end
