(* ===== verification/Apply_Context.thy ===== *)
theory Apply_Context
  imports Authorization Resource_Billing
begin

text \<open>
  What the handlers of an action see of their \<open>apply_context\<close>
  (\<^verbatim>\<open>libraries/chain/apply_context.cpp\<close>): the authorizations of the action, and the RAM account
  that every change of the state is charged to.  The contract \<open>ram_ledger\<close> says what the handlers
  rely on: a charge changes the usage of the payer by exactly its delta and of nobody else.
  The check of the deadline at every tenth RAM delta depends on the clock and is left out.
\<close>

section \<open>Authorizations of the action\<close>

definition has_authorization :: "'d action \<Rightarrow> u64 \<Rightarrow> bool" where
  "has_authorization act account = list_ex (\<lambda>auth. actor auth = account) (act_authorization act)"

definition require_authorization :: "'d action \<Rightarrow> u64 \<Rightarrow> unit res" where
  "require_authorization act account =
     EOS_ASSERT (list_ex (\<lambda>auth. actor auth = account) (act_authorization act)) missing_auth_exception (Inr ())"

definition require_authorization_permission :: "'d action \<Rightarrow> u64 \<Rightarrow> u64 \<Rightarrow> unit res" where
  "require_authorization_permission act account perm =
     EOS_ASSERT (list_ex (\<lambda>auth. actor auth = account \<and> permission auth = perm) (act_authorization act))
       missing_auth_exception (Inr ())"

lemma require_authorization_Inr_iff [simp]: "require_authorization act a = Inr u \<longleftrightarrow> has_authorization act a"
  by (auto simp: require_authorization_def has_authorization_def)

section \<open>Charging RAM\<close>

text \<open>
  The part of the context a charge goes to: the resource tables, the sorted deltas of the action
  (\<open>_account_ram_deltas\<close>) and the accounts whose limit the transaction verifies at its end.
\<close>

record ram_ctx =
  resources :: resource_db
  account_ram_deltas :: "(u64 \<times> int) list"
  validate_ram_usage :: "u64 list"

fun delta_add :: "u64 \<Rightarrow> int \<Rightarrow> (u64 \<times> int) list \<Rightarrow> (u64 \<times> int) list" where
  "delta_add account d [] = [(account, d)]"
| "delta_add account d ((b, e) # ds) =
     (if b = account then (b, e + d) # ds
      else if account < b then (account, d) # (b, e) # ds
      else (b, e) # delta_add account d ds)"

definition trx_add_ram_usage :: "'z ram_ctx_scheme \<Rightarrow> u64 \<Rightarrow> int \<Rightarrow> 'z ram_ctx_scheme res" where
  "trx_add_ram_usage ctx account ram_delta =
     bind_res (add_pending_ram_usage (resources ctx) account ram_delta) (\<lambda>rl.
       Inr (ctx\<lparr>resources := rl,
                validate_ram_usage := (if ram_delta > 0 then insort_insert account (validate_ram_usage ctx)
                                       else validate_ram_usage ctx)\<rparr>))"

definition add_ram_usage :: "'z ram_ctx_scheme \<Rightarrow> u64 \<Rightarrow> int \<Rightarrow> 'z ram_ctx_scheme res" where
  "add_ram_usage ctx account ram_delta =
     bind_res (trx_add_ram_usage ctx account ram_delta) (\<lambda>ctx.
       Inr (ctx\<lparr>account_ram_deltas := delta_add account ram_delta (account_ram_deltas ctx)\<rparr>))"

text \<open>
  What a handler reads of its context: the receiver, the action, whether the receiver is
  privileged, and what it asks the controller about RAM billing.
\<close>

record 'd apply_info =
  receiver :: u64
  the_action :: "'d action"
  privileged :: bool
  ram_restrictions :: bool
  ram_billing_in_notify_allowed :: bool

definition update_db_usage :: "'d apply_info \<Rightarrow> 'z ram_ctx_scheme \<Rightarrow> u64 \<Rightarrow> int \<Rightarrow> 'z ram_ctx_scheme res" where
  "update_db_usage info ctx payer delta =
     bind_res
       (if delta > 0 \<and> \<not> (privileged info \<or> payer = receiver info \<or> ram_restrictions info)
        then EOS_ASSERT (ram_billing_in_notify_allowed info \<or> receiver info = act_account (the_action info))
               subjective_block_production_exception
               (require_authorization (the_action info) payer)
        else Inr ())
       (\<lambda>_. add_ram_usage ctx payer delta)"

text \<open>
  The check of \<open>exec_one\<close> over the deltas of an unprivileged action once the protocol feature
  \<open>ram_restrictions\<close> is active.
\<close>

fun check_ram_deltas :: "'d apply_info \<Rightarrow> (u64 \<times> int) list \<Rightarrow> unit res" where
  "check_ram_deltas info [] = Inr ()"
| "check_ram_deltas info ((account, d) # ds) =
     (if d > 0 \<and> account \<noteq> receiver info
      then EOS_ASSERT (receiver info = act_account (the_action info)) unauthorized_ram_usage_increase
             (EOS_ASSERT (has_authorization (the_action info) account) unauthorized_ram_usage_increase
               (check_ram_deltas info ds))
      else check_ram_deltas info ds)"

section \<open>The ledger\<close>

locale ram_ledger =
  fixes charge :: "'s \<Rightarrow> u64 \<Rightarrow> int \<Rightarrow> 's res" and billed :: "'s \<Rightarrow> u64 \<Rightarrow> int"
    and fits :: "int \<Rightarrow> bool"
  assumes charge_exact:
    "charge s a d = Inr s' \<Longrightarrow> fits d \<Longrightarrow> billed s' b = billed s b + (if b = a then d else 0)"
begin

text \<open>If what \<open>b\<close> owes moved by the delta charged, the difference to what is billed is kept.\<close>

lemma charge_keeps:
  assumes "charge s a d = Inr s'" and "fits d" and "owed' = owed + (if b = a then d else 0)"
  shows "billed s' b - owed' = billed s b - owed"
  using charge_exact [OF assms(1,2), of b] assms(3) by simp

lemma move_keeps:
  assumes "charge s p (- d) = Inr s1" and "charge s1 q e = Inr s'" and "fits (- d)" "fits e"
    and "owed' = owed - (if b = p then d else 0) + (if b = q then e else 0)"
  shows "billed s' b - owed' = billed s b - owed"
  using charge_exact [OF assms(1,3), of b] charge_exact [OF assms(2,4), of b] assms(5) by simp

end

definition ram_billed :: "'z ram_ctx_scheme \<Rightarrow> u64 \<Rightarrow> int" where
  "ram_billed ctx a =
     (case tbl_find ru_owner a (usage_tbl (resources ctx)) of None \<Rightarrow> 0 | Some u \<Rightarrow> uint (ram_usage u))"

definition ram_delta_fits :: "int \<Rightarrow> bool" where
  "ram_delta_fits d \<longleftrightarrow> - (2 ^ 63) < d \<and> d < 2 ^ 63"

lemma add_pending_ram_usage_exact:
  assumes "add_pending_ram_usage db a d = Inr db'" and "ram_delta_fits d"
  shows "d = 0 \<and> db' = db \<or> (\<exists>u. tbl_find ru_owner a (usage_tbl db) = Some u \<and>
     db' = put_usage db (u\<lparr>ram_usage := ram_usage u + word_of_int d\<rparr>) \<and>
     uint (ram_usage u + word_of_int d) = uint (ram_usage u) + d)"
proof (cases "d = 0")
  case False
  then obtain u where u: "tbl_find ru_owner a (usage_tbl db) = Some u"
      "db' = put_usage db (u\<lparr>ram_usage := ram_usage u + word_of_int d\<rparr>)"
      "(d \<le> 0 \<or> word_of_int d \<le> UINT64_MAX - ram_usage u) \<and> (0 \<le> d \<or> word_of_int (- d) \<le> ram_usage u)"
    using assms(1) by (auto simp: add_pending_ram_usage_def)
  have "0 \<le> uint (ram_usage u) + d \<and> uint (ram_usage u) + d < 2 ^ 64"
    using ram_delta_checks [of d "ram_usage u"] u(3) assms(2) by (auto simp: ram_delta_fits_def in_i64_def)
  then have "uint (ram_usage u + word_of_int d) = uint (ram_usage u) + d"
    by (simp add: uint_word_ariths uint_word_of_int mod_simps)
  with u show ?thesis by blast
qed (use assms in \<open>simp add: add_pending_ram_usage_def\<close>)

lemma trx_add_ram_usage_exact:
  assumes "trx_add_ram_usage ctx a d = Inr ctx'" and "ram_delta_fits d"
  shows "ram_billed ctx' b = ram_billed ctx b + (if b = a then d else 0)"
proof -
  obtain rl where rl: "add_pending_ram_usage (resources ctx) a d = Inr rl" "resources ctx' = rl"
    using assms(1) by (auto simp: trx_add_ram_usage_def)
  consider "d = 0" "rl = resources ctx"
    | u where "tbl_find ru_owner a (usage_tbl (resources ctx)) = Some u"
        "rl = put_usage (resources ctx) (u\<lparr>ram_usage := ram_usage u + word_of_int d\<rparr>)"
        "uint (ram_usage u + word_of_int d) = uint (ram_usage u) + d"
    using add_pending_ram_usage_exact [OF rl(1) assms(2)] by blast
  then show ?thesis
  proof cases
    case 2
    then show ?thesis
      using find_put_usage [of "u\<lparr>ram_usage := ram_usage u + word_of_int d\<rparr>" "resources ctx" u b]
        tbl_find_SomeD [OF 2(1)]
      by (simp add: ram_billed_def rl(2))
  qed (simp add: ram_billed_def rl(2))
qed

interpretation trx_ledger: ram_ledger trx_add_ram_usage ram_billed ram_delta_fits
  by unfold_locales (rule trx_add_ram_usage_exact)

lemma add_ram_usage_exact:
  assumes "add_ram_usage ctx a d = Inr ctx'" and "ram_delta_fits d"
  shows "ram_billed ctx' b = ram_billed ctx b + (if b = a then d else 0)"
proof -
  obtain c where "trx_add_ram_usage ctx a d = Inr c" "ram_billed ctx' b = ram_billed c b"
    using assms(1) by (auto simp: add_ram_usage_def ram_billed_def)
  then show ?thesis using trx_ledger.charge_exact [OF _ assms(2), of ctx a c b] by simp
qed

interpretation ledger: ram_ledger add_ram_usage ram_billed ram_delta_fits
  by unfold_locales (rule add_ram_usage_exact)

lemma update_db_usage_exact:
  assumes "update_db_usage info ctx a d = Inr ctx'" and "ram_delta_fits d"
  shows "ram_billed ctx' b = ram_billed ctx b + (if b = a then d else 0)"
  using assms by (intro add_ram_usage_exact) (simp_all add: update_db_usage_def)

interpretation db_ledger: ram_ledger "update_db_usage info" ram_billed ram_delta_fits for info
  by unfold_locales (rule update_db_usage_exact)

end
