(* ===== verification/Block_Time.thy ===== *)
theory Block_Time
  imports Chain_Prelude "HOL-Library.Signed_Division"
begin

text \<open>
  Block timestamps, \<^verbatim>\<open>libraries/chain/include/eosio/chain/block_timestamp.hpp\<close>: the number of
  2000 ms slots since the year 2000 as an unsigned 32-bit integer, and its conversions from and to
  time points, which count microseconds since 1970 in a signed 64-bit integer.
\<close>

section \<open>Slots and time points\<close>

definition block_interval_ms :: u64 where "block_interval_ms = 2000"

definition block_timestamp_epoch :: u64 where "block_timestamp_epoch = 946684800000"

definition block_timestamp_maximum :: u32 where "block_timestamp_maximum = 0xffff"

definition block_timestamp_min :: u32 where "block_timestamp_min = 0"

definition timestamp_next :: "u32 \<Rightarrow> u32 res" where
  "timestamp_next slot = EOS_ASSERT (- 1 - slot \<ge> 1) overflow_exception (Inr (slot + 1))"

definition to_time_point :: "u32 \<Rightarrow> int" where
  "to_time_point slot = (uint slot * uint block_interval_ms + uint block_timestamp_epoch) * 1000"

text \<open>
  The division of the signed count truncates towards zero; the subtraction of the epoch is done in
  \<open>uint64_t\<close> and wraps for times before the year 2000; the slot is truncated to 32 bits.
\<close>

definition set_time_point :: "int \<Rightarrow> u32" where
  "set_time_point t =
     ucast ((word_of_int (t sdiv 1000) - block_timestamp_epoch) div block_interval_ms)"

definition set_time_point_sec :: "u32 \<Rightarrow> u32" where
  "set_time_point_sec sec =
     ucast ((ucast sec * 1000 - block_timestamp_epoch) div block_interval_ms)"

section \<open>Round trip\<close>

text \<open>The time points of the slots: whole intervals after the epoch, up to the last slot.\<close>

definition on_slot :: "int \<Rightarrow> bool" where
  "on_slot t \<longleftrightarrow> to_time_point 0 \<le> t \<and> t \<le> to_time_point (- 1) \<and> 2000000 dvd (t - to_time_point 0)"

lemmas time_defs = block_interval_ms_def block_timestamp_epoch_def

lemma to_time_point_eq: "to_time_point s = uint s * 2000000 + 946684800000000"
  by (simp add: to_time_point_def time_defs)

lemma uint_slot_le: "uint (s :: u32) \<le> 4294967295"
  using unsigned_less [of s, where ?'a = int] by simp

lemma set_time_point_floor:
  assumes "to_time_point 0 \<le> t" and "t < to_time_point (- 1) + 2000000"
  shows "uint (set_time_point t) = (t - to_time_point 0) div 2000000"
proof -
  have lo: "946684800000000 \<le> t" and hi: "t < 9536619390000000 + 2000000"
    using assms by (simp_all add: to_time_point_eq unsigned_minus_1_eq_mask mask_eq_exp_minus_1)
  have d: "t sdiv 1000 = t div 1000" using lo by (simp add: signed_divide_int_def sgn_if)
  define m where "m = t div 1000 - 946684800000"
  have m: "0 \<le> m" "m < 8589934592000" using lo hi by (simp_all add: m_def)
  have w: "word_of_int (t sdiv 1000) - block_timestamp_epoch = (word_of_int m :: u64)"
    by (simp add: d m_def time_defs)
  have "uint (word_of_int m :: u64) = m" using m by (simp add: unsigned_of_int take_bit_int_eq_self)
  then have q: "uint (word_of_int m div 2000 :: u64) = m div 2000" by (simp add: uint_div_distrib)
  have "uint (set_time_point t) = take_bit 32 (m div 2000)"
    unfolding set_time_point_def w by (simp add: time_defs unsigned_ucast_eq q)
  also have "\<dots> = m div 2000" using m by (simp add: take_bit_int_eq_self)
  also have "\<dots> = (t - 946684800000000) div 2000000" by (simp add: m_def)
  finally show ?thesis by (simp add: to_time_point_eq)
qed

lemma slot_window:
  assumes "to_time_point 0 \<le> t" and "t < to_time_point (- 1) + 2000000"
  shows "to_time_point (set_time_point t) \<le> t \<and> t < to_time_point (set_time_point t) + 2000000"
proof -
  define d where "d = t - 946684800000000"
  have "uint (set_time_point t) = d div 2000000"
    using set_time_point_floor [OF assms] by (simp add: to_time_point_eq d_def)
  moreover have "d = d div 2000000 * 2000000 + d mod 2000000" by simp
  moreover have "0 \<le> d mod 2000000" "d mod 2000000 < 2000000" by simp_all
  ultimately show ?thesis unfolding to_time_point_eq d_def by linarith
qed

lemma set_to_time_point: "set_time_point (to_time_point s) = s"
proof -
  have "uint (set_time_point (to_time_point s)) = uint s"
    using set_time_point_floor [of "to_time_point s"] uint_slot_le [of s]
    by (simp add: to_time_point_eq unsigned_minus_1_eq_mask mask_eq_exp_minus_1)
  then show ?thesis by (rule unsigned_word_eqI)
qed

lemma on_slot_to_time_point: "on_slot (to_time_point s)"
  using uint_slot_le [of s]
  by (simp add: on_slot_def to_time_point_eq unsigned_minus_1_eq_mask mask_eq_exp_minus_1)

lemma to_set_time_point: "on_slot t \<Longrightarrow> to_time_point (set_time_point t) = t"
  using set_time_point_floor [of t] by (auto simp: on_slot_def to_time_point_eq dvd_def)

interpretation slots: codec to_time_point set_time_point "\<lambda>s. True" on_slot
  by unfold_locales (simp_all add: set_to_time_point on_slot_to_time_point to_set_time_point)

text \<open>
  C34 (roundtrip). Converting a slot to a time point and back gives the slot, the time point of the
  next slot is one interval later, and a time between the epoch and the end of the last slot is
  put in the slot that contains it; the times that survive the conversion to a slot and back are
  exactly the slot times.
\<close>

theorem block_time_roundtrip:
  assumes "to_time_point 0 \<le> t" and "t < to_time_point (- 1) + 2000000"
  shows "set_time_point (to_time_point s) = s \<and>
    (s \<noteq> - 1 \<longleftrightarrow> (\<exists>s'. timestamp_next s = Inr s' \<and> to_time_point s' = to_time_point s + 2000000)) \<and>
    to_time_point (set_time_point t) \<le> t \<and> t < to_time_point (set_time_point t) + 2000000 \<and>
    (to_time_point (set_time_point t) = t \<longleftrightarrow> on_slot t)"
proof (intro conjI)
  show "s \<noteq> - 1 \<longleftrightarrow> (\<exists>s'. timestamp_next s = Inr s' \<and> to_time_point s' = to_time_point s + 2000000)"
  proof
    assume "s \<noteq> - 1"
    then have "unat (1 + s) = Suc (unat s)" by (intro unatSuc) (simp add: add_eq_0_iff)
    then have n: "uint (s + 1) = uint s + 1" by (simp add: uint_nat add.commute del: of_nat_unat)
    then have "uint s \<le> 4294967294" using uint_slot_le [of "s + 1"] by simp
    moreover have "uint (- 1 - s) = (4294967295 - uint s) mod 4294967296"
      by (simp add: uint_word_ariths mask_eq_exp_minus_1)
    moreover have "0 \<le> uint s" by simp
    ultimately have "uint (- 1 - s) \<ge> 1" by (simp add: mod_pos_pos_trivial)
    then have "timestamp_next s = Inr (s + 1)" by (simp add: timestamp_next_def word_le_def)
    then show "\<exists>s'. timestamp_next s = Inr s' \<and> to_time_point s' = to_time_point s + 2000000"
      using n by (simp add: to_time_point_eq)
  qed (auto simp: timestamp_next_def)
  show "to_time_point (set_time_point t) = t \<longleftrightarrow> on_slot t"
    using slots.enc_valid slots.enc_dec by metis
qed (use assms set_to_time_point slot_window in simp_all)

theorem block_time_roundtrip_witness:
  "set_time_point (to_time_point 7) = 7 \<and>
     to_time_point (set_time_point 946684803000000) \<le> 946684803000000 \<and>
     946684803000000 < to_time_point (set_time_point 946684803000000) + 2000000"
proof -
  have "to_time_point 0 \<le> 946684803000000" "946684803000000 < to_time_point (- 1) + 2000000"
    by (simp_all add: to_time_point_eq unsigned_minus_1_eq_mask mask_eq_exp_minus_1)
  from block_time_roundtrip [OF this, of 7] show ?thesis by blast
qed

end
