(* ===== verification/System_Contract.thy ===== *)
theory System_Contract
  imports Apply_Context Authorization_Props Block_Time Merkle
begin

text \<open>
  The native actions of the system account, \<^verbatim>\<open>libraries/chain/eosio_contract.cpp\<close>, with the objects
  of \<^verbatim>\<open>account_object.hpp\<close> and \<^verbatim>\<open>code_object.hpp\<close> and the creation of the genesis accounts in
  \<^verbatim>\<open>controller.cpp\<close>.  Each handler is a function of its context that returns the changed context or
  the exception; after an exception the transaction is undone.  The SHA-256 of contract code, the
  validation of WebAssembly, the serialized size of a key and the unpacking of action data are
  parameters.  Sizes are those of objects in memory and are converted to \<open>int64_t\<close> exactly.
\<close>

section \<open>Objects\<close>

record account_object =
  ao_name :: u64
  ao_creation_date :: u32
  ao_abi :: "u8 list"

record account_metadata_object =
  am_name :: u64
  recv_sequence :: u64
  auth_sequence :: u64
  code_sequence :: u64
  abi_sequence :: u64
  am_code_hash :: digest
  last_code_update :: int
  am_flags :: u32
  am_vm_type :: u8
  am_vm_version :: u8

record code_object =
  co_code_hash :: digest
  co_code :: "u8 list"
  code_ref_count :: u64
  first_block_used :: u32
  co_vm_type :: u8
  co_vm_version :: u8

definition digest_zero :: digest where
  "digest_zero = \<lparr>hash0 = 0, hash1 = 0, hash2 = 0, hash3 = 0\<rparr>"

definition has_field :: "u32 \<Rightarrow> u32 \<Rightarrow> bool" where
  "has_field flags field = (flags AND field \<noteq> 0)"

definition set_field :: "u32 \<Rightarrow> u32 \<Rightarrow> bool \<Rightarrow> u32" where
  "set_field flags field v = (if v then flags OR field else flags AND NOT field)"

definition is_privileged :: "account_metadata_object \<Rightarrow> bool" where
  "is_privileged m = has_field (am_flags m) 1"

definition set_privileged :: "account_metadata_object \<Rightarrow> bool \<Rightarrow> account_metadata_object" where
  "set_privileged m v = m\<lparr>am_flags := set_field (am_flags m) 1 v\<rparr>"

definition account_metadata_default :: "u64 \<Rightarrow> account_metadata_object" where
  "account_metadata_default nm =
     \<lparr>am_name = nm, recv_sequence = 0, auth_sequence = 0, code_sequence = 0, abi_sequence = 0,
      am_code_hash = digest_zero, last_code_update = 0, am_flags = 0, am_vm_type = 0, am_vm_version = 0\<rparr>"

definition by_code_hash :: "code_object \<Rightarrow> digest \<times> u8 \<times> u8" where
  "by_code_hash c = (co_code_hash c, co_vm_type c, co_vm_version c)"

text \<open>The key under which the code of an account is stored.\<close>

definition code_key :: "account_metadata_object \<Rightarrow> digest \<times> u8 \<times> u8" where
  "code_key m = (am_code_hash m, am_vm_type m, am_vm_version m)"

definition by_sender_id :: "('t, 'b) deferred_trx \<Rightarrow> u64 \<times> u128" where
  "by_sender_id g = (dt_sender g, dt_sender_id g)"

record 'k sys_ctx = ram_ctx +
  auths :: "'k auth_db"
  accounts :: "account_object list"
  metadata :: "account_metadata_object list"
  codes :: "code_object list"
  generated_trxs :: "(digest, u8 list) deferred_trx list"

section \<open>Parameters\<close>

record 'k newaccount =
  na_creator :: u64
  na_name :: u64
  na_owner :: "'k authority"
  na_active :: "'k authority"

record setcode =
  sc_account :: u64
  sc_vmtype :: u8
  sc_vmversion :: u8
  sc_code :: "u8 list"

record setabi =
  sa_account :: u64
  sa_abi :: "u8 list"

definition newaccount_name :: u64 where "newaccount_name = string_to_name ''newaccount''"
definition setcode_name :: u64 where "setcode_name = string_to_name ''setcode''"
definition setabi_name :: u64 where "setabi_name = string_to_name ''setabi''"

text \<open>
  Next to what the authorization manager takes from the controller: the time and number of the
  block, whether the black lists are enforced, and the rest of the parameters.
\<close>

record ('d, 'k) sys_env = "('d, 'k, digest, u8 list) auth_env" +
  pending_block_time :: int
  head_block_num :: u32
  enforce_key_blacklist :: bool
  key_blacklist :: "'k list"
  only_link_to_existing_permission :: bool
  key_pack_size :: "'k \<Rightarrow> nat"
  sha256 :: "u8 list \<Rightarrow> digest"
  wasm_validate :: "u8 list \<Rightarrow> unit res"
  unpack_newaccount :: "'d \<Rightarrow> 'k newaccount res"
  unpack_setcode :: "'d \<Rightarrow> setcode res"
  unpack_setabi :: "'d \<Rightarrow> setabi res"

section \<open>Billable sizes\<close>

definition overhead_per_account_ram_bytes :: int where "overhead_per_account_ram_bytes = 2 * 1024"

definition setcode_ram_bytes_multiplier :: int where "setcode_ram_bytes_multiplier = 10"

text \<open>\<open>billable_size_v\<close> of the objects: fixed fields and 32 bytes per index, aligned.\<close>

definition billable_permission_object :: int where
  "billable_permission_object = int (billable_align (billable_align (3 * 16 + 4) + 64 + 5 * 32))"

definition billable_permission_link_object :: int where
  "billable_permission_link_object = int (billable_align (40 + 3 * 32))"

definition billable_generated_transaction_object :: int where
  "billable_generated_transaction_object = int (billable_align (96 + 4 + 5 * 32))"

definition permission_ram :: "('k \<Rightarrow> nat) \<Rightarrow> 'k authority \<Rightarrow> int" where
  "permission_ram sz auth = billable_permission_object + int (get_billable_size sz auth)"

section \<open>Handlers\<close>

definition transaction_id_to_sender_id :: "digest \<Rightarrow> u128" where
  "transaction_id_to_sender_id tid = push_bit 64 (ucast (hash3 tid)) OR ucast (hash2 tid)"

definition check_key_list :: "('d, 'k) sys_env \<Rightarrow> 'k \<Rightarrow> unit res" where
  "check_key_list env key =
     (if length (key_blacklist env) > 0
      then EOS_ASSERT (\<not> List.member (key_blacklist env) key) key_blacklist_exception (Inr ())
      else Inr ())"

fun precondition_accounts :: "'k sys_ctx \<Rightarrow> permission_level_weight list \<Rightarrow> unit res" where
  "precondition_accounts ctx [] = Inr ()"
| "precondition_accounts ctx (a # as) =
     (let p = plw_permission a
      in EOS_ASSERT (tbl_find ao_name (actor p) (accounts ctx) \<noteq> None) action_validate_exception
         (if permission p = owner_name \<or> permission p = active_name \<or> permission p = eosio_code_name
          then precondition_accounts ctx as
          else case get_permission (auths ctx) p of
                 Inl e \<Rightarrow> Inl (if e = permission_query_exception then action_validate_exception else e)
               | Inr _ \<Rightarrow> precondition_accounts ctx as))"

fun precondition_keys :: "('d, 'k) sys_env \<Rightarrow> 'k key_weight list \<Rightarrow> unit res" where
  "precondition_keys env [] = Inr ()"
| "precondition_keys env (p # ps) =
     bind_res (check_key_list env (kw_key p)) (\<lambda>_. precondition_keys env ps)"

definition validate_authority_precondition :: "('d, 'k) sys_env \<Rightarrow> 'k sys_ctx \<Rightarrow> 'k authority \<Rightarrow> unit res" where
  "validate_authority_precondition env ctx auth =
     bind_res (precondition_accounts ctx (auth_accounts auth)) (\<lambda>_.
       if enforce_key_blacklist env then precondition_keys env (auth_keys auth) else Inr ())"

text \<open>\<open>s.find("eosio.") == 0\<close>\<close>

definition has_eosio_prefix :: "string \<Rightarrow> bool" where
  "has_eosio_prefix s = (take 6 s = ''eosio.'')"

text \<open>
  The rows of a new account: its object, its metadata, its owner and active permissions and its
  resource usage; with the RAM they take.
\<close>

definition create_account_rows :: "int \<Rightarrow> ('k \<Rightarrow> nat) \<Rightarrow> 'k sys_ctx \<Rightarrow> account_object \<Rightarrow> account_metadata_object \<Rightarrow>
    ('k sys_ctx \<Rightarrow> unit res) \<Rightarrow> 'k authority \<Rightarrow> 'k authority \<Rightarrow> int \<Rightarrow> ('k sys_ctx \<times> int) res" where
  "create_account_rows now sz ctx acc meta check owner active creation_time =
     bind_res (tbl_create ao_name acc (accounts ctx)) (\<lambda>accs.
     bind_res (tbl_create am_name meta (metadata ctx)) (\<lambda>metas.
     (let ctx = ctx\<lparr>accounts := accs, metadata := metas\<rparr>
      in bind_res (check ctx) (\<lambda>_.
         bind_res (create_permission now (auths ctx) (ao_name acc) owner_name 0 owner creation_time) (\<lambda>(adb, owner_permission).
         bind_res (create_permission now adb (ao_name acc) active_name (po_id owner_permission) active creation_time) (\<lambda>(adb, active_permission).
         bind_res (initialize_account (resources ctx) (ao_name acc)) (\<lambda>rl.
           Inr (ctx\<lparr>auths := adb, resources := rl\<rparr>,
                overhead_per_account_ram_bytes + 2 * billable_permission_object +
                int (get_billable_size sz (po_auth owner_permission)) +
                int (get_billable_size sz (po_auth active_permission))))))))))"

definition apply_eosio_newaccount :: "('d, 'k::linorder) sys_env \<Rightarrow> 'k sys_ctx \<Rightarrow> 'd action \<Rightarrow> 'k sys_ctx res" where
  "apply_eosio_newaccount env ctx act =
     bind_res (data_as newaccount_name (unpack_newaccount env) act) (\<lambda>create.
     bind_res (require_authorization act (na_creator create)) (\<lambda>_.
     EOS_ASSERT (validate_authority (na_owner create)) action_validate_exception
     (EOS_ASSERT (validate_authority (na_active create)) action_validate_exception
     (let name_str = name_to_string (na_name create)
      in EOS_ASSERT (na_name create \<noteq> 0) action_validate_exception
         (EOS_ASSERT (length name_str \<le> 12) action_validate_exception
         (bind_res (tbl_get am_name (na_creator create) (metadata ctx)) (\<lambda>creator.
          EOS_ASSERT (is_privileged creator \<or> \<not> has_eosio_prefix name_str) action_validate_exception
          (EOS_ASSERT (tbl_find ao_name (na_name create) (accounts ctx) = None) account_name_exists_exception
          (bind_res (create_account_rows (pending_block_time env) (key_pack_size env) ctx
                \<lparr>ao_name = na_name create, ao_creation_date = set_time_point (pending_block_time env), ao_abi = []\<rparr>
                (account_metadata_default (na_name create))
                (\<lambda>ctx. bind_res (validate_authority_precondition env ctx (na_owner create))
                         (\<lambda>_. validate_authority_precondition env ctx (na_active create)))
                (na_owner create) (na_active create) 0)
             (\<lambda>(ctx, ram_delta). add_ram_usage ctx (na_name create) ram_delta))))))))))"

text \<open>
  \<open>setcode\<close>: the code table keeps one row per hash with a count of the accounts that use it.  The
  bookkeeping of compiled code in the WebAssembly interface is left out.
\<close>

definition release_code :: "code_object \<Rightarrow> code_object list \<Rightarrow> code_object list" where
  "release_code old_code_entry cs =
     (if code_ref_count old_code_entry = 1 then tbl_remove by_code_hash (by_code_hash old_code_entry) cs
      else tbl_modify by_code_hash (by_code_hash old_code_entry)
             (\<lambda>c. c\<lparr>code_ref_count := code_ref_count c - 1\<rparr>) cs)"

definition acquire_code :: "('d, 'k) sys_env \<Rightarrow> setcode \<Rightarrow> digest \<Rightarrow> code_object list \<Rightarrow> code_object list res" where
  "acquire_code env act code_hash cs =
     (case tbl_find by_code_hash (code_hash, sc_vmtype act, sc_vmversion act) cs of
        Some c \<Rightarrow> Inr (tbl_modify by_code_hash (by_code_hash c) (\<lambda>c. c\<lparr>code_ref_count := code_ref_count c + 1\<rparr>) cs)
      | None \<Rightarrow> tbl_create by_code_hash
          \<lparr>co_code_hash = code_hash, co_code = sc_code act, code_ref_count = 1,
           first_block_used = head_block_num env + 1, co_vm_type = sc_vmtype act, co_vm_version = sc_vmversion act\<rparr> cs)"

definition setcode_update :: "('d, 'k) sys_env \<Rightarrow> setcode \<Rightarrow> digest \<Rightarrow> account_metadata_object \<Rightarrow> account_metadata_object" where
  "setcode_update env u h a = a\<lparr>code_sequence := code_sequence a + 1, am_code_hash := h, am_vm_type := sc_vmtype u,
     am_vm_version := sc_vmversion u, last_code_update := pending_block_time env\<rparr>"

definition apply_eosio_setcode :: "('d, 'k) sys_env \<Rightarrow> 'k sys_ctx \<Rightarrow> 'd action \<Rightarrow> 'k sys_ctx res" where
  "apply_eosio_setcode env ctx action =
     bind_res (data_as setcode_name (unpack_setcode env) action) (\<lambda>act.
     bind_res (require_authorization action (sc_account act)) (\<lambda>_.
     EOS_ASSERT (sc_vmtype act = 0) invalid_contract_vm_type
     (EOS_ASSERT (sc_vmversion act = 0) invalid_contract_vm_version
     (let code_size = int (length (sc_code act));
          code_hash = (if code_size > 0 then sha256 env (sc_code act) else digest_zero);
          new_size = code_size * setcode_ram_bytes_multiplier
      in bind_res (if code_size > 0 then wasm_validate env (sc_code act) else Inr ()) (\<lambda>_.
         bind_res (tbl_get am_name (sc_account act) (metadata ctx)) (\<lambda>account.
         (let existing_code = (am_code_hash account \<noteq> digest_zero)
          in EOS_ASSERT (code_size > 0 \<or> existing_code) set_exact_code
             (bind_res
               (if existing_code
                then bind_res (tbl_get by_code_hash (code_key account) (codes ctx)) (\<lambda>old_code_entry.
                     EOS_ASSERT (co_code_hash old_code_entry \<noteq> code_hash) set_exact_code
                       (Inr (int (length (co_code old_code_entry)) * setcode_ram_bytes_multiplier,
                             release_code old_code_entry (codes ctx))))
                else Inr (0, codes ctx))
               (\<lambda>(old_size, cs).
                bind_res (if code_size > 0 then acquire_code env act code_hash cs else Inr cs) (\<lambda>cs.
                (let ctx = ctx\<lparr>codes := cs,
                       metadata := tbl_modify am_name (am_name account)
                         (setcode_update env act code_hash) (metadata ctx)\<rparr>
                 in if new_size \<noteq> old_size then add_ram_usage ctx (sc_account act) (new_size - old_size)
                    else Inr ctx)))))))))))"

definition apply_eosio_setabi :: "('d, 'k) sys_env \<Rightarrow> 'k sys_ctx \<Rightarrow> 'd action \<Rightarrow> 'k sys_ctx res" where
  "apply_eosio_setabi env ctx action =
     bind_res (data_as setabi_name (unpack_setabi env) action) (\<lambda>act.
     bind_res (require_authorization action (sa_account act)) (\<lambda>_.
     bind_res (tbl_get ao_name (sa_account act) (accounts ctx)) (\<lambda>account.
     (let old_size = int (length (ao_abi account)); new_size = int (length (sa_abi act));
          ctx = ctx\<lparr>accounts := tbl_modify ao_name (ao_name account) (\<lambda>a. a\<lparr>ao_abi := sa_abi act\<rparr>) (accounts ctx)\<rparr>
      in bind_res (tbl_get am_name (sa_account act) (metadata ctx)) (\<lambda>account_metadata.
         (let ctx = ctx\<lparr>metadata := tbl_modify am_name (am_name account_metadata)
                          (\<lambda>a. a\<lparr>abi_sequence := abi_sequence a + 1\<rparr>) (metadata ctx)\<rparr>
          in if new_size \<noteq> old_size then add_ram_usage ctx (sa_account act) (new_size - old_size)
             else Inr ctx))))))"

definition apply_eosio_updateauth :: "('d, 'k::linorder) sys_env \<Rightarrow> 'k sys_ctx \<Rightarrow> 'd action \<Rightarrow> 'k sys_ctx res" where
  "apply_eosio_updateauth env ctx act =
     bind_res (data_as updateauth_name (unpack_updateauth env) act) (\<lambda>update.
     bind_res (require_authorization act (ua_account update)) (\<lambda>_.
     EOS_ASSERT (ua_permission update \<noteq> 0) action_validate_exception
     (EOS_ASSERT (\<not> has_eosio_prefix (name_to_string (ua_permission update))) action_validate_exception
     (EOS_ASSERT (ua_permission update \<noteq> ua_parent update) action_validate_exception
     (bind_res (tbl_get ao_name (ua_account update) (accounts ctx)) (\<lambda>_.
      EOS_ASSERT (validate_authority (ua_auth update)) action_validate_exception
      (EOS_ASSERT (ua_permission update = active_name \<longrightarrow> ua_parent update = owner_name) action_validate_exception
      (EOS_ASSERT (if ua_permission update = owner_name then ua_parent update = 0 else ua_parent update \<noteq> 0)
         action_validate_exception
      (EOS_ASSERT (auth_waits (ua_auth update) \<noteq> [] \<longrightarrow>
           wait_sec (last (auth_waits (ua_auth update))) \<le> max_transaction_delay env) action_validate_exception
      (bind_res (validate_authority_precondition env ctx (ua_auth update)) (\<lambda>_.
       bind_res (find_permission (auths ctx) (permission_level (ua_account update) (ua_permission update))) (\<lambda>perm.
       bind_res
         (if ua_permission update \<noteq> owner_name
          then bind_res (get_permission (auths ctx) (permission_level (ua_account update) (ua_parent update)))
                 (\<lambda>parent. Inr (po_id parent))
          else Inr 0)
         (\<lambda>parent_id.
          case perm of
            Some perm \<Rightarrow>
              EOS_ASSERT (parent_id = po_parent perm) action_validate_exception
              (let old_size = permission_ram (key_pack_size env) (po_auth perm);
                   new_size = permission_ram (key_pack_size env) (ua_auth update)
               in add_ram_usage
                    (ctx\<lparr>auths := modify_permission (pending_block_time env) (auths ctx) perm (ua_auth update)\<rparr>)
                    (po_owner perm) (new_size - old_size))
          | None \<Rightarrow>
              bind_res (create_permission (pending_block_time env) (auths ctx) (ua_account update) (ua_permission update)
                          parent_id (ua_auth update) 0)
                (\<lambda>(adb, p). add_ram_usage (ctx\<lparr>auths := adb\<rparr>) (ua_account update)
                              (permission_ram (key_pack_size env) (po_auth p))))))))))))))))"

definition apply_eosio_deleteauth :: "('d, 'k) sys_env \<Rightarrow> 'k sys_ctx \<Rightarrow> 'd action \<Rightarrow> 'k sys_ctx res" where
  "apply_eosio_deleteauth env ctx act =
     bind_res (data_as deleteauth_name (unpack_deleteauth env) act) (\<lambda>remove.
     bind_res (require_authorization act (da_account remove)) (\<lambda>_.
     EOS_ASSERT (da_permission remove \<noteq> active_name) action_validate_exception
     (EOS_ASSERT (da_permission remove \<noteq> owner_name) action_validate_exception
     (EOS_ASSERT (\<not> list_ex (\<lambda>l. pl_account l = da_account remove \<and> required_permission l = da_permission remove)
                    (links (auths ctx))) action_validate_exception
     (bind_res (get_permission (auths ctx) (permission_level (da_account remove) (da_permission remove))) (\<lambda>perm.
      bind_res (remove_permission (auths ctx) perm) (\<lambda>adb.
        add_ram_usage (ctx\<lparr>auths := adb\<rparr>) (da_account remove)
          (- permission_ram (key_pack_size env) (po_auth perm)))))))))"

text \<open>
  \<open>linkauth\<close>: before the protocol feature \<open>only_link_to_existing_permission\<close>, any permission of that
  name, of whatever account, was enough.
\<close>

definition apply_eosio_linkauth :: "('d, 'k) sys_env \<Rightarrow> 'k sys_ctx \<Rightarrow> 'd action \<Rightarrow> 'k sys_ctx res" where
  "apply_eosio_linkauth env ctx act =
     bind_res (data_as linkauth_name (unpack_linkauth env) act) (\<lambda>req.
     EOS_ASSERT (la_requirement req \<noteq> 0) action_validate_exception
     (bind_res (require_authorization act (la_account req)) (\<lambda>_.
      EOS_ASSERT (tbl_find ao_name (la_account req) (accounts ctx) \<noteq> None) account_query_exception
      (EOS_ASSERT (tbl_find ao_name (la_code req) (accounts ctx) \<noteq> None) account_query_exception
      (EOS_ASSERT (la_requirement req \<noteq> eosio_any_name \<longrightarrow>
           (if only_link_to_existing_permission env
            then tbl_find by_owner (la_account req, la_requirement req) (perms (auths ctx)) \<noteq> None
            else list_ex (\<lambda>p. po_name p = la_requirement req) (perms (auths ctx)))) permission_query_exception
      (let link_key = (la_account req, la_code req, la_type req)
       in case tbl_find by_action_name link_key (links (auths ctx)) of
            Some link \<Rightarrow>
              EOS_ASSERT (required_permission link \<noteq> la_requirement req) action_validate_exception
              (Inr (ctx\<lparr>auths := (auths ctx)\<lparr>links :=
                  tbl_modify by_action_name link_key (\<lambda>l. l\<lparr>required_permission := la_requirement req\<rparr>)
                    (links (auths ctx))\<rparr>\<rparr>))
          | None \<Rightarrow>
              bind_res (tbl_create by_action_name
                  \<lparr>pl_account = la_account req, pl_code = la_code req, pl_message_type = la_type req,
                   required_permission = la_requirement req\<rparr> (links (auths ctx)))
                (\<lambda>ls. add_ram_usage (ctx\<lparr>auths := (auths ctx)\<lparr>links := ls\<rparr>\<rparr>) (la_account req)
                        billable_permission_link_object)))))))"

definition apply_eosio_unlinkauth :: "('d, 'k) sys_env \<Rightarrow> 'k sys_ctx \<Rightarrow> 'd action \<Rightarrow> 'k sys_ctx res" where
  "apply_eosio_unlinkauth env ctx act =
     bind_res (data_as unlinkauth_name (unpack_unlinkauth env) act) (\<lambda>unlink.
     bind_res (require_authorization act (un_account unlink)) (\<lambda>_.
     (let link_key = (un_account unlink, un_code unlink, un_type unlink)
      in case tbl_find by_action_name link_key (links (auths ctx)) of
           None \<Rightarrow> Inl action_validate_exception
         | Some link \<Rightarrow>
             bind_res (add_ram_usage ctx (pl_account link) (- billable_permission_link_object)) (\<lambda>ctx.
               Inr (ctx\<lparr>auths := (auths ctx)\<lparr>links := tbl_remove by_action_name link_key (links (auths ctx))\<rparr>\<rparr>)))))"

definition cancel_deferred_transaction :: "'k sys_ctx \<Rightarrow> u128 \<Rightarrow> u64 \<Rightarrow> ('k sys_ctx \<times> bool) res" where
  "cancel_deferred_transaction ctx sender_id sender =
     (case tbl_find by_sender_id (sender, sender_id) (generated_trxs ctx) of
        Some gto \<Rightarrow>
          bind_res (add_ram_usage ctx (dt_payer gto)
              (- (billable_generated_transaction_object + int (length (dt_packed_trx gto))))) (\<lambda>ctx.
            Inr (ctx\<lparr>generated_trxs := tbl_remove by_sender_id (sender, sender_id) (generated_trxs ctx)\<rparr>, True))
      | None \<Rightarrow> Inr (ctx, False))"

definition apply_eosio_canceldelay :: "('d, 'k) sys_env \<Rightarrow> 'k sys_ctx \<Rightarrow> 'd action \<Rightarrow> 'k sys_ctx res" where
  "apply_eosio_canceldelay env ctx act =
     bind_res (data_as canceldelay_name (unpack_canceldelay env) act) (\<lambda>cancel.
     bind_res (require_authorization act (actor (canceling_auth cancel))) (\<lambda>_.
     bind_res (cancel_deferred_transaction ctx (transaction_id_to_sender_id (cd_trx_id cancel)) 0) (\<lambda>(ctx, found).
       Inr ctx)))"

text \<open>
  \<open>find_apply_handler\<close>: a native handler runs when the system account receives its own action.
\<close>

definition apply_native :: "('d, 'k::linorder) sys_env \<Rightarrow> 'k sys_ctx \<Rightarrow> u64 \<Rightarrow> 'd action \<Rightarrow> 'k sys_ctx res" where
  "apply_native env ctx rcv act =
     (if rcv = system_account_name \<and> act_account act = system_account_name then
        if act_name act = newaccount_name then apply_eosio_newaccount env ctx act
        else if act_name act = setcode_name then apply_eosio_setcode env ctx act
        else if act_name act = setabi_name then apply_eosio_setabi env ctx act
        else if act_name act = updateauth_name then apply_eosio_updateauth env ctx act
        else if act_name act = deleteauth_name then apply_eosio_deleteauth env ctx act
        else if act_name act = linkauth_name then apply_eosio_linkauth env ctx act
        else if act_name act = unlinkauth_name then apply_eosio_unlinkauth env ctx act
        else if act_name act = canceldelay_name then apply_eosio_canceldelay env ctx act
        else Inr ctx
      else Inr ctx)"

section \<open>Genesis accounts\<close>

text \<open>
  \<open>create_native_account\<close> of the controller; \<open>system_abi\<close> is the packed ABI of the system contract.
  Its charge does not enter the deltas of an action.
\<close>

definition create_native_account :: "int \<Rightarrow> int \<Rightarrow> u8 list \<Rightarrow> ('k \<Rightarrow> nat) \<Rightarrow> 'k sys_ctx \<Rightarrow> u64 \<Rightarrow> 'k authority \<Rightarrow> 'k authority \<Rightarrow> bool \<Rightarrow>
    'k sys_ctx res" where
  "create_native_account now initial_timestamp system_abi sz ctx nm owner active priv =
     bind_res (create_account_rows now sz ctx
         \<lparr>ao_name = nm, ao_creation_date = set_time_point initial_timestamp,
          ao_abi = (if nm = system_account_name then system_abi else [])\<rparr>
         (set_privileged (account_metadata_default nm) priv) (\<lambda>_. Inr ()) owner active initial_timestamp)
       (\<lambda>(ctx, ram_delta).
        bind_res (add_pending_ram_usage (resources ctx) nm ram_delta) (\<lambda>rl.
        bind_res (verify_account_ram_usage rl nm) (\<lambda>_. Inr (ctx\<lparr>resources := rl\<rparr>))))"

end
