(* ===== verification/System_Cases.thy ===== *)
theory System_Cases
  imports System_Contract
begin

text \<open>
  Inversion rules for the native actions: what a successful handler found in the tables and what it
  did, with the checks that matter to the properties.  The proofs about the handlers start here.
\<close>

lemma newaccountE:
  fixes env :: "('d, 'k::linorder) sys_env"
  assumes "apply_eosio_newaccount env ctx act = Inr ctx'"
  obtains u :: "'k newaccount" and check ctx1 d where "unpack_newaccount env (act_data act) = Inr u"
    "has_authorization act (na_creator u)" "na_name u \<noteq> 0" "tbl_find ao_name (na_name u) (accounts ctx) = None"
    "create_account_rows (pending_block_time env) (key_pack_size env) ctx
       \<lparr>ao_name = na_name u, ao_creation_date = set_time_point (pending_block_time env), ao_abi = []\<rparr>
       (account_metadata_default (na_name u)) check (na_owner u) (na_active u) 0 = Inr (ctx1, d)"
    "add_ram_usage ctx1 (na_name u) d = Inr ctx'"
  using assms by (auto simp: apply_eosio_newaccount_def data_as_def Let_def)

lemma setcodeE:
  assumes "apply_eosio_setcode env ctx act = Inr ctx'"
  obtains u m old cs1 cs2 h ctx1 d where "unpack_setcode env (act_data act) = Inr u" "has_authorization act (sc_account u)"
    "h = (if length (sc_code u) > 0 then sha256 env (sc_code u) else digest_zero)"
    "tbl_find am_name (sc_account u) (metadata ctx) = Some m"
    "(if fst (code_key m) \<noteq> digest_zero
        then bind_res (tbl_get by_code_hash (code_key m) (codes ctx)) (\<lambda>c. EOS_ASSERT (co_code_hash c \<noteq> h) set_exact_code
               (Inr (int (length (co_code c)) * setcode_ram_bytes_multiplier, release_code c (codes ctx))))
        else Inr (0, codes ctx)) = Inr (old, cs1)"
    "(if length (sc_code u) > 0 then acquire_code env u h cs1 else Inr cs1) = Inr cs2"
    "ctx1 = ctx\<lparr>codes := cs2, metadata := tbl_modify am_name (am_name m) (setcode_update env u h) (metadata ctx)\<rparr>"
    "d = int (length (sc_code u)) * setcode_ram_bytes_multiplier - old"
    "(if d \<noteq> 0 then add_ram_usage ctx1 (sc_account u) d else Inr ctx1) = Inr ctx'"
  using assms
  by (auto simp: apply_eosio_setcode_def data_as_def Let_def code_key_def cong: if_cong)

lemma setabiE:
  assumes "apply_eosio_setabi env ctx act = Inr ctx'"
  obtains u acc m ctx1 d where "unpack_setabi env (act_data act) = Inr u" "has_authorization act (sa_account u)"
    "tbl_find ao_name (sa_account u) (accounts ctx) = Some acc" "tbl_find am_name (sa_account u) (metadata ctx) = Some m"
    "ctx1 = ctx\<lparr>accounts := tbl_modify ao_name (ao_name acc) (\<lambda>a. a\<lparr>ao_abi := sa_abi u\<rparr>) (accounts ctx),
       metadata := tbl_modify am_name (am_name m) (\<lambda>a. a\<lparr>abi_sequence := abi_sequence a + 1\<rparr>) (metadata ctx)\<rparr>"
    "d = int (length (sa_abi u)) - int (length (ao_abi acc))"
    "(if d \<noteq> 0 then add_ram_usage ctx1 (sa_account u) d else Inr ctx1) = Inr ctx'"
  using assms by (auto simp: apply_eosio_setabi_def data_as_def Let_def cong: if_cong)

lemma updateauthE:
  assumes "apply_eosio_updateauth env ctx act = Inr ctx'"
  obtains (modify) u q where "unpack_updateauth env (act_data act) = Inr u" "has_authorization act (ua_account u)"
    "get_permission (auths ctx) (permission_level (ua_account u) (ua_permission u)) = Inr q"
    "add_ram_usage (ctx\<lparr>auths := modify_permission (pending_block_time env) (auths ctx) q (ua_auth u)\<rparr>) (po_owner q)
       (permission_ram (key_pack_size env) (ua_auth u) - permission_ram (key_pack_size env) (po_auth q)) = Inr ctx'"
  | (create) u adb p parent_id where "unpack_updateauth env (act_data act) = Inr u" "has_authorization act (ua_account u)"
    "ua_account u \<noteq> 0"
    "create_permission (pending_block_time env) (auths ctx) (ua_account u) (ua_permission u) parent_id (ua_auth u) 0 = Inr (adb, p)"
    "perm_step (auths ctx) adb"
    "add_ram_usage (ctx\<lparr>auths := adb\<rparr>) (ua_account u) (permission_ram (key_pack_size env) (po_auth p)) = Inr ctx'"
proof -
  obtain u perm parent_id where u: "unpack_updateauth env (act_data act) = Inr u" "has_authorization act (ua_account u)"
    and perm: "find_permission (auths ctx) (permission_level (ua_account u) (ua_permission u)) = Inr perm"
    and par: "(if ua_permission u \<noteq> owner_name
          then bind_res (get_permission (auths ctx) (permission_level (ua_account u) (ua_parent u)))
                 (\<lambda>parent. Inr (po_id parent)) else Inr 0) = Inr parent_id"
    and rest: "(case perm of
            Some perm \<Rightarrow>
              EOS_ASSERT (parent_id = po_parent perm) action_validate_exception
              (let old_size = permission_ram (key_pack_size env) (po_auth perm);
                   new_size = permission_ram (key_pack_size env) (ua_auth u)
               in add_ram_usage
                    (ctx\<lparr>auths := modify_permission (pending_block_time env) (auths ctx) perm (ua_auth u)\<rparr>)
                    (po_owner perm) (new_size - old_size))
          | None \<Rightarrow>
              bind_res (create_permission (pending_block_time env) (auths ctx) (ua_account u) (ua_permission u)
                          parent_id (ua_auth u) 0)
                (\<lambda>(adb, p). add_ram_usage (ctx\<lparr>auths := adb\<rparr>) (ua_account u)
                              (permission_ram (key_pack_size env) (po_auth p)))) = Inr ctx'"
    using assms by (auto simp: apply_eosio_updateauth_def data_as_def)
  show thesis
  proof (cases perm)
    case (Some q)
    have "get_permission (auths ctx) (permission_level (ua_account u) (ua_permission u)) = Inr q"
      using perm Some by (auto simp: find_permission_def get_permission_def split: if_splits)
    then show thesis using rest Some u by (intro modify) (auto simp: Let_def)
  next
    case None
    then obtain adb p where c: "create_permission (pending_block_time env) (auths ctx) (ua_account u) (ua_permission u)
          parent_id (ua_auth u) 0 = Inr (adb, p)"
      and charge: "add_ram_usage (ctx\<lparr>auths := adb\<rparr>) (ua_account u) (permission_ram (key_pack_size env) (po_auth p)) = Inr ctx'"
      using rest by auto
    have acc: "ua_account u \<noteq> 0" using perm by (auto simp: find_permission_def split: if_splits)
    have "perm_step (auths ctx) adb"
    proof (cases "ua_permission u = owner_name")
      case True
      with par c show ?thesis using acc by (auto intro: step_create_root)
    next
      case False
      with par obtain q where "get_permission (auths ctx) (permission_level (ua_account u) (ua_parent u)) = Inr q" "parent_id = po_id q"
        by auto
      with c show ?thesis by (auto intro: step_create_child)
    qed
    with u acc c charge show thesis by (intro create)
  qed
qed

lemma deleteauthE:
  assumes "apply_eosio_deleteauth env ctx act = Inr ctx'"
  obtains r :: deleteauth and p adb where "has_authorization act (da_account r)"
    "da_permission r \<noteq> active_name" "da_permission r \<noteq> owner_name"
    "\<not> list_ex (\<lambda>l. pl_account l = da_account r \<and> required_permission l = da_permission r) (links (auths ctx))"
    "get_permission (auths ctx) (permission_level (da_account r) (da_permission r)) = Inr p"
    "remove_permission (auths ctx) p = Inr adb"
    "add_ram_usage (ctx\<lparr>auths := adb\<rparr>) (da_account r) (- permission_ram (key_pack_size env) (po_auth p)) = Inr ctx'"
  using assms by (auto simp: apply_eosio_deleteauth_def)

lemma linkauthE:
  assumes "apply_eosio_linkauth env ctx act = Inr ctx'"
  obtains (modify) r :: linkauth and l where "has_authorization act (la_account r)"
    "tbl_find by_action_name (la_account r, la_code r, la_type r) (links (auths ctx)) = Some l"
    "ctx' = ctx\<lparr>auths := (auths ctx)\<lparr>links :=
       tbl_modify by_action_name (by_action_name l) (\<lambda>l. l\<lparr>required_permission := la_requirement r\<rparr>) (links (auths ctx))\<rparr>\<rparr>"
  | (create) r :: linkauth and l where "has_authorization act (la_account r)" "pl_account l = la_account r"
    "tbl_find by_action_name (by_action_name l) (links (auths ctx)) = None"
    "add_ram_usage (ctx\<lparr>auths := (auths ctx)\<lparr>links := links (auths ctx) @ [l]\<rparr>\<rparr>) (la_account r)
       billable_permission_link_object = Inr ctx'"
proof -
  obtain r :: linkauth where auth: "has_authorization act (la_account r)"
    and r: "(case tbl_find by_action_name (la_account r, la_code r, la_type r) (links (auths ctx)) of
      Some link \<Rightarrow>
        EOS_ASSERT (required_permission link \<noteq> la_requirement r) action_validate_exception
          (Inr (ctx\<lparr>auths := (auths ctx)\<lparr>links :=
             tbl_modify by_action_name (la_account r, la_code r, la_type r) (\<lambda>l. l\<lparr>required_permission := la_requirement r\<rparr>)
               (links (auths ctx))\<rparr>\<rparr>))
    | None \<Rightarrow>
        bind_res (tbl_create by_action_name
            \<lparr>pl_account = la_account r, pl_code = la_code r, pl_message_type = la_type r,
             required_permission = la_requirement r\<rparr> (links (auths ctx)))
          (\<lambda>ls. add_ram_usage (ctx\<lparr>auths := (auths ctx)\<lparr>links := ls\<rparr>\<rparr>) (la_account r)
                  billable_permission_link_object)) = Inr ctx'"
    using assms unfolding apply_eosio_linkauth_def Let_def bind_res_Inr_iff EOS_ASSERT_Inr_iff require_authorization_Inr_iff
    by (elim exE conjE) (rule that)
  show thesis
  proof (cases "tbl_find by_action_name (la_account r, la_code r, la_type r) (links (auths ctx))")
    case (Some l)
    then have "by_action_name l = (la_account r, la_code r, la_type r)" by (auto dest: tbl_find_SomeD)
    then show thesis using r Some auth by (intro modify [of r l]) (auto split: if_splits)
  next
    case None
    then show thesis
      using r auth by (intro create [of r "\<lparr>pl_account = la_account r, pl_code = la_code r, pl_message_type = la_type r,
        required_permission = la_requirement r\<rparr>"]) (auto simp: tbl_create_Inr_iff by_action_name_def)
  qed
qed

lemma unlinkauthE:
  assumes "apply_eosio_unlinkauth env ctx act = Inr ctx'"
  obtains r :: unlinkauth and l ctx1 where "has_authorization act (un_account r)"
    "tbl_find by_action_name (un_account r, un_code r, un_type r) (links (auths ctx)) = Some l"
    "add_ram_usage ctx (pl_account l) (- billable_permission_link_object) = Inr ctx1"
    "ctx' = ctx1\<lparr>auths := (auths ctx1)\<lparr>links :=
       tbl_remove by_action_name (un_account r, un_code r, un_type r) (links (auths ctx1))\<rparr>\<rparr>"
  using assms by (auto simp: apply_eosio_unlinkauth_def Let_def split: option.splits)

lemma canceldelayE:
  assumes "apply_eosio_canceldelay env ctx act = Inr ctx'"
  obtains (none) "ctx' = ctx"
  | (some) k g ctx1 u where "tbl_find by_sender_id (0, k) (generated_trxs ctx) = Some g"
    "add_ram_usage ctx (dt_payer g) (- (billable_generated_transaction_object + int (length (dt_packed_trx g)))) = Inr ctx1"
    "ctx' = ctx1\<lparr>generated_trxs := tbl_remove by_sender_id (0, k) (generated_trxs ctx1)\<rparr>"
    "unpack_canceldelay env (act_data act) = Inr u" "k = transaction_id_to_sender_id (cd_trx_id u)"
    "has_authorization act (actor (canceling_auth u))"
proof -
  obtain u found where u: "unpack_canceldelay env (act_data act) = Inr u" "has_authorization act (actor (canceling_auth u))"
    "cancel_deferred_transaction ctx (transaction_id_to_sender_id (cd_trx_id u)) 0 = Inr (ctx', found)"
    using assms by (auto simp: apply_eosio_canceldelay_def data_as_def)
  from u(3) show thesis
    using none some [OF _ _ _ u(1) refl u(2)] by (auto simp: cancel_deferred_transaction_def split: option.splits)
qed

text \<open>Every native action is one of the handlers.\<close>

lemma apply_native_handlers:
  "apply_native env ctx rcv act \<in>
     {apply_eosio_newaccount env ctx act, apply_eosio_setcode env ctx act, apply_eosio_setabi env ctx act,
      apply_eosio_updateauth env ctx act, apply_eosio_deleteauth env ctx act, apply_eosio_linkauth env ctx act,
      apply_eosio_unlinkauth env ctx act, apply_eosio_canceldelay env ctx act, Inr ctx}"
  by (simp add: apply_native_def)

lemma create_permission_rows:
  assumes "create_permission now db account nm parent auth t0 = Inr (db', p)"
  shows "perms db' = perms db @ [p] \<and> po_owner p = account \<and> po_name p = nm \<and> po_auth p = auth \<and> po_parent p = parent \<and>
     links db' = links db"
  using assms by (auto simp: create_permission_def Let_def tbl_create_Inr_iff)

lemma create_account_rowsE:
  assumes "create_account_rows now sz ctx acc meta check owner active t0 = Inr (ctx1, d)"
  obtains adb1 po adb pa rl where
    "tbl_find ao_name (ao_name acc) (accounts ctx) = None" "tbl_find am_name (am_name meta) (metadata ctx) = None"
    "create_permission now (auths ctx) (ao_name acc) owner_name 0 owner t0 = Inr (adb1, po)"
    "create_permission now adb1 (ao_name acc) active_name (po_id po) active t0 = Inr (adb, pa)"
    "initialize_account (resources ctx) (ao_name acc) = Inr rl"
    "ctx1 = ctx\<lparr>accounts := accounts ctx @ [acc], metadata := metadata ctx @ [meta], auths := adb, resources := rl\<rparr>"
    "d = overhead_per_account_ram_bytes + 2 * billable_permission_object +
        int (get_billable_size sz (po_auth po)) + int (get_billable_size sz (po_auth pa))"
  using assms by (auto simp: create_account_rows_def tbl_create_Inr_iff Let_def)

end
