(* ===== verification/System_Ram.thy ===== *)
theory System_Ram
  imports System_Cases
begin

text \<open>
  RAM accounting of the native actions.  \<open>ram_owed\<close> is what the objects of an account take by the
  size rules of the source; \<open>ram_billed\<close> is the usage in its resource row.  Every handler changes
  the two by the same amount for every account, and keeps the tables well-formed: unique keys, and
  a count in every code row of the accounts that run the code.
\<close>

section \<open>What an account owes\<close>

definition code_ram :: "code_object list \<Rightarrow> digest \<times> u8 \<times> u8 \<Rightarrow> int" where
  "code_ram cs k =
     (if fst k = digest_zero then 0
      else case tbl_find by_code_hash k cs of
             None \<Rightarrow> 0
           | Some c \<Rightarrow> int (length (co_code c)) * setcode_ram_bytes_multiplier)"

definition ram_owed :: "('k \<Rightarrow> nat) \<Rightarrow> 'k sys_ctx \<Rightarrow> u64 \<Rightarrow> int" where
  "ram_owed sz ctx a =
     owned_sum ao_name (\<lambda>acc. overhead_per_account_ram_bytes + int (length (ao_abi acc))) (accounts ctx) a +
     owned_sum am_name (\<lambda>m. code_ram (codes ctx) (code_key m)) (metadata ctx) a +
     owned_sum po_owner (\<lambda>p. permission_ram sz (po_auth p)) (perms (auths ctx)) a +
     owned_sum pl_account (\<lambda>_. billable_permission_link_object) (links (auths ctx)) a +
     owned_sum dt_payer (\<lambda>g. billable_generated_transaction_object + int (length (dt_packed_trx g)))
       (generated_trxs ctx) a"

definition ram_slack :: "('k \<Rightarrow> nat) \<Rightarrow> 'k sys_ctx \<Rightarrow> u64 \<Rightarrow> int" where
  "ram_slack sz ctx a = ram_billed ctx a - ram_owed sz ctx a"

text \<open>
  \<open>code_wf ks cs\<close>: the code table \<open>cs\<close> fits the code keys \<open>ks\<close> of the accounts.
\<close>

definition code_wf :: "(digest \<times> u8 \<times> u8) list \<Rightarrow> code_object list \<Rightarrow> bool" where
  "code_wf ks cs \<longleftrightarrow> tbl_unique by_code_hash cs \<and>
     (\<forall>c \<in> set cs. co_code_hash c \<noteq> digest_zero \<and> 0 < count_list ks (by_code_hash c) \<and>
        unat (code_ref_count c) = count_list ks (by_code_hash c)) \<and>
     (\<forall>k \<in> set ks. fst k \<noteq> digest_zero \<longrightarrow> tbl_find by_code_hash k cs \<noteq> None)"

definition fits :: "int \<Rightarrow> bool" where "fits n \<longleftrightarrow> n < 2 ^ 60"

definition sys_wf :: "('k \<Rightarrow> nat) \<Rightarrow> 'k sys_ctx \<Rightarrow> bool" where
  "sys_wf sz ctx \<longleftrightarrow> auth_wf (auths ctx) \<and> tbl_unique by_action_name (links (auths ctx)) \<and>
     tbl_unique ao_name (accounts ctx) \<and> tbl_unique am_name (metadata ctx) \<and>
     tbl_unique by_sender_id (generated_trxs ctx) \<and> code_wf (map code_key (metadata ctx)) (codes ctx) \<and>
     (\<forall>p \<in> set (perms (auths ctx)). fits (permission_ram sz (po_auth p))) \<and>
     (\<forall>acc \<in> set (accounts ctx). fits (int (length (ao_abi acc)))) \<and>
     (\<forall>c \<in> set (codes ctx). fits (int (length (co_code c)) * setcode_ram_bytes_multiplier)) \<and>
     (\<forall>g \<in> set (generated_trxs ctx). fits (int (length (dt_packed_trx g))))"

text \<open>
  A step from \<open>ctx\<close> to \<open>ctx'\<close> that keeps the tables well-formed and the accounting exact.
\<close>

definition ram_exact :: "('k \<Rightarrow> nat) \<Rightarrow> 'k sys_ctx \<Rightarrow> 'k sys_ctx \<Rightarrow> bool" where
  "ram_exact sz ctx ctx' \<longleftrightarrow> sys_wf sz ctx' \<and> (\<forall>a. ram_slack sz ctx' a = ram_slack sz ctx a)"

named_theorems sizes \<open>constants and signs of the billable sizes\<close>

lemma billable_sizes [sizes]:
  "billable_permission_object = 288" "billable_permission_link_object = 144"
  "billable_generated_transaction_object = 272" "overhead_per_account_ram_bytes = 2048"
  "setcode_ram_bytes_multiplier = 10"
  by (simp_all add: billable_permission_object_def billable_permission_link_object_def billable_align_def
        billable_generated_transaction_object_def overhead_per_account_ram_bytes_def
        setcode_ram_bytes_multiplier_def)

lemma permission_ram_nonneg: "0 \<le> permission_ram sz auth"
  by (simp add: permission_ram_def sizes)

lemma fits_delta: "fits x \<Longrightarrow> fits y \<Longrightarrow> 0 \<le> x \<Longrightarrow> 0 \<le> y \<Longrightarrow> ram_delta_fits (x - y)"
  by (simp add: fits_def ram_delta_fits_def)

section \<open>Charges leave the tables alone\<close>

lemma add_ram_usage_frame:
  assumes "add_ram_usage ctx a d = Inr ctx'"
  shows "auths ctx' = auths ctx" "accounts ctx' = accounts ctx" "metadata ctx' = metadata ctx"
    "codes ctx' = codes ctx" "generated_trxs ctx' = generated_trxs ctx"
  using assms by (auto simp: add_ram_usage_def trx_add_ram_usage_def)

lemma sys_wf_frame:
  "auths ctx' = auths ctx \<Longrightarrow> accounts ctx' = accounts ctx \<Longrightarrow> metadata ctx' = metadata ctx \<Longrightarrow>
   codes ctx' = codes ctx \<Longrightarrow> generated_trxs ctx' = generated_trxs ctx \<Longrightarrow>
     sys_wf sz ctx' = sys_wf sz ctx \<and> ram_owed sz ctx' a = ram_owed sz ctx a"
  by (simp add: sys_wf_def ram_owed_def)

text \<open>
  The form of every handler: the tables change from \<open>ctx\<close> to \<open>ctx1\<close> without touching the usage
  rows, and the change of what is owed is charged.
\<close>

lemma charge_exact_step:
  assumes "add_ram_usage ctx1 a d = Inr ctx'" and "ram_delta_fits d" and "sys_wf sz ctx1"
    and "\<And>b. ram_billed ctx1 b = ram_billed ctx b"
    and "\<And>b. ram_owed sz ctx1 b = ram_owed sz ctx b + (if b = a then d else 0)"
  shows "ram_exact sz ctx ctx'"
proof -
  note frame = sys_wf_frame [OF add_ram_usage_frame [OF assms(1)]]
  have "ram_slack sz ctx' b = ram_slack sz ctx b" for b
    using ledger.charge_keeps [OF assms(1,2,5), of b] frame by (simp add: ram_slack_def assms(4))
  with frame assms(3) show ?thesis by (simp add: ram_exact_def)
qed

lemma ram_billed_resources: "resources ctx' = resources ctx \<Longrightarrow> ram_billed ctx' b = ram_billed ctx b"
  by (simp add: ram_billed_def)

lemma charge_first_step:
  assumes "add_ram_usage ctx a d = Inr ctx1" and "ram_delta_fits d" and "resources ctx' = resources ctx1"
    and "sys_wf sz ctx'" and "\<And>b. ram_owed sz ctx' b = ram_owed sz ctx b + (if b = a then d else 0)"
  shows "ram_exact sz ctx ctx'"
  using ledger.charge_keeps [OF assms(1,2,5)] assms(4) ram_billed_resources [OF assms(3)]
  by (simp add: ram_exact_def ram_slack_def)

section \<open>Permissions and links\<close>

lemma updateauth_exact:
  assumes app: "apply_eosio_updateauth env ctx act = Inr ctx'" and wf: "sys_wf sz ctx" and sz: "sz = key_pack_size env"
    and small: "\<And>u. unpack_updateauth env (act_data act) = Inr u \<Longrightarrow> fits (permission_ram sz (ua_auth u))"
  shows "ram_exact sz ctx ctx'"
proof -
  have awf: "auth_wf (auths ctx)" and pfit: "\<forall>p \<in> set (perms (auths ctx)). fits (permission_ram sz (po_auth p))"
    using wf by (auto simp: sys_wf_def)
  show ?thesis using app
  proof (cases rule: updateauthE)
    case (modify u q)
    note new = small [OF modify(1)] and charge = modify(4) [folded sz]
    have q: "q \<in> set (perms (auths ctx))" using get_permissionD [OF awf modify(3)] by simp
    let ?a = "modify_permission (pending_block_time env) (auths ctx) q (ua_auth u)"
    have "auth_wf ?a" by (rule perm_step_wf [OF step_modify [OF modify(3)] awf])
    moreover have "\<forall>p \<in> set (perms ?a). fits (permission_ram sz (po_auth p))"
      using pfit new by (auto simp: modify_permission_def tbl_modify_def)
    moreover have "links ?a = links (auths ctx)" by (simp add: modify_permission_def)
    ultimately have "sys_wf sz (ctx\<lparr>auths := ?a\<rparr>)" using wf by (simp add: sys_wf_def)
    moreover have "ram_owed sz (ctx\<lparr>auths := ?a\<rparr>) b = ram_owed sz ctx b +
        (if b = po_owner q then permission_ram sz (ua_auth u) - permission_ram sz (po_auth q) else 0)" for b
      using awf q by (simp add: ram_owed_def modify_permission_def owned_sum_modify auth_wf_def)
    moreover have "ram_delta_fits (permission_ram sz (ua_auth u) - permission_ram sz (po_auth q))"
      using new pfit q by (intro fits_delta permission_ram_nonneg) auto
    ultimately show ?thesis by (intro charge_exact_step [OF charge]) (simp_all add: ram_billed_def)
  next
    case (create u adb p parent_id)
    note new = small [OF create(1)] and charge = create(6) [folded sz] and rows = create_permission_rows [OF create(4)]
    have "sys_wf sz (ctx\<lparr>auths := adb\<rparr>)"
      using wf rows new perm_step_wf [OF create(5) awf] by (auto simp: sys_wf_def)
    moreover have "ram_owed sz (ctx\<lparr>auths := adb\<rparr>) b = ram_owed sz ctx b +
        (if b = ua_account u then permission_ram sz (po_auth p) else 0)" for b
      using rows by (simp add: ram_owed_def)
    moreover have "ram_delta_fits (permission_ram sz (po_auth p))"
      using new rows permission_ram_nonneg [of sz "ua_auth u"] by (simp add: ram_delta_fits_def fits_def)
    ultimately show ?thesis by (intro charge_exact_step [OF charge]) (simp_all add: ram_billed_def)
  qed
qed

lemma deleteauth_exact:
  assumes app: "apply_eosio_deleteauth env ctx act = Inr ctx'" and wf: "sys_wf sz ctx" and sz: "sz = key_pack_size env"
  shows "ram_exact sz ctx ctx'"
  using app
proof (cases rule: deleteauthE)
  case (1 r p adb)
  note charge = 1(7) [folded sz]
  have awf: "auth_wf (auths ctx)" using wf by (simp add: sys_wf_def)
  note p = get_permissionD [OF awf 1(5)]
  have rows: "perms adb = tbl_remove po_id (po_id p) (perms (auths ctx))" "links adb = links (auths ctx)"
    using 1(6) by (auto simp: remove_permission_def)
  have "auth_wf adb" by (rule perm_step_wf [OF step_remove [OF 1(5,6)] awf])
  then have "sys_wf sz (ctx\<lparr>auths := adb\<rparr>)" using wf by (auto simp: sys_wf_def rows tbl_remove_def)
  moreover have "ram_owed sz (ctx\<lparr>auths := adb\<rparr>) b = ram_owed sz ctx b +
      (if b = da_account r then - permission_ram sz (po_auth p) else 0)" for b
    using awf p by (simp add: ram_owed_def rows owned_sum_remove auth_wf_def)
  moreover have "ram_delta_fits (- permission_ram sz (po_auth p))"
    using fits_delta [of 0 "permission_ram sz (po_auth p)"] wf p permission_ram_nonneg [of sz "po_auth p"]
    by (simp add: sys_wf_def) (simp add: fits_def)
  ultimately show ?thesis by (intro charge_exact_step [OF charge]) (simp_all add: ram_billed_def)
qed

lemma auth_wf_links [simp]: "auth_wf (db\<lparr>links := ls\<rparr>) = auth_wf db"
  by (simp add: auth_wf_def)

lemma linkauth_exact:
  assumes app: "apply_eosio_linkauth env ctx act = Inr ctx'" and wf: "sys_wf sz ctx"
  shows "ram_exact sz ctx ctx'"
proof -
  have uni: "tbl_unique by_action_name (links (auths ctx))" using wf by (simp add: sys_wf_def)
  show ?thesis using app
  proof (cases rule: linkauthE)
    case (modify r l)
    let ?f = "\<lambda>l. l\<lparr>required_permission := la_requirement r\<rparr>"
    have l: "l \<in> set (links (auths ctx))" using tbl_find_SomeD [OF modify(2)] by auto
    have "tbl_unique by_action_name (tbl_modify by_action_name (by_action_name l) ?f (links (auths ctx)))"
      by (rule tbl_unique_modify [OF uni]) (simp add: by_action_name_def)
    moreover have "owned_sum pl_account (\<lambda>_. billable_permission_link_object)
        (tbl_modify by_action_name (by_action_name l) ?f (links (auths ctx))) a =
        owned_sum pl_account (\<lambda>_. billable_permission_link_object) (links (auths ctx)) a" for a
      by (subst owned_sum_modify [OF uni l]) simp_all
    ultimately show ?thesis
      using modify(3) wf by (simp add: ram_exact_def ram_slack_def ram_owed_def sys_wf_def ram_billed_def)
  next
    case (create r l)
    show ?thesis
      using wf create(2,3)
      by (intro charge_exact_step [OF create(4)])
        (auto simp: ram_billed_def ram_owed_def sys_wf_def tbl_unique_snoc ram_delta_fits_def sizes)
  qed
qed

lemma unlinkauth_exact:
  assumes app: "apply_eosio_unlinkauth env ctx act = Inr ctx'" and wf: "sys_wf sz ctx"
  shows "ram_exact sz ctx ctx'"
  using app
proof (cases rule: unlinkauthE)
  case (1 r l ctx1)
  have uni: "tbl_unique by_action_name (links (auths ctx))" using wf by (simp add: sys_wf_def)
  have key: "l \<in> set (links (auths ctx))" "(un_account r, un_code r, un_type r) = by_action_name l"
    using tbl_find_SomeD [OF 1(2)] by auto
  note frame = add_ram_usage_frame [OF 1(3)]
  show ?thesis
  proof (rule charge_first_step [OF 1(3)])
    show "sys_wf sz ctx'" using wf frame by (auto simp: 1(4) sys_wf_def tbl_unique_remove)
    show "ram_owed sz ctx' b = ram_owed sz ctx b + (if b = pl_account l then - billable_permission_link_object else 0)" for b
      unfolding 1(4) key(2) by (simp add: ram_owed_def owned_sum_remove [OF uni key(1)] frame)
  qed (simp_all add: 1(4) ram_delta_fits_def sizes)
qed

lemma canceldelay_exact:
  assumes app: "apply_eosio_canceldelay env ctx act = Inr ctx'" and wf: "sys_wf sz ctx"
  shows "ram_exact sz ctx ctx'"
  using app
proof (cases rule: canceldelayE)
  case none
  with wf show ?thesis by (simp add: ram_exact_def)
next
  case (some k g ctx1)
  have uni: "tbl_unique by_sender_id (generated_trxs ctx)" using wf by (simp add: sys_wf_def)
  have key: "g \<in> set (generated_trxs ctx)" "(0, k) = by_sender_id g" using tbl_find_SomeD [OF some(1)] by auto
  note frame = add_ram_usage_frame [OF some(2)]
  show ?thesis
  proof (rule charge_first_step [OF some(2)])
    show "sys_wf sz ctx'"
      using wf frame tbl_unique_remove [OF uni, of "(0, k)"] by (auto simp: some(3) sys_wf_def tbl_remove_def)
    show "ram_owed sz ctx' b = ram_owed sz ctx b +
        (if b = dt_payer g then - (billable_generated_transaction_object + int (length (dt_packed_trx g))) else 0)" for b
      unfolding some(3) key(2) by (simp add: ram_owed_def owned_sum_remove [OF uni key(1)] frame)
    show "ram_delta_fits (- (billable_generated_transaction_object + int (length (dt_packed_trx g))))"
      using wf key(1) by (auto simp: sys_wf_def ram_delta_fits_def fits_def sizes)
  qed (simp add: some(3))
qed

section \<open>Accounts\<close>

lemma charge_if_changed:
  assumes "(if d \<noteq> 0 then add_ram_usage ctx1 a d else Inr ctx1) = Inr ctx'" and "ram_delta_fits d" and "sys_wf sz ctx1"
    and "\<And>b. ram_billed ctx1 b = ram_billed ctx b"
    and "\<And>b. ram_owed sz ctx1 b = ram_owed sz ctx b + (if b = a then d else 0)"
  shows "ram_exact sz ctx ctx'"
proof (cases "d = 0")
  case True
  with assms show ?thesis by (simp add: ram_exact_def ram_slack_def)
next
  case False
  with assms(1) have "add_ram_usage ctx1 a d = Inr ctx'" by simp
  then show ?thesis using assms(2-5) by (rule charge_exact_step)
qed

lemma setabi_exact:
  assumes app: "apply_eosio_setabi env ctx act = Inr ctx'" and wf: "sys_wf sz ctx"
    and small: "\<And>u. unpack_setabi env (act_data act) = Inr u \<Longrightarrow> fits (int (length (sa_abi u)))"
  shows "ram_exact sz ctx ctx'"
  using app
proof (cases rule: setabiE)
  case (1 u acc m ctx1 d)
  let ?g = "\<lambda>a. a\<lparr>abi_sequence := abi_sequence a + 1\<rparr>"
  have a: "acc \<in> set (accounts ctx)" "ao_name acc = sa_account u" using tbl_find_SomeD [OF 1(3)] by auto
  have m: "m \<in> set (metadata ctx)" "am_name m = sa_account u" using tbl_find_SomeD [OF 1(4)] by auto
  have uni: "tbl_unique ao_name (accounts ctx)" "tbl_unique am_name (metadata ctx)" using wf by (auto simp: sys_wf_def)
  have "map code_key (tbl_modify am_name (am_name m) ?g (metadata ctx)) = map code_key (metadata ctx)"
    by (simp add: tbl_modify_def code_key_def)
  moreover have "tbl_unique ao_name (accounts ctx1)" "tbl_unique am_name (metadata ctx1)"
    using uni by (auto simp: 1(5) intro!: tbl_unique_modify)
  moreover have "\<forall>acc \<in> set (accounts ctx1). fits (int (length (ao_abi acc)))"
    using wf small [OF 1(1)] by (auto simp: 1(5) tbl_modify_def sys_wf_def)
  ultimately have "sys_wf sz ctx1" using wf by (simp add: sys_wf_def 1(5))
  moreover have "ram_owed sz ctx1 b = ram_owed sz ctx b + (if b = ao_name acc then d else 0)" for b
    by (simp add: 1(5,6) ram_owed_def owned_sum_modify [OF uni(1) a(1)] owned_sum_modify [OF uni(2) m(1)] code_key_def)
  moreover have "ram_billed ctx1 b = ram_billed ctx b" for b by (simp add: 1(5) ram_billed_def)
  moreover have "ram_delta_fits d"
    unfolding 1(6) using wf small [OF 1(1)] a by (intro fits_delta) (auto simp: sys_wf_def)
  ultimately show ?thesis using a(2) by (intro charge_if_changed [OF 1(7)]) simp_all
qed

lemma initialize_account_billed:
  assumes "initialize_account (resources ctx) a = Inr rl" and "resources ctx' = rl"
  shows "ram_billed ctx' b = ram_billed ctx b"
proof -
  obtain u where "usage_tbl rl = usage_tbl (resources ctx) @ [u]" "ram_usage u = 0"
      "tbl_find ru_owner (ru_owner u) (usage_tbl (resources ctx)) = None"
    using assms(1) by (auto simp: initialize_account_def tbl_create_Inr_iff)
  then show ?thesis by (auto simp: ram_billed_def assms(2) tbl_find_append split: option.splits)
qed

lemma code_wf_fresh: "fst k = digest_zero \<Longrightarrow> code_wf (ks @ [k]) cs = code_wf ks cs"
  by (cases k) (auto simp: code_wf_def by_code_hash_def)

lemma create_account_rows_exact:
  assumes cr: "create_account_rows now sz ctx acc meta check owner active t0 = Inr (ctx1, d)"
    and wf: "sys_wf sz ctx" and nm: "ao_name acc = am_name meta" "ao_name acc \<noteq> 0" and z: "am_code_hash meta = digest_zero"
    and small: "fits (permission_ram sz owner)" "fits (permission_ram sz active)" "fits (int (length (ao_abi acc)))"
  shows "sys_wf sz ctx1 \<and> (\<forall>b. ram_billed ctx1 b = ram_billed ctx b) \<and> ram_delta_fits d \<and>
     (\<forall>b. ram_owed sz ctx1 b = ram_owed sz ctx b + (if b = ao_name acc then d + int (length (ao_abi acc)) else 0))"
proof -
  let ?n = "ao_name acc"
  obtain adb1 po adb pa rl where
      free: "tbl_find ao_name ?n (accounts ctx) = None" "tbl_find am_name (am_name meta) (metadata ctx) = None"
    and o: "create_permission now (auths ctx) ?n owner_name 0 owner t0 = Inr (adb1, po)"
    and a: "create_permission now adb1 ?n active_name (po_id po) active t0 = Inr (adb, pa)"
    and i: "initialize_account (resources ctx) ?n = Inr rl"
    and ctx1: "ctx1 = ctx\<lparr>accounts := accounts ctx @ [acc], metadata := metadata ctx @ [meta], auths := adb, resources := rl\<rparr>"
    and d: "d = overhead_per_account_ram_bytes + 2 * billable_permission_object +
        int (get_billable_size sz (po_auth po)) + int (get_billable_size sz (po_auth pa))"
    using cr by (rule create_account_rowsE)
  have awf: "auth_wf (auths ctx)" using wf by (simp add: sys_wf_def)
  note rows1 = create_permission_rows [OF o] and rows2 = create_permission_rows [OF a]
  note spec = create_permission_spec [OF awf o nm(2)]
  have "tbl_find by_owner (?n, owner_name) (perms adb1) = Some po" "auth_wf adb1" using spec by auto
  then have fpo: "tbl_find po_id (po_id po) (perms adb1) = Some po"
    using rows1 by (simp add: auth_wf_def tbl_find_Some_iff)
  have "auth_wf adb"
    using create_permission_spec [OF \<open>auth_wf adb1\<close> a nm(2)] fpo rows1 by auto
  moreover have "perms adb = perms (auths ctx) @ [po, pa]" "links adb = links (auths ctx)"
    using rows1 rows2 by auto
  moreover have "code_wf (map code_key (metadata ctx) @ [code_key meta]) (codes ctx)"
    using wf z by (simp add: code_wf_fresh sys_wf_def code_key_def)
  ultimately have "sys_wf sz ctx1"
    using wf free nm small rows1 rows2 by (auto simp: ctx1 sys_wf_def tbl_unique_snoc)
  moreover have "ram_billed ctx1 b = ram_billed ctx b" for b
    by (rule initialize_account_billed [OF i]) (simp add: ctx1)
  moreover have "ram_delta_fits d"
    using small rows1 rows2 by (simp add: d ram_delta_fits_def fits_def permission_ram_def sizes)
  moreover have "ram_owed sz ctx1 b = ram_owed sz ctx b + (if b = ?n then d + int (length (ao_abi acc)) else 0)" for b
    using rows1 rows2 nm z by (simp add: ctx1 ram_owed_def d permission_ram_def code_ram_def code_key_def)
  ultimately show ?thesis by blast
qed

lemma newaccount_exact:
  assumes app: "apply_eosio_newaccount env ctx act = Inr ctx'" and wf: "sys_wf sz ctx" and sz: "sz = key_pack_size env"
    and small: "\<And>u. unpack_newaccount env (act_data act) = Inr u \<Longrightarrow>
      fits (permission_ram sz (na_owner u)) \<and> fits (permission_ram sz (na_active u))"
  shows "ram_exact sz ctx ctx'"
  using app
proof (cases rule: newaccountE)
  case (1 u check ctx1 d)
  have "sys_wf sz ctx1 \<and> (\<forall>b. ram_billed ctx1 b = ram_billed ctx b) \<and> ram_delta_fits d \<and>
     (\<forall>b. ram_owed sz ctx1 b = ram_owed sz ctx b + (if b = na_name u then d else 0))"
    using create_account_rows_exact [OF 1(5) [folded sz] wf] 1(3) small [OF 1(1)]
    by (simp add: account_metadata_default_def fits_def)
  then show ?thesis by (intro charge_exact_step [OF 1(6)]) auto
qed

section \<open>Contract code\<close>

lemma count_list_split: "count_list (us @ k # vs) x = count_list us x + count_list vs x + (if k = x then 1 else 0)"
  by simp

lemma release_code_wf:
  assumes wf: "code_wf (us @ k # vs) cs" and k: "fst k \<noteq> digest_zero" and f: "tbl_find by_code_hash k cs = Some c"
    and z: "fst z = digest_zero"
  shows "code_wf (us @ z # vs) (release_code c cs) \<and>
     (\<forall>x \<in> set us \<union> set vs. code_ram (release_code c cs) x = code_ram cs x)"
proof -
  have uni: "tbl_unique by_code_hash cs" using wf by (simp add: code_wf_def)
  have c: "c \<in> set cs" "by_code_hash c = k" using tbl_find_SomeD [OF f] by auto
  have cnt: "unat (code_ref_count c) = count_list us k + count_list vs k + 1"
    using wf c by (auto simp: code_wf_def)
  have nz: "count_list (us @ z # vs) (by_code_hash x) = count_list us (by_code_hash x) + count_list vs (by_code_hash x)"
    if "x \<in> set cs" for x
    using wf z that by (cases z) (auto simp: code_wf_def by_code_hash_def)
  have keep: "co_code_hash x \<noteq> digest_zero \<and> 0 < count_list (us @ z # vs) (by_code_hash x) \<and>
      unat (code_ref_count x) = count_list (us @ z # vs) (by_code_hash x)"
    if "x \<in> set cs" "by_code_hash x \<noteq> k" for x
    using wf nz [OF that(1)] that by (auto simp: code_wf_def)
  have there: "tbl_find by_code_hash x cs \<noteq> None" if "x \<in> set (us @ z # vs)" "fst x \<noteq> digest_zero" for x
    using wf z that by (auto simp: code_wf_def)
  show ?thesis
  proof (cases "code_ref_count c = 1")
    case True
    then have none: "k \<notin> set us \<union> set vs" using cnt by (simp add: count_list_0_iff)
    have rel: "release_code c cs = tbl_remove by_code_hash k cs" using True c by (simp add: release_code_def)
    have find: "tbl_find by_code_hash x (release_code c cs) = tbl_find by_code_hash x cs" if "x \<noteq> k" for x
      using that by (auto simp: rel tbl_find_remove)
    have "code_wf (us @ z # vs) (release_code c cs)" unfolding code_wf_def
    proof (intro conjI)
      show "tbl_unique by_code_hash (release_code c cs)" using uni by (simp add: rel tbl_unique_remove)
      show "\<forall>x \<in> set (us @ z # vs). fst x \<noteq> digest_zero \<longrightarrow> tbl_find by_code_hash x (release_code c cs) \<noteq> None"
        using there find none z by (metis Un_iff in_set_conv_decomp set_append set_ConsD)
    qed (use keep in \<open>simp add: rel tbl_remove_def\<close>)
    moreover have "code_ram (release_code c cs) x = code_ram cs x" if "x \<noteq> k" for x
      by (simp add: code_ram_def find [OF that])
    ultimately show ?thesis using none by (metis UnI1 UnI2 Un_iff)
  next
    case False
    let ?f = "\<lambda>c. c\<lparr>code_ref_count := code_ref_count c - 1\<rparr>"
    have rel: "release_code c cs = tbl_modify by_code_hash k ?f cs" using False c by (simp add: release_code_def)
    have find: "tbl_find by_code_hash x (release_code c cs) =
        (if x = k then Some (?f c) else tbl_find by_code_hash x cs)" for x
      unfolding rel by (subst tbl_find_modify) (auto simp: by_code_hash_def f)
    have "unat (code_ref_count c) \<noteq> 1" using False word_unat_eq_iff [of "code_ref_count c" 1] by simp
    then have pos: "0 < count_list us k + count_list vs k" using cnt by linarith
    have "code_ref_count c \<noteq> 0" using cnt by (metis add_is_0 unsigned_0 zero_neq_one)
    then have dec: "unat (code_ref_count c - 1) = count_list us k + count_list vs k"
      using cnt by (simp add: unat_minus_one)
    have row: "x = ?f c \<or> x \<in> set cs \<and> by_code_hash x \<noteq> k" if "x \<in> set (release_code c cs)" for x
    proof -
      from that obtain y where y: "y \<in> set cs" "x = (if by_code_hash y = k then ?f y else y)"
        by (auto simp: rel tbl_modify_def)
      have "by_code_hash y = k \<Longrightarrow> y = c" using tbl_find_Some_iff [OF uni, of k y] y(1) f by simp
      with y show ?thesis by (auto split: if_splits)
    qed
    have "code_wf (us @ z # vs) (release_code c cs)" unfolding code_wf_def
    proof (intro conjI)
      show "tbl_unique by_code_hash (release_code c cs)"
        unfolding rel by (rule tbl_unique_modify [OF uni]) (simp add: by_code_hash_def)
      have "by_code_hash (?f c) = k" "co_code_hash c \<noteq> digest_zero"
        using c k by (auto simp: by_code_hash_def)
      then have fc: "co_code_hash (?f c) \<noteq> digest_zero \<and> 0 < count_list (us @ z # vs) (by_code_hash (?f c)) \<and>
          unat (code_ref_count (?f c)) = count_list (us @ z # vs) (by_code_hash (?f c))"
        using nz [OF c(1)] c(2) pos dec by simp
      show "\<forall>x \<in> set (release_code c cs). co_code_hash x \<noteq> digest_zero \<and> 0 < count_list (us @ z # vs) (by_code_hash x) \<and>
          unat (code_ref_count x) = count_list (us @ z # vs) (by_code_hash x)"
        using row fc keep by blast
      show "\<forall>x \<in> set (us @ z # vs). fst x \<noteq> digest_zero \<longrightarrow> tbl_find by_code_hash x (release_code c cs) \<noteq> None"
        using there find by simp
    qed
    then show ?thesis using find f by (auto simp: code_ram_def)
  qed
qed

lemma acquire_code_wf:
  assumes wf: "code_wf (us @ z # vs) cs" and z: "fst z = digest_zero"
    and ac: "acquire_code env act h cs = Inr cs'" and h: "h \<noteq> digest_zero"
    and k: "k = (h, sc_vmtype act, sc_vmversion act)" and small: "length (us @ z # vs) < 2 ^ 64"
    and nocoll: "\<forall>c \<in> set cs. co_code_hash c = h \<longrightarrow> length (co_code c) = length (sc_code act)"
  shows "code_wf (us @ k # vs) cs' \<and> (\<forall>x \<in> set us \<union> set vs. code_ram cs' x = code_ram cs x) \<and>
     code_ram cs' k = int (length (sc_code act)) * setcode_ram_bytes_multiplier \<and>
     co_code ` set cs' \<subseteq> insert (sc_code act) (co_code ` set cs)"
proof -
  have uni: "tbl_unique by_code_hash cs" using wf by (simp add: code_wf_def)
  have nz: "count_list (us @ z # vs) (by_code_hash x) = count_list us (by_code_hash x) + count_list vs (by_code_hash x)"
    if "x \<in> set cs" for x
    using wf z that by (cases z) (auto simp: code_wf_def by_code_hash_def)
  have old: "co_code_hash x \<noteq> digest_zero \<and> 0 < count_list us (by_code_hash x) + count_list vs (by_code_hash x) \<and>
      unat (code_ref_count x) = count_list us (by_code_hash x) + count_list vs (by_code_hash x)" if "x \<in> set cs" for x
    using wf nz [OF that] that by (auto simp: code_wf_def)
  have there: "tbl_find by_code_hash x cs \<noteq> None" if "x \<in> set us \<union> set vs" "fst x \<noteq> digest_zero" for x
    using wf that by (auto simp: code_wf_def)
  show ?thesis
  proof (cases "tbl_find by_code_hash k cs")
    case (Some c)
    let ?f = "\<lambda>c. c\<lparr>code_ref_count := code_ref_count c + 1\<rparr>"
    have c: "c \<in> set cs" "by_code_hash c = k" using tbl_find_SomeD [OF Some] by auto
    have cs': "cs' = tbl_modify by_code_hash k ?f cs" using ac Some c by (simp add: acquire_code_def k)
    have find: "tbl_find by_code_hash x cs' = (if x = k then Some (?f c) else tbl_find by_code_hash x cs)" for x
      unfolding cs' by (subst tbl_find_modify) (auto simp: by_code_hash_def Some)
    have le: "count_list us k + count_list vs k \<le> length us + length vs"
      using count_le_length [of us k] count_le_length [of vs k] by linarith
    then have inc: "unat (code_ref_count c + 1) = count_list us k + count_list vs k + 1"
      using old [OF c(1)] c(2) small by (simp add: unat_word_ariths)
    have row: "x = ?f c \<or> x \<in> set cs \<and> by_code_hash x \<noteq> k" if "x \<in> set cs'" for x
    proof -
      from that obtain y where y: "y \<in> set cs" "x = (if by_code_hash y = k then ?f y else y)"
        by (auto simp: cs' tbl_modify_def)
      have "by_code_hash y = k \<Longrightarrow> y = c" using tbl_find_Some_iff [OF uni, of k y] y(1) Some by simp
      with y show ?thesis by (auto split: if_splits)
    qed
    have "code_wf (us @ k # vs) cs'" unfolding code_wf_def
    proof (intro conjI)
      show "tbl_unique by_code_hash cs'" unfolding cs' by (rule tbl_unique_modify [OF uni]) (simp add: by_code_hash_def)
      have "by_code_hash (?f c) = k" using c by (auto simp: by_code_hash_def)
      then show "\<forall>x \<in> set cs'. co_code_hash x \<noteq> digest_zero \<and> 0 < count_list (us @ k # vs) (by_code_hash x) \<and>
          unat (code_ref_count x) = count_list (us @ k # vs) (by_code_hash x)"
        using row old old [OF c(1)] inc by fastforce
      show "\<forall>x \<in> set (us @ k # vs). fst x \<noteq> digest_zero \<longrightarrow> tbl_find by_code_hash x cs' \<noteq> None"
        using there find by auto
    qed
    moreover have "code_ram cs' x = code_ram cs x" for x using find [of x] Some by (simp add: code_ram_def)
    moreover have "length (co_code c) = length (sc_code act)" using nocoll c k by (auto simp: by_code_hash_def)
    ultimately show ?thesis
      using find [of k] h row c by (auto simp: code_ram_def k) (metis code_object.select_convs(2) code_object.update_convs(3) code_object.surjective image_eqI)
  next
    case None
    define o' where "o' = \<lparr>co_code_hash = h, co_code = sc_code act, code_ref_count = 1,
      first_block_used = head_block_num env + 1, co_vm_type = sc_vmtype act, co_vm_version = sc_vmversion act\<rparr>"
    have cs': "cs' = cs @ [o']" using ac None by (simp add: acquire_code_def k tbl_create_Inr_iff o'_def)
    have key: "by_code_hash o' = k" by (simp add: o'_def by_code_hash_def k)
    have find: "tbl_find by_code_hash x cs' = (if x = k then Some o' else tbl_find by_code_hash x cs)" for x
      using None key by (auto simp: cs' tbl_find_append split: option.splits)
    have nk: "k \<notin> set us" "k \<notin> set vs" using there [of k] None h by (auto simp: k)
    have ne: "by_code_hash x \<noteq> k" if "x \<in> set cs" for x using None that by (auto simp: tbl_find_None_iff)
    have "code_wf (us @ k # vs) cs'" unfolding code_wf_def
    proof (intro conjI)
      show "tbl_unique by_code_hash cs'" using uni None key by (simp add: cs' tbl_unique_snoc)
      show "\<forall>x \<in> set cs'. co_code_hash x \<noteq> digest_zero \<and> 0 < count_list (us @ k # vs) (by_code_hash x) \<and>
          unat (code_ref_count x) = count_list (us @ k # vs) (by_code_hash x)"
      proof -
        have "co_code_hash o' = h" "code_ref_count o' = 1" by (simp_all add: o'_def)
        then show ?thesis using old ne [THEN not_sym] key nk h by (simp add: cs')
      qed
      show "\<forall>x \<in> set (us @ k # vs). fst x \<noteq> digest_zero \<longrightarrow> tbl_find by_code_hash x cs' \<noteq> None"
        using there find by auto
    qed
    moreover have "code_ram cs' x = code_ram cs x" if "x \<in> set us \<union> set vs" for x
      using that nk find [of x] by (auto simp: code_ram_def)
    ultimately show ?thesis using find [of k] h by (auto simp: code_ram_def cs' o'_def k)
  qed
qed

lemma owned_code_split:
  assumes m: "ms = us @ r # vs" "ms' = us @ r' # vs" and own: "am_name r' = am_name r"
    and eq: "\<And>x. x \<in> set us \<union> set vs \<Longrightarrow> code_ram cs' (code_key x) = code_ram cs (code_key x)"
  shows "owned_sum am_name (\<lambda>m. code_ram cs' (code_key m)) ms' a =
     owned_sum am_name (\<lambda>m. code_ram cs (code_key m)) ms a +
     (if a = am_name r then code_ram cs' (code_key r') - code_ram cs (code_key r) else 0)"
proof -
  have "owned_sum am_name (\<lambda>m. code_ram cs' (code_key m)) us a = owned_sum am_name (\<lambda>m. code_ram cs (code_key m)) us a"
    "owned_sum am_name (\<lambda>m. code_ram cs' (code_key m)) vs a = owned_sum am_name (\<lambda>m. code_ram cs (code_key m)) vs a"
    by (rule owned_sum_cong; simp add: eq)+
  then show ?thesis by (simp add: m own)
qed

text \<open>
  What is assumed of the hash at a \<open>setcode\<close>: the new code does not collide with stored code of
  another length, nor with the zero hash that marks the absence of code.
\<close>

definition no_collision :: "(u8 list \<Rightarrow> digest) \<Rightarrow> code_object list \<Rightarrow> u8 list \<Rightarrow> bool" where
  "no_collision h cs code \<longleftrightarrow> h code \<noteq> digest_zero \<and>
     (\<forall>c \<in> set cs. co_code_hash c = h code \<longrightarrow> length (co_code c) = length code)"

lemma release_code_rows:
  "x \<in> set (release_code c cs) \<Longrightarrow> \<exists>y \<in> set cs. co_code x = co_code y \<and> co_code_hash x = co_code_hash y"
  by (auto simp: release_code_def tbl_modify_def tbl_remove_def split: if_splits)

lemma code_wf_zero:
  assumes "fst k = digest_zero" and "fst z = digest_zero" and "code_wf (us @ k # vs) cs"
  shows "code_wf (us @ z # vs) cs"
proof -
  have "k \<noteq> by_code_hash c \<and> z \<noteq> by_code_hash c" if "c \<in> set cs" for c
    using assms that by (auto simp: code_wf_def by_code_hash_def)
  with assms show ?thesis by (simp add: code_wf_def)
qed

text \<open>The two halves of \<open>setcode\<close> on the code table: let go of the old code, take the new one.\<close>

lemma release_half:
  assumes wf: "code_wf (us @ k # vs) cs" and z: "fst z = digest_zero"
    and rel: "(if fst k \<noteq> digest_zero
        then bind_res (tbl_get by_code_hash k cs) (\<lambda>c. EOS_ASSERT (co_code_hash c \<noteq> h) set_exact_code
               (Inr (int (length (co_code c)) * setcode_ram_bytes_multiplier, release_code c cs)))
        else Inr (0, cs)) = Inr (old, cs1)"
  shows "code_wf (us @ z # vs) cs1 \<and> (\<forall>x \<in> set us \<union> set vs. code_ram cs1 x = code_ram cs x) \<and>
     old = code_ram cs k \<and> (\<forall>x \<in> set cs1. \<exists>y \<in> set cs. co_code x = co_code y \<and> co_code_hash x = co_code_hash y)"
proof (cases "fst k = digest_zero")
  case True
  then show ?thesis using rel code_wf_zero [OF True z wf] by (auto simp: code_ram_def)
next
  case False
  then obtain c where "tbl_find by_code_hash k cs = Some c" "cs1 = release_code c cs"
      "old = int (length (co_code c)) * setcode_ram_bytes_multiplier"
    using rel by auto
  then show ?thesis using release_code_wf [OF wf False _ z] release_code_rows False by (simp add: code_ram_def)
qed

lemma acquire_half:
  assumes wf: "code_wf (us @ z # vs) cs1" and z: "fst z = digest_zero"
    and acq: "(if length (sc_code u) > 0 then acquire_code env u h cs1 else Inr cs1) = Inr cs2"
    and h: "h = (if length (sc_code u) > 0 then sha256 env (sc_code u) else digest_zero)"
    and nocoll: "sc_code u \<noteq> [] \<longrightarrow> no_collision (sha256 env) cs1 (sc_code u)"
    and small: "length (us @ z # vs) < 2 ^ 64" and k: "k = (h, sc_vmtype u, sc_vmversion u)"
  shows "code_wf (us @ k # vs) cs2 \<and> (\<forall>x \<in> set us \<union> set vs. code_ram cs2 x = code_ram cs1 x) \<and>
     code_ram cs2 k = int (length (sc_code u)) * setcode_ram_bytes_multiplier \<and>
     co_code ` set cs2 \<subseteq> insert (sc_code u) (co_code ` set cs1)"
proof (cases "sc_code u = []")
  case True
  then show ?thesis using acq h k code_wf_zero [OF z _ wf, of k] by (auto simp: code_ram_def)
next
  case False
  then show ?thesis
    using acq h nocoll acquire_code_wf [OF wf z _ _ k small, of env cs2] by (simp add: no_collision_def)
qed

lemma setcode_swap:
  assumes wf: "code_wf (us @ k # vs) cs"
    and rel: "(if fst k \<noteq> digest_zero
        then bind_res (tbl_get by_code_hash k cs) (\<lambda>c. EOS_ASSERT (co_code_hash c \<noteq> h) set_exact_code
               (Inr (int (length (co_code c)) * setcode_ram_bytes_multiplier, release_code c cs)))
        else Inr (0, cs)) = Inr (old, cs1)"
    and acq: "(if length (sc_code u) > 0 then acquire_code env u h cs1 else Inr cs1) = Inr cs2"
    and h: "h = (if length (sc_code u) > 0 then sha256 env (sc_code u) else digest_zero)"
    and k': "k' = (h, sc_vmtype u, sc_vmversion u)"
    and nocoll: "sc_code u \<noteq> [] \<Longrightarrow> no_collision (sha256 env) cs (sc_code u)"
    and len: "length us + length vs + 1 < 2 ^ 64"
    and new: "fits (int (length (sc_code u)) * setcode_ram_bytes_multiplier)"
    and fit: "\<forall>c \<in> set cs. fits (int (length (co_code c)) * setcode_ram_bytes_multiplier)"
  shows "code_wf (us @ k' # vs) cs2 \<and> (\<forall>x \<in> set us \<union> set vs. code_ram cs2 x = code_ram cs x) \<and>
     code_ram cs2 k' - code_ram cs k = int (length (sc_code u)) * setcode_ram_bytes_multiplier - old \<and>
     ram_delta_fits (int (length (sc_code u)) * setcode_ram_bytes_multiplier - old) \<and>
     (\<forall>c \<in> set cs2. fits (int (length (co_code c)) * setcode_ram_bytes_multiplier))"
proof -
  define z where "z = (digest_zero, sc_vmtype u, sc_vmversion u)"
  have z: "fst z = digest_zero" by (simp add: z_def)
  note r = release_half [OF wf z rel]
  have nc: "sc_code u \<noteq> [] \<longrightarrow> no_collision (sha256 env) cs1 (sc_code u)"
    using nocoll r by (fastforce simp: no_collision_def)
  have a: "code_wf (us @ k' # vs) cs2 \<and> (\<forall>x \<in> set us \<union> set vs. code_ram cs2 x = code_ram cs1 x) \<and>
     code_ram cs2 k' = int (length (sc_code u)) * setcode_ram_bytes_multiplier \<and>
     co_code ` set cs2 \<subseteq> insert (sc_code u) (co_code ` set cs1)"
    by (rule acquire_half [OF conjunct1 [OF r] z acq h nc _ k']) (use len in simp)
  have "fits (int (length (co_code c)) * setcode_ram_bytes_multiplier)" if c: "c \<in> set cs2" for c
  proof (cases "co_code c = sc_code u")
    case False
    then obtain c1 where c1: "c1 \<in> set cs1" "co_code c = co_code c1" using a c by blast
    then obtain y where "y \<in> set cs" "co_code c1 = co_code y" using r by blast
    then show ?thesis using fit c1 by simp
  qed (use new in simp)
  moreover have "0 \<le> old" "fits old"
    using r fit by (auto simp: code_ram_def fits_def sizes split: option.splits dest!: tbl_find_SomeD)
  then have "ram_delta_fits (int (length (sc_code u)) * setcode_ram_bytes_multiplier - old)"
    using new by (intro fits_delta) (simp_all add: sizes)
  ultimately show ?thesis using a r by simp
qed

lemma setcode_exact:
  assumes app: "apply_eosio_setcode env ctx act = Inr ctx'" and wf: "sys_wf sz ctx"
    and small: "\<And>u. unpack_setcode env (act_data act) = Inr u \<Longrightarrow>
      fits (int (length (sc_code u)) * setcode_ram_bytes_multiplier) \<and>
      (sc_code u \<noteq> [] \<longrightarrow> no_collision (sha256 env) (codes ctx) (sc_code u))"
    and len: "length (metadata ctx) < 2 ^ 64"
  shows "ram_exact sz ctx ctx'"
  using app
proof (cases rule: setcodeE)
  case (1 u m old cs1 cs2 h ctx1 d)
  let ?m = "setcode_update env u h m"
  have m: "m \<in> set (metadata ctx)" "am_name m = sc_account u" using tbl_find_SomeD [OF 1(4)] by auto
  have uni: "tbl_unique am_name (metadata ctx)" using wf by (simp add: sys_wf_def)
  obtain us vs where row: "metadata ctx = us @ m # vs"
    and modify: "\<And>f. tbl_modify am_name (am_name m) f (metadata ctx) = us @ f m # vs"
    and "tbl_remove am_name (am_name m) (metadata ctx) = us @ vs"
    by (rule tbl_row_split [OF uni m(1)]) (rule that)
  have cwf: "code_wf (map code_key us @ code_key m # map code_key vs) (codes ctx)"
    using wf by (simp add: sys_wf_def row)
  have k: "code_key ?m = (h, sc_vmtype u, sc_vmversion u)" "am_name ?m = am_name m"
    by (simp_all add: code_key_def setcode_update_def)
  have swap: "code_wf (map code_key us @ code_key ?m # map code_key vs) cs2 \<and>
      (\<forall>x \<in> set (map code_key us) \<union> set (map code_key vs). code_ram cs2 x = code_ram (codes ctx) x) \<and>
      code_ram cs2 (code_key ?m) - code_ram (codes ctx) (code_key m) = d \<and> ram_delta_fits d \<and>
      (\<forall>c \<in> set cs2. fits (int (length (co_code c)) * setcode_ram_bytes_multiplier))"
    unfolding 1(8)
    by (rule setcode_swap [OF cwf 1(5,6,3) k(1)]) (use wf small [OF 1(1)] len row in \<open>auto simp: sys_wf_def\<close>)
  have ctx1: "ctx1 = ctx\<lparr>codes := cs2, metadata := us @ ?m # vs\<rparr>" by (simp add: 1(7) modify)
  have "tbl_unique am_name (us @ ?m # vs)"
    using tbl_unique_modify [OF uni, of "am_name m" "setcode_update env u h"] by (simp add: modify setcode_update_def)
  then have wf1: "sys_wf sz ctx1" using wf swap by (simp add: sys_wf_def ctx1)
  have sum: "owned_sum am_name (\<lambda>m. code_ram cs2 (code_key m)) (us @ ?m # vs) b =
      owned_sum am_name (\<lambda>m. code_ram (codes ctx) (code_key m)) (metadata ctx) b + (if b = am_name m then d else 0)" for b
    by (subst owned_code_split [OF row refl k(2), where cs = "codes ctx"]) (use swap in auto)
  have "ram_owed sz ctx1 b = ram_owed sz ctx b + (if b = sc_account u then d else 0)" for b
    by (simp add: ram_owed_def ctx1 sum m(2) del: owned_sum_simps)
  moreover have "ram_billed ctx1 b = ram_billed ctx b" for b by (simp add: ctx1 ram_billed_def)
  ultimately show ?thesis using swap wf1 by (intro charge_if_changed [OF 1(9)]) simp_all
qed

section \<open>All native actions\<close>

text \<open>
  What is assumed of the data of an action: the objects it creates have a size that fits, and the
  hash of new code behaves as one at this point; there are fewer than \<open>2\<^sup>6\<^sup>4\<close> accounts.
\<close>

definition data_fits :: "('d, 'k) sys_env \<Rightarrow> 'k sys_ctx \<Rightarrow> 'd \<Rightarrow> bool" where
  "data_fits env ctx d \<longleftrightarrow> length (metadata ctx) < 2 ^ 64 \<and>
     (\<forall>u. unpack_newaccount env d = Inr u \<longrightarrow> fits (permission_ram (key_pack_size env) (na_owner u)) \<and>
        fits (permission_ram (key_pack_size env) (na_active u))) \<and>
     (\<forall>u. unpack_setcode env d = Inr u \<longrightarrow> fits (int (length (sc_code u)) * setcode_ram_bytes_multiplier) \<and>
        (sc_code u \<noteq> [] \<longrightarrow> no_collision (sha256 env) (codes ctx) (sc_code u))) \<and>
     (\<forall>u. unpack_setabi env d = Inr u \<longrightarrow> fits (int (length (sa_abi u)))) \<and>
     (\<forall>u. unpack_updateauth env d = Inr u \<longrightarrow> fits (permission_ram (key_pack_size env) (ua_auth u)))"

text \<open>
  C8 (invariant). RAM accounting of the native actions is exact.  When a native action succeeds,
  the tables stay well-formed (unique keys, the permission forest, a reference count in every code
  row equal to the number of accounts that run it), and for every account the difference between
  the RAM it is billed for and the RAM its objects take is the same as before.
\<close>

theorem native_ram_exact:
  assumes "apply_native env ctx rcv act = Inr ctx'" and "sys_wf (key_pack_size env) ctx"
    and "data_fits env ctx (act_data act)"
  shows "sys_wf (key_pack_size env) ctx' \<and>
     (\<forall>a. ram_slack (key_pack_size env) ctx' a = ram_slack (key_pack_size env) ctx a)"
proof -
  note wf = assms(2) and fit = assms(3) [unfolded data_fits_def]
  have "ram_exact (key_pack_size env) ctx ctx'"
    using apply_native_handlers [of env ctx rcv act] unfolding assms(1)
  proof (elim insertE emptyE)
    assume "Inr ctx' = apply_eosio_newaccount env ctx act"
    then show ?thesis using fit by (intro newaccount_exact [OF _ wf refl]) auto
  next
    assume "Inr ctx' = apply_eosio_setcode env ctx act"
    then show ?thesis using fit by (intro setcode_exact [OF _ wf]) auto
  next
    assume "Inr ctx' = apply_eosio_setabi env ctx act"
    then show ?thesis using fit by (intro setabi_exact [OF _ wf]) auto
  next
    assume "Inr ctx' = apply_eosio_updateauth env ctx act"
    then show ?thesis using fit by (intro updateauth_exact [OF _ wf refl]) auto
  next
    assume "Inr ctx' = Inr ctx"
    then show ?thesis using wf by (simp add: ram_exact_def)
  qed (auto intro: deleteauth_exact [OF _ wf refl] linkauth_exact [OF _ wf] unlinkauth_exact [OF _ wf]
         canceldelay_exact [OF _ wf] dest: sym)
  then show ?thesis by (simp add: ram_exact_def)
qed

section \<open>Genesis accounts\<close>

lemma add_pending_billed:
  assumes "add_pending_ram_usage (resources ctx) a d = Inr rl" and "ram_delta_fits d" and "resources ctx' = rl"
  shows "ram_billed ctx' b = ram_billed ctx b + (if b = a then d else 0)"
proof -
  have t: "trx_add_ram_usage ctx a d = Inr (ctx\<lparr>resources := rl, validate_ram_usage :=
      (if d > 0 then insort_insert a (validate_ram_usage ctx) else validate_ram_usage ctx)\<rparr>)"
    using assms(1) by (simp add: trx_add_ram_usage_def)
  show ?thesis using trx_ledger.charge_exact [OF t assms(2), of b] by (simp add: ram_billed_def assms(3))
qed

text \<open>
  C35 (functional). A genesis account is created with exact RAM accounting, except for the system
  account: the ABI it is born with is not billed, so it is billed less than its objects take by the
  size of that ABI.
\<close>

theorem native_account_ram:
  assumes "create_native_account now t0 system_abi sz ctx nm owner active priv = Inr ctx'" and "sys_wf sz ctx"
    and "nm \<noteq> 0" and "fits (permission_ram sz owner)" "fits (permission_ram sz active)" "fits (int (length system_abi))"
  shows "sys_wf sz ctx' \<and> (\<forall>a. ram_slack sz ctx' a =
     ram_slack sz ctx a - (if a = nm \<and> nm = system_account_name then int (length system_abi) else 0))"
proof -
  let ?acc = "\<lparr>ao_name = nm, ao_creation_date = set_time_point t0, ao_abi = (if nm = system_account_name then system_abi else [])\<rparr>"
  obtain ctx1 d rl where cr: "create_account_rows now sz ctx ?acc (set_privileged (account_metadata_default nm) priv)
        (\<lambda>_. Inr ()) owner active t0 = Inr (ctx1, d)"
    and pend: "add_pending_ram_usage (resources ctx1) nm d = Inr rl" and ctx': "ctx' = ctx1\<lparr>resources := rl\<rparr>"
    using assms(1) by (auto simp: create_native_account_def)
  have ex: "sys_wf sz ctx1 \<and> (\<forall>b. ram_billed ctx1 b = ram_billed ctx b) \<and> ram_delta_fits d \<and>
     (\<forall>b. ram_owed sz ctx1 b = ram_owed sz ctx b + (if b = ao_name ?acc then d + int (length (ao_abi ?acc)) else 0))"
    by (rule create_account_rows_exact [OF cr assms(2)])
      (use assms in \<open>simp_all add: set_privileged_def account_metadata_default_def fits_def\<close>)
  then have "ram_billed ctx' b = ram_billed ctx b + (if b = nm then d else 0)" for b
    using add_pending_billed [OF pend, of ctx' b] by (simp add: ctx')
  moreover have "sys_wf sz ctx' = sys_wf sz ctx1" "ram_owed sz ctx' b = ram_owed sz ctx1 b" for b
    by (simp_all add: ctx' sys_wf_def ram_owed_def)
  ultimately show ?thesis using ex by (auto simp: ram_slack_def)
qed

section \<open>A witness\<close>

text \<open>Account 5 of the sample permissions, with its resource row, sets a three-byte ABI.\<close>

definition sample_sys_env :: "(unit, nat) sys_env" where
  "sample_sys_env =
     \<lparr>max_transaction_delay = 3888000, max_authority_depth = 6, fix_linkauth_restriction = False, deferred_trxs = [],
      unpack_auths = (\<lambda>_. Inr []), unpack_updateauth = (\<lambda>_. Inl undefined_behaviour),
      unpack_deleteauth = (\<lambda>_. Inl undefined_behaviour), unpack_linkauth = (\<lambda>_. Inl undefined_behaviour),
      unpack_unlinkauth = (\<lambda>_. Inl undefined_behaviour), unpack_canceldelay = (\<lambda>_. Inl undefined_behaviour),
      checktime = (\<lambda>_. Inr ()), pending_block_time = 1577836800000000, head_block_num = 100,
      enforce_key_blacklist = False, key_blacklist = [], only_link_to_existing_permission = True,
      key_pack_size = (\<lambda>_. 34), sha256 = (\<lambda>_. \<lparr>hash0 = 1, hash1 = 0, hash2 = 0, hash3 = 0\<rparr>),
      wasm_validate = (\<lambda>_. Inr ()), unpack_newaccount = (\<lambda>_. Inl undefined_behaviour),
      unpack_setcode = (\<lambda>_. Inl undefined_behaviour),
      unpack_setabi = (\<lambda>_. Inr \<lparr>sa_account = 5, sa_abi = [1, 2, 3]\<rparr>)\<rparr>"

definition sample_sys_ctx :: "nat sys_ctx" where
  "sample_sys_ctx =
     \<lparr>resources = initialize_database\<lparr>usage_tbl := [\<lparr>ru_owner = 5, net_usage = usage_accumulator_init,
        cpu_usage = usage_accumulator_init, ram_usage = 2724\<rparr>]\<rparr>,
      account_ram_deltas = [], validate_ram_usage = [], auths = sample_auth_db,
      accounts = [\<lparr>ao_name = 5, ao_creation_date = 0, ao_abi = []\<rparr>],
      metadata = [account_metadata_default 5], codes = [], generated_trxs = []\<rparr>"

definition sample_setabi :: "unit action" where
  "sample_setabi = \<lparr>act_account = system_account_name, act_name = setabi_name,
     act_authorization = [permission_level 5 active_name], act_data = ()\<rparr>"

lemma native_name_values:
  "newaccount_name = 11148770977341390848" "setcode_name = 14029427681804681216" "setabi_name = 14029385431137648640"
  by (simp_all add: newaccount_name_def setcode_name_def setabi_name_def
        string_to_name_def string_to_name_loop.simps c_at_def char_to_symbol_def less_eq_char_def of_char_def)

lemma sample_setabi_runs: "is_ok (apply_native sample_sys_env sample_sys_ctx system_account_name sample_setabi)"
  by (simp add: apply_native_def sample_setabi_def native_name_values system_name_values apply_eosio_setabi_def
        data_as_def sample_sys_env_def sample_sys_ctx_def require_authorization_def account_metadata_default_def
        add_ram_usage_def trx_add_ram_usage_def add_pending_ram_usage_def tbl_get_def tbl_modify_def Let_def
        initialize_database_def word_le_nat_alt del: bind_res_Inr_iff EOS_ASSERT_Inr_iff)

lemma sample_sys_wf: "sys_wf (key_pack_size sample_sys_env) sample_sys_ctx"
  using sample_auth_wf
  by (simp add: sys_wf_def sample_sys_ctx_def code_wf_def tbl_unique_def account_metadata_default_def code_key_def fits_def
        permission_ram_def sizes sample_auth_defs get_billable_size_def authority_of_key_def add_delay_def authority_empty_def
        sample_sys_env_def billable_align_def)

theorem native_ram_exact_witness:
  "\<exists>ctx'. apply_native sample_sys_env sample_sys_ctx system_account_name sample_setabi = Inr ctx' \<and>
     ram_slack (\<lambda>_. 34) ctx' 5 = ram_slack (\<lambda>_. 34) sample_sys_ctx 5"
proof -
  obtain ctx' where r: "apply_native sample_sys_env sample_sys_ctx system_account_name sample_setabi = Inr ctx'"
    using sample_setabi_runs by (auto simp: is_ok_iff)
  have "data_fits sample_sys_env sample_sys_ctx (act_data sample_setabi)"
    by (simp add: data_fits_def sample_sys_env_def sample_sys_ctx_def fits_def)
  then have "ram_slack (key_pack_size sample_sys_env) ctx' 5 = ram_slack (key_pack_size sample_sys_env) sample_sys_ctx 5"
    using native_ram_exact [OF r sample_sys_wf] by blast
  then show ?thesis using r by (auto simp: sample_sys_env_def)
qed

definition genesis_ctx :: "nat sys_ctx" where
  "genesis_ctx = \<lparr>resources = initialize_database, account_ram_deltas = [], validate_ram_usage = [],
     auths = auth_initialize_database, accounts = [], metadata = [], codes = [], generated_trxs = []\<rparr>"

theorem native_account_ram_witness:
  "\<exists>ctx'. create_native_account 0 1577836800000000 [1, 2] (\<lambda>_. 34) genesis_ctx system_account_name
       (authority_of_key 10 0) (authority_of_key 10 0) True = Inr ctx' \<and>
     ram_slack (\<lambda>_. 34) ctx' system_account_name = ram_slack (\<lambda>_. 34) genesis_ctx system_account_name - 2"
proof -
  have "is_ok (create_native_account 0 1577836800000000 [1, 2] (\<lambda>_. 34) genesis_ctx system_account_name
       (authority_of_key 10 0) (authority_of_key 10 0) True)"
    by (simp add: create_native_account_def create_account_rows_def genesis_ctx_def tbl_create_def create_permission_def
        initialize_account_def initialize_database_def auth_initialize_database_def by_owner_def set_privileged_def
        account_metadata_default_def add_pending_ram_usage_def verify_account_ram_usage_def get_account_limits_def
        tbl_get_def tbl_find_def rl_key_def put_usage_def tbl_modify_def sizes get_billable_size_def authority_of_key_def
        add_delay_def billable_align_def system_name_values Let_def word_le_nat_alt
        unsigned_minus_1_eq_mask mask_eq_exp_minus_1 del: bind_res_Inr_iff EOS_ASSERT_Inr_iff)
  then obtain ctx' where r: "create_native_account 0 1577836800000000 [1, 2] (\<lambda>_. 34) genesis_ctx system_account_name
       (authority_of_key 10 0) (authority_of_key 10 0) True = Inr ctx'"
    by (auto simp: is_ok_iff)
  have "sys_wf (\<lambda>_. 34) genesis_ctx"
    using auth_wf_initialize
    by (simp add: sys_wf_def genesis_ctx_def code_wf_def auth_initialize_database_def permission_ram_def sizes
        get_billable_size_def authority_empty_def fits_def)
  moreover have "fits (permission_ram (\<lambda>_. 34) (authority_of_key (10 :: nat) 0))"
    by (simp add: permission_ram_def sizes get_billable_size_def authority_of_key_def add_delay_def billable_align_def fits_def)
  ultimately show ?thesis
    using native_account_ram [OF r] r by (auto simp: system_name_values fits_def)
qed

end
