(* ===== verification/System_Safety.thy ===== *)
theory System_Safety
  imports System_Ram
begin

text \<open>
  What a native action may change: nothing of an existing account that is not among the actors the
  action declares, except that cancelling a deferred transaction refunds its payer.  And what no native action may take away: every account keeps its owner and its
  active permission, the one a root of the account's tree and the other its child.
\<close>

section \<open>The rows of an account\<close>

definition account_rows :: "'k sys_ctx \<Rightarrow> u64 \<Rightarrow> 'k permission_object list \<times> permission_link_object list \<times>
    account_object option \<times> account_metadata_object option" where
  "account_rows ctx a =
     (filter (\<lambda>p. po_owner p = a) (perms (auths ctx)), filter (\<lambda>l. pl_account l = a) (links (auths ctx)),
      tbl_find ao_name a (accounts ctx), tbl_find am_name a (metadata ctx))"

lemma account_rows_charge: "add_ram_usage ctx b d = Inr ctx' \<Longrightarrow> account_rows ctx' a = account_rows ctx a"
  using add_ram_usage_frame [of ctx b d ctx'] by (simp add: account_rows_def)

lemma filter_modify_other:
  "(\<And>r. r \<in> set t \<Longrightarrow> key r = k \<Longrightarrow> own r \<noteq> a \<and> own (f r) \<noteq> a) \<Longrightarrow>
     filter (\<lambda>r. own r = a) (tbl_modify key k f t) = filter (\<lambda>r. own r = a) t"
  by (induction t) (auto simp: tbl_modify_def)

lemma filter_remove_other:
  "(\<And>r. r \<in> set t \<Longrightarrow> key r = k \<Longrightarrow> own r \<noteq> a) \<Longrightarrow>
     filter (\<lambda>r. own r = a) (tbl_remove key k t) = filter (\<lambda>r. own r = a) t"
  by (induction t) (auto simp: tbl_remove_def)

lemma tbl_find_modify_other:
  "k \<noteq> k' \<Longrightarrow> (\<And>r. key (f r) = key r) \<Longrightarrow> tbl_find key k' (tbl_modify key k f t) = tbl_find key k' t"
  by (simp add: tbl_find_modify)

text \<open>Rows of the permission table with the same id are the same row.\<close>

lemma perm_id_unique:
  assumes "auth_wf db" and "p \<in> set (perms db)" and "q \<in> set (perms db)" and "po_id p = po_id q"
  shows "p = q"
proof -
  have "tbl_unique po_id (perms db)" using assms(1) by (simp add: auth_wf_def)
  with assms(2-4) show ?thesis by (metis option.inject tbl_find_Some_iff)
qed

text \<open>The rows of the account in the tables of the resource limits.\<close>

definition resource_rows :: "'k sys_ctx \<Rightarrow> u64 \<Rightarrow> resource_limits_object list \<times> resource_usage_object list" where
  "resource_rows ctx a =
     (filter (\<lambda>l. rl_owner l = a) (limits_tbl (resources ctx)), filter (\<lambda>u. ru_owner u = a) (usage_tbl (resources ctx)))"

lemma resource_rows_charge:
  assumes "add_ram_usage ctx b d = Inr ctx'" and "a \<noteq> b"
  shows "resource_rows ctx' a = resource_rows ctx a"
proof -
  obtain rl where rl: "add_pending_ram_usage (resources ctx) b d = Inr rl" "resources ctx' = rl"
    using assms(1) by (auto simp: add_ram_usage_def trx_add_ram_usage_def)
  show ?thesis
  proof (cases "d = 0")
    case True
    with rl show ?thesis by (simp add: add_pending_ram_usage_def resource_rows_def)
  next
    case False
    then obtain u where u: "tbl_find ru_owner b (usage_tbl (resources ctx)) = Some u"
      "rl = put_usage (resources ctx) (u\<lparr>ram_usage := ram_usage u + word_of_int d\<rparr>)"
      using rl(1) by (auto simp: add_pending_ram_usage_def)
    have "ru_owner u = b" using tbl_find_SomeD [OF u(1)] by simp
    then have "filter (\<lambda>u. ru_owner u = a) (tbl_modify ru_owner (ru_owner u) (\<lambda>_. u\<lparr>ram_usage := ram_usage u + word_of_int d\<rparr>)
        (usage_tbl (resources ctx))) = filter (\<lambda>u. ru_owner u = a) (usage_tbl (resources ctx))"
      using assms(2) by (intro filter_modify_other) auto
    then show ?thesis by (simp add: resource_rows_def rl(2) u(2) put_usage_def)
  qed
qed

lemma resource_rows_cond:
  assumes "(if d \<noteq> 0 then add_ram_usage ctx b d else Inr ctx) = Inr ctx'" and "a \<noteq> b"
  shows "resource_rows ctx' a = resource_rows ctx a"
  using assms resource_rows_charge [of ctx b d ctx' a] by (auto split: if_splits)

lemma resource_rows_same: "resources ctx' = resources ctx \<Longrightarrow> resource_rows ctx' a = resource_rows ctx a"
  by (simp add: resource_rows_def)

text \<open>What belongs to no account in particular: the names of the accounts, the code table and the deferred transactions.\<close>

definition shared_rows :: "'k sys_ctx \<Rightarrow> u64 list \<times> code_object list \<times> (digest, u8 list) deferred_trx list" where
  "shared_rows ctx = (map ao_name (accounts ctx), codes ctx, generated_trxs ctx)"

lemma shared_rows_charge: "add_ram_usage ctx b d = Inr ctx' \<Longrightarrow> shared_rows ctx' = shared_rows ctx"
  using add_ram_usage_frame [of ctx b d ctx'] by (simp add: shared_rows_def)

lemma shared_rows_cond: "(if d \<noteq> 0 then add_ram_usage ctx b d else Inr ctx) = Inr ctx' \<Longrightarrow> shared_rows ctx' = shared_rows ctx"
  using shared_rows_charge [of ctx b d ctx'] by (auto split: if_splits)

lemma map_key_modify: "(\<And>r. key (f r) = key r) \<Longrightarrow> map key (tbl_modify key k f t) = map key t"
  by (induction t) (auto simp: tbl_modify_def)

lemma newaccount_rows:
  assumes "apply_eosio_newaccount env ctx act = Inr ctx'" and "tbl_find ao_name a (accounts ctx) \<noteq> None"
  shows "account_rows ctx' a = account_rows ctx a"
  using assms(1)
proof (cases rule: newaccountE)
  case (1 u check ctx1 d)
  have other: "na_name u \<noteq> a" using 1(4) assms(2) by auto
  from 1(5) have "account_rows ctx1 a = account_rows ctx a"
    by (cases rule: create_account_rowsE)
      (use other in \<open>auto simp: account_rows_def tbl_find_append account_metadata_default_def
         dest!: create_permission_rows split: option.splits\<close>)
  then show ?thesis using account_rows_charge [OF 1(6)] by simp
qed

lemma setcode_rows:
  assumes "apply_eosio_setcode env ctx act = Inr ctx'" and "\<not> has_authorization act a"
  shows "account_rows ctx' a = account_rows ctx a"
  using assms(1)
proof (cases rule: setcodeE)
  case (1 u m old cs1 cs2 h ctx1 d)
  have "am_name m \<noteq> a" using tbl_find_SomeD [OF 1(4)] 1(2) assms(2) by auto
  then have "account_rows ctx1 a = account_rows ctx a"
    by (simp add: 1(7) account_rows_def tbl_find_modify_other setcode_update_def)
  then show ?thesis using 1(9) account_rows_charge [of ctx1 "sc_account u" d ctx' a] by (auto split: if_splits)
qed

lemma setabi_rows:
  assumes "apply_eosio_setabi env ctx act = Inr ctx'" and "\<not> has_authorization act a"
  shows "account_rows ctx' a = account_rows ctx a"
  using assms(1)
proof (cases rule: setabiE)
  case (1 u acc m ctx1 d)
  have "am_name m \<noteq> a" "ao_name acc \<noteq> a"
    using tbl_find_SomeD [OF 1(3)] tbl_find_SomeD [OF 1(4)] 1(2) assms(2) by auto
  then have "account_rows ctx1 a = account_rows ctx a"
    by (simp add: 1(5) account_rows_def tbl_find_modify_other)
  then show ?thesis using 1(7) account_rows_charge [of ctx1 "sa_account u" d ctx' a] by (auto split: if_splits)
qed

lemma updateauth_rows:
  assumes "apply_eosio_updateauth env ctx act = Inr ctx'" and "\<not> has_authorization act a" and wf: "auth_wf (auths ctx)"
  shows "account_rows ctx' a = account_rows ctx a"
  using assms(1)
proof (cases rule: updateauthE)
  case (modify u q)
  have q: "q \<in> set (perms (auths ctx))" "po_owner q \<noteq> a"
    using get_permissionD [OF wf modify(3)] modify(2) assms(2) by auto
  have "filter (\<lambda>p. po_owner p = a) (perms (modify_permission (pending_block_time env) (auths ctx) q (ua_auth u))) =
      filter (\<lambda>p. po_owner p = a) (perms (auths ctx))"
    using perm_id_unique [OF wf _ q(1)] q(2) by (simp add: modify_permission_def) (rule filter_modify_other, fastforce)
  then show ?thesis
    unfolding account_rows_charge [OF modify(4)] by (simp add: account_rows_def modify_permission_def)
next
  case (create u adb p parent_id)
  then have "ua_account u \<noteq> a" using assms(2) by auto
  then show ?thesis
    unfolding account_rows_charge [OF create(6)] using create_permission_rows [OF create(4)]
    by (simp add: account_rows_def)
qed

lemma deleteauth_rows:
  assumes "apply_eosio_deleteauth env ctx act = Inr ctx'" and "\<not> has_authorization act a" and wf: "auth_wf (auths ctx)"
  shows "account_rows ctx' a = account_rows ctx a"
  using assms(1)
proof (cases rule: deleteauthE)
  case (1 r p adb)
  have p: "p \<in> set (perms (auths ctx))" "po_owner p \<noteq> a"
    using get_permissionD [OF wf 1(5)] 1(1) assms(2) by auto
  have rows: "perms adb = tbl_remove po_id (po_id p) (perms (auths ctx))" "links adb = links (auths ctx)"
    using 1(6) by (auto simp: remove_permission_def)
  have "filter (\<lambda>p. po_owner p = a) (perms adb) = filter (\<lambda>p. po_owner p = a) (perms (auths ctx))"
    unfolding rows using perm_id_unique [OF wf _ p(1)] p(2) by (auto intro!: filter_remove_other)
  then show ?thesis unfolding account_rows_charge [OF 1(7)] by (simp add: account_rows_def rows(2))
qed

lemma linkauth_rows:
  assumes "apply_eosio_linkauth env ctx act = Inr ctx'" and "\<not> has_authorization act a"
  shows "account_rows ctx' a = account_rows ctx a"
  using assms(1)
proof (cases rule: linkauthE)
  case (modify r l)
  have l: "by_action_name l = (la_account r, la_code r, la_type r)" "la_account r \<noteq> a"
    using tbl_find_SomeD [OF modify(2)] modify(1) assms(2) by auto
  have "filter (\<lambda>l. pl_account l = a)
      (tbl_modify by_action_name (by_action_name l) (\<lambda>l. l\<lparr>required_permission := la_requirement r\<rparr>) (links (auths ctx))) =
      filter (\<lambda>l. pl_account l = a) (links (auths ctx))"
    by (rule filter_modify_other) (use l in \<open>auto simp: by_action_name_def\<close>)
  then show ?thesis by (simp add: modify(3) account_rows_def)
next
  case (create r l)
  then have "la_account r \<noteq> a" using assms(2) by auto
  then show ?thesis unfolding account_rows_charge [OF create(4)] using create(2) by (simp add: account_rows_def)
qed

lemma unlinkauth_rows:
  assumes "apply_eosio_unlinkauth env ctx act = Inr ctx'" and "\<not> has_authorization act a"
  shows "account_rows ctx' a = account_rows ctx a"
  using assms(1)
proof (cases rule: unlinkauthE)
  case (1 r l ctx1)
  have "un_account r \<noteq> a" using 1(1) assms(2) by auto
  then have "filter (\<lambda>l. pl_account l = a) (tbl_remove by_action_name (un_account r, un_code r, un_type r) (links (auths ctx1))) =
      filter (\<lambda>l. pl_account l = a) (links (auths ctx1))"
    by (auto simp: by_action_name_def intro!: filter_remove_other)
  then show ?thesis using account_rows_charge [OF 1(3), of a] by (simp add: 1(4) account_rows_def)
qed

lemma canceldelay_rows:
  assumes "apply_eosio_canceldelay env ctx act = Inr ctx'"
  shows "account_rows ctx' a = account_rows ctx a"
  using assms
proof (cases rule: canceldelayE)
  case (some k g ctx1)
  then show ?thesis using account_rows_charge [OF some(2), of a] by (simp add: account_rows_def)
qed simp

text \<open>The other tables, handler by handler.\<close>

lemma newaccount_shared:
  fixes env :: "('d, 'k::linorder) sys_env"
  assumes "apply_eosio_newaccount env ctx act = Inr ctx'"
  obtains u where "unpack_newaccount env (act_data act) = Inr u" and "has_authorization act (na_creator u)"
    and "shared_rows ctx' = (map ao_name (accounts ctx) @ [na_name u], codes ctx, generated_trxs ctx)"
    and "\<And>a. tbl_find ao_name a (accounts ctx) \<noteq> None \<Longrightarrow> resource_rows ctx' a = resource_rows ctx a"
  using assms
proof (cases rule: newaccountE)
  case (1 u check ctx1 d)
  from 1(5) have rows: "shared_rows ctx1 = (map ao_name (accounts ctx) @ [na_name u], codes ctx, generated_trxs ctx)"
    "a \<noteq> na_name u \<Longrightarrow> resource_rows ctx1 a = resource_rows ctx a" for a
    by (cases rule: create_account_rowsE;
        auto simp: shared_rows_def resource_rows_def initialize_account_def tbl_create_Inr_iff)+
  show thesis
  proof (rule that [OF 1(1,2)])
    show "shared_rows ctx' = (map ao_name (accounts ctx) @ [na_name u], codes ctx, generated_trxs ctx)"
      using shared_rows_charge [OF 1(6)] rows(1) by simp
    show "resource_rows ctx' a = resource_rows ctx a" if "tbl_find ao_name a (accounts ctx) \<noteq> None" for a
    proof -
      have "a \<noteq> na_name u" using that 1(4) by auto
      then show ?thesis using resource_rows_charge [OF 1(6)] rows(2) by simp
    qed
  qed
qed

lemma setcode_shared:
  assumes "apply_eosio_setcode env ctx act = Inr ctx'"
  obtains u cs where "unpack_setcode env (act_data act) = Inr u" and "has_authorization act (sc_account u)"
    and "shared_rows ctx' = (map ao_name (accounts ctx), cs, generated_trxs ctx)"
    and "\<And>a. \<not> has_authorization act a \<Longrightarrow> resource_rows ctx' a = resource_rows ctx a"
  using assms
proof (cases rule: setcodeE)
  case (1 u m old cs1 cs2 h ctx1 d)
  show thesis
  proof (rule that [OF 1(1,2), of cs2])
    show "shared_rows ctx' = (map ao_name (accounts ctx), cs2, generated_trxs ctx)"
      using shared_rows_cond [OF 1(9)] 1(7) by (simp add: shared_rows_def)
    show "resource_rows ctx' a = resource_rows ctx a" if "\<not> has_authorization act a" for a
      using resource_rows_cond [OF 1(9), of a] that 1(2) resource_rows_same [of ctx1 ctx a] 1(7) by auto
  qed
qed

lemma setabi_shared:
  assumes "apply_eosio_setabi env ctx act = Inr ctx'"
  shows "shared_rows ctx' = shared_rows ctx \<and> (\<not> has_authorization act a \<longrightarrow> resource_rows ctx' a = resource_rows ctx a)"
  using assms
proof (cases rule: setabiE)
  case (1 u acc m ctx1 d)
  have "shared_rows ctx' = shared_rows ctx"
    unfolding shared_rows_cond [OF 1(7)] by (simp add: 1(5) shared_rows_def map_key_modify)
  moreover have "resource_rows ctx' a = resource_rows ctx a" if "\<not> has_authorization act a"
    using resource_rows_cond [OF 1(7), of a] that 1(2) resource_rows_same [of ctx1 ctx a] 1(5) by auto
  ultimately show ?thesis by blast
qed

text \<open>The four handlers that change only permissions and links.\<close>

lemma auths_charge_shared:
  assumes "add_ram_usage (ctx\<lparr>auths := adb\<rparr>) b d = Inr ctx'"
  shows "shared_rows ctx' = shared_rows ctx" and "a \<noteq> b \<Longrightarrow> resource_rows ctx' a = resource_rows ctx a"
  using shared_rows_charge [OF assms] resource_rows_charge [OF assms, of a]
  by (simp_all add: shared_rows_def resource_rows_def)

lemma updateauth_shared:
  assumes "apply_eosio_updateauth env ctx act = Inr ctx'" and wf: "auth_wf (auths ctx)"
  shows "shared_rows ctx' = shared_rows ctx \<and> (\<not> has_authorization act a \<longrightarrow> resource_rows ctx' a = resource_rows ctx a)"
  using assms(1)
proof (cases rule: updateauthE)
  case (modify u q)
  have "po_owner q = ua_account u" using get_permissionD [OF wf modify(3)] by auto
  then show ?thesis using auths_charge_shared [OF modify(4)] modify(2) by (cases "a = ua_account u") auto
next
  case (create u adb p parent_id)
  then show ?thesis using auths_charge_shared [OF create(6)] by (cases "a = ua_account u") auto
qed

lemma deleteauth_shared:
  assumes "apply_eosio_deleteauth env ctx act = Inr ctx'"
  shows "shared_rows ctx' = shared_rows ctx \<and> (\<not> has_authorization act a \<longrightarrow> resource_rows ctx' a = resource_rows ctx a)"
  using assms
proof (cases rule: deleteauthE)
  case (1 r p adb)
  then show ?thesis using auths_charge_shared [OF 1(7)] by (cases "a = da_account r") auto
qed

lemma linkauth_shared:
  assumes "apply_eosio_linkauth env ctx act = Inr ctx'"
  shows "shared_rows ctx' = shared_rows ctx \<and> (\<not> has_authorization act a \<longrightarrow> resource_rows ctx' a = resource_rows ctx a)"
  using assms
proof (cases rule: linkauthE)
  case (modify r l)
  then show ?thesis by (simp add: shared_rows_def resource_rows_def)
next
  case (create r l)
  then show ?thesis using auths_charge_shared [OF create(4)] by (cases "a = la_account r") auto
qed

lemma unlinkauth_shared:
  assumes "apply_eosio_unlinkauth env ctx act = Inr ctx'"
  shows "shared_rows ctx' = shared_rows ctx \<and> (\<not> has_authorization act a \<longrightarrow> resource_rows ctx' a = resource_rows ctx a)"
  using assms
proof (cases rule: unlinkauthE)
  case (1 r l ctx1)
  have "pl_account l = un_account r" using tbl_find_SomeD [OF 1(2)] by (simp add: by_action_name_def)
  then show ?thesis
    using shared_rows_charge [OF 1(3)] resource_rows_charge [OF 1(3), of a] 1(1)
    by (auto simp: 1(4) shared_rows_def resource_rows_def)
qed

lemma canceldelay_shared:
  assumes "apply_eosio_canceldelay env ctx act = Inr ctx'"
  obtains (none) "ctx' = ctx"
  | (some) u g where "unpack_canceldelay env (act_data act) = Inr u" and "has_authorization act (actor (canceling_auth u))"
      and "shared_rows ctx' = (map ao_name (accounts ctx), codes ctx,
        tbl_remove by_sender_id (0, transaction_id_to_sender_id (cd_trx_id u)) (generated_trxs ctx))"
      and "g \<in> set (generated_trxs ctx) - set (generated_trxs ctx')"
      and "\<And>a. a \<noteq> dt_payer g \<Longrightarrow> resource_rows ctx' a = resource_rows ctx a"
  using assms
proof (cases rule: canceldelayE)
  case (some k g ctx1 u)
  note frame = add_ram_usage_frame [OF some(2)]
  show thesis
  proof (rule that(2) [OF some(4,6)])
    show "shared_rows ctx' = (map ao_name (accounts ctx), codes ctx,
        tbl_remove by_sender_id (0, transaction_id_to_sender_id (cd_trx_id u)) (generated_trxs ctx))"
      using frame some(3,5) by (simp add: shared_rows_def)
    show "g \<in> set (generated_trxs ctx) - set (generated_trxs ctx')"
      using tbl_find_SomeD [OF some(1)] some(3) by (auto simp: tbl_remove_def)
    show "resource_rows ctx' a = resource_rows ctx a" if "a \<noteq> dt_payer g" for a
      using resource_rows_charge [OF some(2) that] some(3) by (simp add: resource_rows_def)
  qed
qed

lemma native_account_rows:
  assumes "apply_native env ctx rcv act = Inr ctx'" and "auth_wf (auths ctx)"
    and "tbl_find ao_name a (accounts ctx) \<noteq> None" and "\<not> has_authorization act a"
  shows "account_rows ctx' a = account_rows ctx a"
  using apply_native_handlers [of env ctx rcv act] unfolding assms(1)
  by (elim insertE emptyE)
    (auto dest!: sym [of "Inr ctx'"] intro: newaccount_rows [OF _ assms(3)] setcode_rows [OF _ assms(4)]
       setabi_rows [OF _ assms(4)] updateauth_rows [OF _ assms(4,2)] deleteauth_rows [OF _ assms(4,2)]
       linkauth_rows [OF _ assms(4)] unlinkauth_rows [OF _ assms(4)] canceldelay_rows)

text \<open>
  C17 (safety). A native action that succeeds changes no permission, no link, no ABI, no code, no
  metadata and no resource row of an existing account that is not among the actors of the action's
  authorizations, except the RAM usage of the payer of a deferred transaction that it cancels.  It
  creates an account only with the authorization of the creator, changes the code table only with that
  of the account whose code it sets, and removes a deferred transaction only with that of the actor of
  the cancelling permission, and then the one with the given id.
\<close>

theorem native_needs_authorization:
  assumes "apply_native env ctx rcv act = Inr ctx'" and "auth_wf (auths ctx)"
  shows "(tbl_find ao_name a (accounts ctx) \<noteq> None \<and> \<not> has_authorization act a \<longrightarrow>
      account_rows ctx' a = account_rows ctx a \<and>
      (resource_rows ctx' a = resource_rows ctx a \<or>
       (\<exists>g \<in> set (generated_trxs ctx) - set (generated_trxs ctx'). dt_payer g = a))) \<and>
    (map ao_name (accounts ctx') \<noteq> map ao_name (accounts ctx) \<longrightarrow>
      (\<exists>u. unpack_newaccount env (act_data act) = Inr u \<and> has_authorization act (na_creator u) \<and>
         map ao_name (accounts ctx') = map ao_name (accounts ctx) @ [na_name u])) \<and>
    (codes ctx' \<noteq> codes ctx \<longrightarrow>
      (\<exists>u. unpack_setcode env (act_data act) = Inr u \<and> has_authorization act (sc_account u))) \<and>
    (generated_trxs ctx' \<noteq> generated_trxs ctx \<longrightarrow>
      (\<exists>u. unpack_canceldelay env (act_data act) = Inr u \<and> has_authorization act (actor (canceling_auth u)) \<and>
         generated_trxs ctx' = tbl_remove by_sender_id (0, transaction_id_to_sender_id (cd_trx_id u)) (generated_trxs ctx)))"
  (is "(?other \<longrightarrow> _ \<and> ?res) \<and> ?new \<and> ?code \<and> ?defer")
proof -
  have keeps: "(?other \<longrightarrow> ?res) \<and> ?new \<and> ?code \<and> ?defer"
    if "shared_rows ctx' = shared_rows ctx" "?other \<longrightarrow> resource_rows ctx' a = resource_rows ctx a"
    using that by (simp add: shared_rows_def)
  have "(?other \<longrightarrow> ?res) \<and> ?new \<and> ?code \<and> ?defer"
    using apply_native_handlers [of env ctx rcv act] unfolding assms(1) insert_iff empty_iff
  proof (elim disjE FalseE)
    assume h: "Inr ctx' = apply_eosio_newaccount env ctx act"
    show ?thesis by (rule newaccount_shared [OF h [symmetric]]) (auto simp: shared_rows_def)
  next
    assume h: "Inr ctx' = apply_eosio_setcode env ctx act"
    show ?thesis by (rule setcode_shared [OF h [symmetric]]) (auto simp: shared_rows_def)
  next
    assume h: "Inr ctx' = apply_eosio_setabi env ctx act"
    show ?thesis using setabi_shared [OF h [symmetric]] by (intro keeps) auto
  next
    assume h: "Inr ctx' = apply_eosio_updateauth env ctx act"
    show ?thesis using updateauth_shared [OF h [symmetric] assms(2)] by (intro keeps) auto
  next
    assume h: "Inr ctx' = apply_eosio_deleteauth env ctx act"
    show ?thesis using deleteauth_shared [OF h [symmetric]] by (intro keeps) auto
  next
    assume h: "Inr ctx' = apply_eosio_linkauth env ctx act"
    show ?thesis using linkauth_shared [OF h [symmetric]] by (intro keeps) auto
  next
    assume h: "Inr ctx' = apply_eosio_unlinkauth env ctx act"
    show ?thesis using unlinkauth_shared [OF h [symmetric]] by (intro keeps) auto
  next
    assume h: "Inr ctx' = apply_eosio_canceldelay env ctx act"
    show ?thesis
    proof (rule canceldelay_shared [OF h [symmetric]])
      fix u g
      assume u: "unpack_canceldelay env (act_data act) = Inr u" "has_authorization act (actor (canceling_auth u))"
        "shared_rows ctx' = (map ao_name (accounts ctx), codes ctx,
           tbl_remove by_sender_id (0, transaction_id_to_sender_id (cd_trx_id u)) (generated_trxs ctx))"
        and g: "g \<in> set (generated_trxs ctx) - set (generated_trxs ctx')"
          "\<And>a. a \<noteq> dt_payer g \<Longrightarrow> resource_rows ctx' a = resource_rows ctx a"
      have "?res" using g by (cases "a = dt_payer g") auto
      with u show ?thesis by (auto simp: shared_rows_def)
    qed simp
  qed (use keeps in auto)
  then show ?thesis using native_account_rows [OF assms] by blast
qed

theorem native_needs_authorization_witness:
  "\<exists>ctx'. apply_native sample_sys_env (sample_sys_ctx\<lparr>accounts := accounts sample_sys_ctx @ [\<lparr>ao_name = 6, ao_creation_date = 0, ao_abi = [9]\<rparr>]\<rparr>)
       system_account_name sample_setabi = Inr ctx' \<and>
     tbl_find ao_name 6 (accounts ctx') = Some \<lparr>ao_name = 6, ao_creation_date = 0, ao_abi = [9]\<rparr>"
proof -
  let ?c = "sample_sys_ctx\<lparr>accounts := accounts sample_sys_ctx @ [\<lparr>ao_name = 6, ao_creation_date = 0, ao_abi = [9]\<rparr>]\<rparr>"
  have "is_ok (apply_native sample_sys_env ?c system_account_name sample_setabi)"
    by (simp add: apply_native_def sample_setabi_def native_name_values system_name_values apply_eosio_setabi_def
        data_as_def sample_sys_env_def sample_sys_ctx_def require_authorization_def account_metadata_default_def
        add_ram_usage_def trx_add_ram_usage_def add_pending_ram_usage_def tbl_get_def tbl_modify_def tbl_find_def Let_def
        initialize_database_def word_le_nat_alt del: bind_res_Inr_iff EOS_ASSERT_Inr_iff)
  then obtain ctx' where r: "apply_native sample_sys_env ?c system_account_name sample_setabi = Inr ctx'"
    by (auto simp: is_ok_iff)
  have f: "tbl_find ao_name 6 (accounts ?c) = Some \<lparr>ao_name = 6, ao_creation_date = 0, ao_abi = [9]\<rparr>"
    by (simp add: sample_sys_ctx_def tbl_find_def)
  have "auth_wf (auths ?c)" using sample_auth_wf by (simp add: sample_sys_ctx_def)
  moreover have "\<not> has_authorization sample_setabi 6" by (simp add: has_authorization_def sample_setabi_def)
  ultimately have "account_rows ctx' 6 = account_rows ?c 6"
    using native_needs_authorization [OF r, of 6] f by simp
  then show ?thesis using r f by (auto simp: account_rows_def)
qed

section \<open>Owner and active permissions\<close>

definition owner_and_active :: "'k auth_db \<Rightarrow> u64 \<Rightarrow> bool" where
  "owner_and_active db n \<longleftrightarrow>
     (\<exists>ow ac. tbl_find by_owner (n, owner_name) (perms db) = Some ow \<and>
        tbl_find by_owner (n, active_name) (perms db) = Some ac \<and> po_parent ow = 0 \<and> po_parent ac = po_id ow)"

definition accounts_owned :: "'k sys_ctx \<Rightarrow> bool" where
  "accounts_owned ctx \<longleftrightarrow> (\<forall>acc \<in> set (accounts ctx). owner_and_active (auths ctx) (ao_name acc))"

lemma owner_and_active_create:
  assumes "create_permission now db account nm parent auth t0 = Inr (db', p)" and "owner_and_active db n"
  shows "owner_and_active db' n"
proof -
  have "tbl_find by_owner k (perms db') = (case tbl_find by_owner k (perms db) of None \<Rightarrow> tbl_find by_owner k [p] | Some r \<Rightarrow> Some r)" for k
    using create_permission_rows [OF assms(1)] by (simp add: tbl_find_append)
  with assms(2) show ?thesis by (auto simp: owner_and_active_def)
qed

lemma owner_and_active_modify:
  assumes "owner_and_active db n"
  shows "owner_and_active (modify_permission now db q auth) n"
proof -
  let ?g = "\<lambda>r. if po_id r = po_id q then r\<lparr>po_auth := auth, po_last_updated := now\<rparr> else r"
  have "tbl_find by_owner k (perms (modify_permission now db q auth)) = map_option ?g (tbl_find by_owner k (perms db))" for k
    by (simp add: modify_permission_def tbl_modify_def) (rule tbl_find_map, simp add: by_owner_def)
  moreover obtain ow ac where "tbl_find by_owner (n, owner_name) (perms db) = Some ow"
      "tbl_find by_owner (n, active_name) (perms db) = Some ac" "po_parent ow = 0" "po_parent ac = po_id ow"
    using assms by (auto simp: owner_and_active_def)
  ultimately show ?thesis unfolding owner_and_active_def by (intro exI [of _ "?g ow"] exI [of _ "?g ac"]) simp
qed

lemma owner_and_active_remove:
  assumes "remove_permission db p = Inr db'" and "auth_wf db" and "p \<in> set (perms db)"
    and "po_name p \<noteq> owner_name" "po_name p \<noteq> active_name" and "owner_and_active db n"
  shows "owner_and_active db' n"
proof -
  have ps: "perms db' = tbl_remove po_id (po_id p) (perms db)" using assms(1) by (auto simp: remove_permission_def)
  have uni: "tbl_unique by_owner (perms db)" "tbl_unique by_owner (perms db')"
    using assms(2) by (auto simp: auth_wf_def ps tbl_unique_def tbl_remove_def distinct_map_filter)
  have keep: "tbl_find by_owner (n, x) (perms db') = Some r"
    if "tbl_find by_owner (n, x) (perms db) = Some r" "x \<noteq> po_name p" for x r
  proof -
    have r: "r \<in> set (perms db)" "by_owner r = (n, x)" using tbl_find_SomeD [OF that(1)] by auto
    then have "po_id r \<noteq> po_id p" using perm_id_unique [OF assms(2) r(1) assms(3)] that(2) by (auto simp: by_owner_def)
    then show ?thesis using r uni(2) by (simp add: tbl_find_Some_iff ps tbl_remove_def)
  qed
  from assms(6) obtain ow ac where f: "tbl_find by_owner (n, owner_name) (perms db) = Some ow"
      "tbl_find by_owner (n, active_name) (perms db) = Some ac" "po_parent ow = 0" "po_parent ac = po_id ow"
    by (auto simp: owner_and_active_def)
  then show ?thesis
    using keep [OF f(1)] keep [OF f(2)] assms(4,5) unfolding owner_and_active_def by (metis (no_types))
qed

lemma newaccount_owned:
  assumes "apply_eosio_newaccount env ctx act = Inr ctx'" and "accounts_owned ctx"
  shows "accounts_owned ctx'"
  using assms(1)
proof (cases rule: newaccountE)
  case (1 u check ctx1 d)
  from 1(5) have "accounts_owned ctx1"
  proof (cases rule: create_account_rowsE)
    case (1 adb1 po adb pa rl)
    note o = create_permission_rows [OF 1(3)] and a = create_permission_rows [OF 1(4)]
    have free: "tbl_find by_owner (na_name u, owner_name) (perms (auths ctx)) = None"
        "tbl_find by_owner (na_name u, active_name) (perms adb1) = None"
      using 1(3,4) by (auto simp: create_permission_def Let_def tbl_create_Inr_iff by_owner_def)
    have "tbl_find by_owner (na_name u, owner_name) (perms adb1) = Some po"
      using free(1) o by (simp add: tbl_find_append by_owner_def)
    moreover have "perms adb = perms adb1 @ [pa]" using a by simp
    ultimately have "tbl_find by_owner (na_name u, owner_name) (perms adb) = Some po"
        "tbl_find by_owner (na_name u, active_name) (perms adb) = Some pa"
      using free(2) a by (simp_all add: tbl_find_append by_owner_def)
    then have "owner_and_active adb (na_name u)" using o a by (simp add: owner_and_active_def)
    moreover have "owner_and_active adb n" if "owner_and_active (auths ctx) n" for n
      using that owner_and_active_create [OF 1(3)] owner_and_active_create [OF 1(4)] by simp
    ultimately show ?thesis using assms(2) by (auto simp: accounts_owned_def 1(6))
  qed
  then show ?thesis using add_ram_usage_frame [OF 1(6)] by (simp add: accounts_owned_def)
qed

lemma accounts_owned_names:
  assumes "accounts_owned ctx" and "ao_name ` set (accounts ctx') \<subseteq> ao_name ` set (accounts ctx)"
    and "\<And>n. owner_and_active (auths ctx) n \<Longrightarrow> owner_and_active (auths ctx') n"
  shows "accounts_owned ctx'"
proof -
  have "\<forall>n \<in> ao_name ` set (accounts ctx). owner_and_active (auths ctx) n"
    using assms(1) by (auto simp: accounts_owned_def)
  with assms(2,3) show ?thesis unfolding accounts_owned_def by blast
qed

lemma owner_and_active_links [simp]: "owner_and_active (db\<lparr>links := ls\<rparr>) n = owner_and_active db n"
  by (simp add: owner_and_active_def)

lemma setcode_owned:
  assumes "apply_eosio_setcode env ctx act = Inr ctx'" and "accounts_owned ctx"
  shows "accounts_owned ctx'"
  using assms(1)
proof (cases rule: setcodeE)
  case (1 u m old cs1 cs2 h ctx1 d)
  have "accounts_owned ctx1" using assms(2) by (simp add: 1(7) accounts_owned_def)
  then show ?thesis
    using 1(9) add_ram_usage_frame [of ctx1 "sc_account u" d ctx'] by (auto simp: accounts_owned_def split: if_splits)
qed

lemma setabi_owned:
  assumes "apply_eosio_setabi env ctx act = Inr ctx'" and "accounts_owned ctx"
  shows "accounts_owned ctx'"
  using assms(1)
proof (cases rule: setabiE)
  case (1 u acc m ctx1 d)
  have "accounts_owned ctx1"
    by (rule accounts_owned_names [OF assms(2)]) (auto simp: 1(5) tbl_modify_def intro: rev_image_eqI)
  then show ?thesis
    using 1(7) add_ram_usage_frame [of ctx1 "sa_account u" d ctx'] by (auto simp: accounts_owned_def split: if_splits)
qed

lemma updateauth_owned:
  assumes "apply_eosio_updateauth env ctx act = Inr ctx'" and "accounts_owned ctx"
  shows "accounts_owned ctx'"
  using assms(1)
proof (cases rule: updateauthE)
  case (modify u q)
  show ?thesis
    by (rule accounts_owned_names [OF assms(2)])
      (auto simp: add_ram_usage_frame [OF modify(4)] owner_and_active_modify)
next
  case (create u adb p parent_id)
  show ?thesis
    by (rule accounts_owned_names [OF assms(2)])
      (auto simp: add_ram_usage_frame [OF create(6)] owner_and_active_create [OF create(4)])
qed

lemma deleteauth_owned:
  assumes "apply_eosio_deleteauth env ctx act = Inr ctx'" and "accounts_owned ctx" and wf: "auth_wf (auths ctx)"
  shows "accounts_owned ctx'"
  using assms(1)
proof (cases rule: deleteauthE)
  case (1 r p adb)
  have p: "p \<in> set (perms (auths ctx))" "po_name p \<noteq> owner_name" "po_name p \<noteq> active_name"
    using get_permissionD [OF wf 1(5)] 1(2,3) by auto
  show ?thesis
    by (rule accounts_owned_names [OF assms(2)])
      (auto simp: add_ram_usage_frame [OF 1(7)] intro: owner_and_active_remove [OF 1(6) wf p])
qed

lemma linkauth_owned:
  assumes "apply_eosio_linkauth env ctx act = Inr ctx'" and "accounts_owned ctx"
  shows "accounts_owned ctx'"
  using assms(1)
proof (cases rule: linkauthE)
  case (create r l)
  show ?thesis using assms(2) by (simp add: accounts_owned_def add_ram_usage_frame [OF create(4)])
qed (use assms(2) in \<open>simp add: accounts_owned_def\<close>)

lemma unlinkauth_owned:
  assumes "apply_eosio_unlinkauth env ctx act = Inr ctx'" and "accounts_owned ctx"
  shows "accounts_owned ctx'"
  using assms(1)
proof (cases rule: unlinkauthE)
  case (1 r l ctx1)
  show ?thesis using assms(2) add_ram_usage_frame [OF 1(3)] by (simp add: accounts_owned_def 1(4))
qed

lemma canceldelay_owned:
  assumes "apply_eosio_canceldelay env ctx act = Inr ctx'" and "accounts_owned ctx"
  shows "accounts_owned ctx'"
  using assms(1)
proof (cases rule: canceldelayE)
  case (some k g ctx1)
  then show ?thesis using assms(2) add_ram_usage_frame [OF some(2)] by (simp add: accounts_owned_def)
qed (use assms(2) in simp)

text \<open>
  C23 (invariant). Accounts keep their owner and active permissions: if every account has an owner
  permission without a parent and an active permission below it, this still holds after any native
  action, for the accounts it creates as well.
\<close>

theorem native_keeps_owner_and_active:
  assumes "apply_native env ctx rcv act = Inr ctx'" and "auth_wf (auths ctx)" and "accounts_owned ctx"
  shows "accounts_owned ctx'"
  using apply_native_handlers [of env ctx rcv act] unfolding assms(1)
  by (elim insertE emptyE)
    (use assms(3) in \<open>auto dest!: sym [of "Inr ctx'"] intro: newaccount_owned setcode_owned setabi_owned updateauth_owned
       deleteauth_owned [OF _ _ assms(2)] linkauth_owned unlinkauth_owned canceldelay_owned\<close>)

theorem native_keeps_owner_and_active_witness:
  "\<exists>ctx'. apply_native sample_sys_env sample_sys_ctx system_account_name sample_setabi = Inr ctx' \<and> accounts_owned ctx'"
proof -
  obtain ctx' where r: "apply_native sample_sys_env sample_sys_ctx system_account_name sample_setabi = Inr ctx'"
    using sample_setabi_runs by (auto simp: is_ok_iff)
  have "auth_wf (auths sample_sys_ctx)" using sample_auth_wf by (simp add: sample_sys_ctx_def)
  moreover have "accounts_owned sample_sys_ctx"
    by (simp add: accounts_owned_def sample_sys_ctx_def owner_and_active_def sample_auth_defs tbl_find_def by_owner_def)
  ultimately show ?thesis using native_keeps_owner_and_active [OF r] r by blast
qed

end
