(* ===== verification/Block_Header.thy ===== *)
theory Block_Header
  imports Merkle Block_Time Chain_Name "HOL-Library.AList"
begin

text \<open>
  Block headers and the header state of a branch:
  \<^verbatim>\<open>libraries/chain/include/eosio/chain/block_header.hpp\<close>, \<^verbatim>\<open>block_header.cpp\<close>, \<^verbatim>\<open>producer_schedule.hpp\<close>,
  \<^verbatim>\<open>protocol_feature_activation.cpp\<close> and \<^verbatim>\<open>block_header_state.cpp\<close>, which decides the producer of a
  slot, counts the confirmations of blocks and computes the last irreversible block.  Hashing,
  signatures, serialization and the byte reversal of the \<open>fc\<close> library are parameters.
\<close>

section \<open>Headers\<close>

record 'k producer_key =
  pk_producer_name :: u64
  pk_block_signing_key :: 'k

record 'k producer_schedule =
  ps_version :: u32
  ps_producers :: "'k producer_key list"

fun find_producer_key :: "'k \<Rightarrow> u64 \<Rightarrow> 'k producer_key list \<Rightarrow> 'k" where
  "find_producer_key dflt p [] = dflt"
| "find_producer_key dflt p (i # is) =
     (if pk_producer_name i = p then pk_block_signing_key i else find_producer_key dflt p is)"

definition get_producer_key :: "'k \<Rightarrow> 'k producer_schedule \<Rightarrow> u64 \<Rightarrow> 'k" where
  "get_producer_key dflt s p = find_producer_key dflt p (ps_producers s)"

record 'k block_header =
  bh_timestamp :: u32
  bh_producer :: u64
  bh_confirmed :: u16
  bh_previous :: digest
  transaction_mroot :: digest
  action_mroot :: digest
  schedule_version :: u32
  new_producers :: "'k producer_schedule option"
  header_extensions :: "(u16 \<times> u8 list) list"

record ('k, 's) signed_block_header = "'k block_header" +
  producer_signature :: 's

text \<open>The parameters: what the code takes from the \<open>fc\<close> library.\<close>

record ('k, 's) crypto =
  endian_reverse_u32 :: "u32 \<Rightarrow> u32"
  header_digest :: "'k block_header \<Rightarrow> digest"
  schedule_digest :: "'k producer_schedule \<Rightarrow> digest"
  pair_digest :: "digest \<times> digest \<Rightarrow> digest"
  default_digest :: digest
  recover_key :: "'s \<Rightarrow> digest \<Rightarrow> bool \<Rightarrow> 'k res"
  unpack_activation :: "u8 list \<Rightarrow> digest list res"
  pack_activation :: "digest list \<Rightarrow> u8 list"

definition num_from_id :: "('k, 's) crypto \<Rightarrow> digest \<Rightarrow> u32" where
  "num_from_id c i = endian_reverse_u32 c (ucast (hash0 i))"

definition header_block_num :: "('k, 's) crypto \<Rightarrow> ('k, 'z) block_header_scheme \<Rightarrow> u32" where
  "header_block_num c h = num_from_id c (bh_previous h) + 1"

text \<open>The digest covers the fields of \<open>block_header\<close> only, not the signature.\<close>

definition header_id :: "('k, 's) crypto \<Rightarrow> ('k, 'z) block_header_scheme \<Rightarrow> digest" where
  "header_id c h =
     (let result = header_digest c (block_header.truncate h)
      in result\<lparr>hash0 := (hash0 result AND 0xffffffff00000000) + ucast (endian_reverse_u32 c (header_block_num c h))\<rparr>)"

text \<open>Unpacking a protocol feature activation runs \<open>reflector_init\<close>.\<close>

definition reflector_init :: "digest list \<Rightarrow> unit res" where
  "reflector_init protocol_features =
     EOS_ASSERT (length protocol_features > 0) ill_formed_protocol_feature_activation
     (EOS_ASSERT (distinct protocol_features) ill_formed_protocol_feature_activation (Inr ()))"

definition extract_extension :: "('k, 's) crypto \<Rightarrow> u16 \<Rightarrow> u8 list \<Rightarrow> digest list option res" where
  "extract_extension c i data =
     (if i = 0
      then bind_res (unpack_activation c data) (\<lambda>fs. bind_res (reflector_init fs) (\<lambda>_. Inr (Some fs)))
      else Inr None)"

fun extract_extensions :: "('k, 's) crypto \<Rightarrow> nat \<Rightarrow> u16 \<Rightarrow> (u16 \<times> u8 list) list \<Rightarrow> digest list list res" where
  "extract_extensions c n lower [] = Inr []"
| "extract_extensions c n lower ((i, data) # es) =
     EOS_ASSERT (i \<ge> lower) invalid_block_header_extension
     (bind_res (extract_extension c i data) (\<lambda>match.
        case match of
          None \<Rightarrow> Inl invalid_block_header_extension
        | Some fs \<Rightarrow>
            EOS_ASSERT (n = 0 \<or> i > lower) invalid_block_header_extension
            (bind_res (extract_extensions c (n + 1) i es) (\<lambda>rest. Inr (fs # rest)))))"

definition validate_and_extract_header_extensions :: "('k, 's) crypto \<Rightarrow> ('k, 'z) block_header_scheme \<Rightarrow> digest list list res" where
  "validate_and_extract_header_extensions c h = extract_extensions c 0 0 (header_extensions h)"

definition activation_set_union :: "digest set \<Rightarrow> digest list \<Rightarrow> digest set res" where
  "activation_set_union orig additional =
     EOS_ASSERT (card (orig \<union> set additional) = card orig + length additional) invalid_block_header_extension
       (Inr (orig \<union> set additional))"

section \<open>Header states\<close>

record 'k schedule_info =
  schedule_lib_num :: u32
  schedule_hash :: digest
  si_schedule :: "'k producer_schedule"

text \<open>The two \<open>flat_map\<close>s of the source are association lists with distinct keys.\<close>

record 'k header_common =
  block_num :: u32
  dpos_proposed_irreversible_blocknum :: u32
  dpos_irreversible_blocknum :: u32
  active_schedule :: "'k producer_schedule"
  blockroot_merkle :: incremental_merkle
  producer_to_last_produced :: "(u64 \<times> u32) list"
  producer_to_last_implied_irb :: "(u64 \<times> u32) list"
  block_signing_key :: 'k
  confirm_count :: "u8 list"

record 'k pending_header = "'k header_common" +
  prev_activated_protocol_features :: "digest set"
  prev_pending_schedule :: "'k schedule_info"
  was_pending_promoted :: bool
  pb_previous :: digest
  pb_producer :: u64
  pb_timestamp :: u32
  active_schedule_version :: u32
  pb_confirmed :: u16

record ('k, 's) header_state = "'k header_common" +
  hs_id :: digest
  hs_header :: "('k, 's) signed_block_header"
  pending_schedule :: "'k schedule_info"
  activated_protocol_features :: "digest set"
  header_exts :: "digest list list"

definition is_active_producer :: "('k, 's) header_state \<Rightarrow> u64 \<Rightarrow> bool" where
  "is_active_producer s n = (map_of (producer_to_last_produced s) n \<noteq> None)"

definition producer_repetitions :: nat where "producer_repetitions = 12"

definition maximum_tracked_dpos_confirmations :: nat where "maximum_tracked_dpos_confirmations = 1024"

text \<open>An empty schedule makes the modulus zero.\<close>

definition get_scheduled_producer :: "('k, 's) header_state \<Rightarrow> u32 \<Rightarrow> 'k producer_key res" where
  "get_scheduled_producer s slot =
     (let ps = ps_producers (active_schedule s)
      in if length ps = 0 then Inl undefined_behaviour
         else Inr (ps ! (unat slot mod (length ps * producer_repetitions) div producer_repetitions)))"

text \<open>\<open>nth_element\<close> puts at the position the element that sorting would put there.\<close>

definition calc_dpos_last_irreversible :: "('k, 's) header_state \<Rightarrow> u64 \<Rightarrow> u32" where
  "calc_dpos_last_irreversible s producer_of_next_block =
     (let blocknums = map (\<lambda>(p, n). if p = producer_of_next_block then dpos_proposed_irreversible_blocknum s else n)
            (producer_to_last_implied_irb s)
      in if length blocknums = 0 then 0 else sort blocknums ! ((length blocknums - 1) div 3))"

text \<open>Append the confirmations this block needs; the oldest entry is dropped when the list is full.\<close>

definition grow_confirm_count :: "u8 list \<Rightarrow> nat \<Rightarrow> u8 list" where
  "grow_confirm_count cc num_active_producers =
     (let required_confs = of_nat (num_active_producers * 2 div 3 + 1)
      in if length cc < maximum_tracked_dpos_confirmations then cc @ [required_confs]
         else tl cc @ [required_confs])"

text \<open>
  The confirming loop; the first number is \<open>i + 1\<close>, the second \<open>blocks_to_confirm\<close>.  The result
  has the index of the block whose count reached zero, if any.
\<close>

fun confirm_loop :: "u8 list \<Rightarrow> nat \<Rightarrow> nat \<Rightarrow> u8 list \<times> nat option" where
  "confirm_loop cc 0 blocks = (cc, None)"
| "confirm_loop cc (Suc i) 0 = (cc, None)"
| "confirm_loop cc (Suc i) (Suc blocks) =
     (let cc = cc[i := cc ! i - 1]
      in if cc ! i = 0 then (cc, Some i) else confirm_loop cc i blocks)"

text \<open>
  The confirmations after the loop, and the block proposed as irreversible.
\<close>

definition apply_confirmations :: "u32 \<Rightarrow> u8 list \<Rightarrow> u16 \<Rightarrow> u32 \<Rightarrow> u8 list \<times> u32" where
  "apply_confirmations num cc num_prev_blocks_to_confirm proposed =
     (case confirm_loop cc (length cc) (unat num_prev_blocks_to_confirm + 1) of
        (cc, None) \<Rightarrow> (cc, proposed)
      | (cc, Some i) \<Rightarrow> (drop (i + 1) cc, num - of_nat (length cc - 1 - i)))"

text \<open>The maps of a promoted schedule.\<close>

definition promote_map :: "'k producer_key list \<Rightarrow> u64 \<Rightarrow> u32 \<Rightarrow> (u64 \<times> u32) list \<Rightarrow> u32 \<Rightarrow> (u64 \<times> u32) list" where
  "promote_map ps producer v old lib =
     fold (\<lambda>pro m. AList.update (pk_producer_name pro)
         (if pk_producer_name pro = producer then v
          else case map_of old (pk_producer_name pro) of Some n \<Rightarrow> n | None \<Rightarrow> lib) m) ps []"

definition header_next :: "('k, 's) crypto \<Rightarrow> ('k, 's) header_state \<Rightarrow> u32 \<Rightarrow> u16 \<Rightarrow> 'k pending_header res" where
  "header_next c s when0 num_prev_blocks_to_confirm =
     bind_res (if when0 \<noteq> 0
               then EOS_ASSERT (when0 > bh_timestamp (hs_header s)) block_validate_exception (Inr when0)
               else Inr (bh_timestamp (hs_header s) + 1)) (\<lambda>when0.
     bind_res (get_scheduled_producer s when0) (\<lambda>prokey.
     bind_res (case map_of (producer_to_last_produced s) (pk_producer_name prokey) of
                 None \<Rightarrow> Inr ()
               | Some lst \<Rightarrow> EOS_ASSERT (lst < block_num s + 1 - ucast num_prev_blocks_to_confirm)
                   producer_double_confirm (Inr ())) (\<lambda>_.
     case incremental_append (pair_digest c) (blockroot_merkle s) (hs_id s) of
       None \<Rightarrow> Inl undefined_behaviour
     | Some broot \<Rightarrow>
        (let num = block_num s + 1;
             producer = pk_producer_name prokey;
             cc = grow_confirm_count (confirm_count s) (length (ps_producers (active_schedule s)));
             (cc, proposed) = apply_confirmations num cc num_prev_blocks_to_confirm
               (dpos_proposed_irreversible_blocknum s);
             lib = calc_dpos_last_irreversible s producer;
             pend = pending_schedule s;
             promoted = (length (ps_producers (si_schedule pend)) \<noteq> 0 \<and> lib \<ge> schedule_lib_num pend)
         in Inr
          \<lparr>block_num = num, dpos_proposed_irreversible_blocknum = proposed, dpos_irreversible_blocknum = lib,
           active_schedule = (if promoted then si_schedule pend else active_schedule s), blockroot_merkle = broot,
           producer_to_last_produced =
             (if promoted
              then AList.update producer num
                     (promote_map (ps_producers (si_schedule pend)) producer num (producer_to_last_produced s) lib)
              else AList.update producer num (producer_to_last_produced s)),
           producer_to_last_implied_irb =
             (if promoted
              then promote_map (ps_producers (si_schedule pend)) producer (dpos_proposed_irreversible_blocknum s)
                     (producer_to_last_implied_irb s) lib
              else AList.update producer (dpos_proposed_irreversible_blocknum s) (producer_to_last_implied_irb s)),
           block_signing_key = pk_block_signing_key prokey, confirm_count = cc,
           prev_activated_protocol_features = activated_protocol_features s, prev_pending_schedule = pend,
           was_pending_promoted = promoted, pb_previous = hs_id s, pb_producer = producer, pb_timestamp = when0,
           active_schedule_version = ps_version (active_schedule s), pb_confirmed = num_prev_blocks_to_confirm\<rparr>))))"

definition make_block_header :: "('k, 's) crypto \<Rightarrow> 's \<Rightarrow> 'k pending_header \<Rightarrow> digest \<Rightarrow> digest \<Rightarrow> 'k producer_schedule option \<Rightarrow>
    digest list \<Rightarrow> ('k, 's) signed_block_header" where
  "make_block_header c default_signature p trx_mroot act_mroot new_prods new_activations =
     \<lparr>bh_timestamp = pb_timestamp p, bh_producer = pb_producer p, bh_confirmed = pb_confirmed p,
      bh_previous = pb_previous p, transaction_mroot = trx_mroot, action_mroot = act_mroot,
      schedule_version = active_schedule_version p, new_producers = new_prods,
      header_extensions = (if length new_activations > 0 then [(0, pack_activation c new_activations)] else []),
      producer_signature = default_signature\<rparr>"

type_synonym validator = "u32 \<Rightarrow> digest set \<Rightarrow> digest list \<Rightarrow> unit res"

definition finish_next_common :: "('k, 's) crypto \<Rightarrow> 'k pending_header \<Rightarrow> ('k, 's) signed_block_header \<Rightarrow> validator \<Rightarrow>
    ('k, 's) header_state res" where
  "finish_next_common c p h validator =
     EOS_ASSERT (bh_timestamp h = pb_timestamp p) block_validate_exception
     (EOS_ASSERT (bh_previous h = pb_previous p) unlinkable_block_exception
     (EOS_ASSERT (bh_confirmed h = pb_confirmed p) block_validate_exception
     (EOS_ASSERT (bh_producer h = pb_producer p) wrong_producer
     (EOS_ASSERT (schedule_version h = active_schedule_version p) producer_schedule_exception
     (bind_res (case new_producers h of
                  None \<Rightarrow> Inr ()
                | Some np \<Rightarrow>
                    EOS_ASSERT (\<not> was_pending_promoted p) producer_schedule_exception
                    (EOS_ASSERT (ps_version np = ps_version (active_schedule p) + 1) producer_schedule_exception
                    (EOS_ASSERT (length (ps_producers (si_schedule (prev_pending_schedule p))) = 0)
                       producer_schedule_exception (Inr ())))) (\<lambda>_.
      bind_res (validate_and_extract_header_extensions c h) (\<lambda>exts.
      bind_res (case exts of
                  [] \<Rightarrow> Inr (prev_activated_protocol_features p)
                | fs # _ \<Rightarrow>
                    bind_res (validator (pb_timestamp p) (prev_activated_protocol_features p) fs) (\<lambda>_.
                      activation_set_union (prev_activated_protocol_features p) fs)) (\<lambda>features.
        Inr
         \<lparr>block_num = block_num p, dpos_proposed_irreversible_blocknum = dpos_proposed_irreversible_blocknum p,
          dpos_irreversible_blocknum = dpos_irreversible_blocknum p, active_schedule = active_schedule p,
          blockroot_merkle = blockroot_merkle p, producer_to_last_produced = producer_to_last_produced p,
          producer_to_last_implied_irb = producer_to_last_implied_irb p, block_signing_key = block_signing_key p,
          confirm_count = confirm_count p,
          hs_id = header_id c h, hs_header = h,
          pending_schedule =
            (case new_producers h of
               Some np \<Rightarrow> \<lparr>schedule_lib_num = block_num p, schedule_hash = schedule_digest c np, si_schedule = np\<rparr>
             | None \<Rightarrow>
                 \<lparr>schedule_lib_num = schedule_lib_num (prev_pending_schedule p),
                  schedule_hash = schedule_hash (prev_pending_schedule p),
                  si_schedule =
                    (if was_pending_promoted p
                     then \<lparr>ps_version = ps_version (si_schedule (prev_pending_schedule p)), ps_producers = []\<rparr>
                     else si_schedule (prev_pending_schedule p))\<rparr>),
          activated_protocol_features = features, header_exts = exts\<rparr>))))))))"

definition sig_digest :: "('k, 's) crypto \<Rightarrow> ('k, 's) header_state \<Rightarrow> digest" where
  "sig_digest c s =
     (let header_bmroot = pair_digest c (header_digest c (block_header.truncate (hs_header s)),
                            get_root (default_digest c) (blockroot_merkle s))
      in pair_digest c (header_bmroot, schedule_hash (pending_schedule s)))"

definition signee :: "('k, 's) crypto \<Rightarrow> ('k, 's) header_state \<Rightarrow> 'k res" where
  "signee c s = recover_key c (producer_signature (hs_header s)) (sig_digest c s) True"

definition verify_signee :: "('k, 's) header_state \<Rightarrow> 'k \<Rightarrow> unit res" where
  "verify_signee s k = EOS_ASSERT (block_signing_key s = k) wrong_signing_key (Inr ())"

definition sign_header :: "('k, 's) crypto \<Rightarrow> ('k, 's) header_state \<Rightarrow> (digest \<Rightarrow> 's res) \<Rightarrow> ('k, 's) header_state res" where
  "sign_header c s signer =
     (let d = sig_digest c s
      in bind_res (signer d) (\<lambda>sig.
         bind_res (recover_key c sig d False) (\<lambda>k.
           EOS_ASSERT (block_signing_key s = k) wrong_signing_key
             (Inr (s\<lparr>hs_header := (hs_header s)\<lparr>producer_signature := sig\<rparr>\<rparr>)))))"

definition finish_next :: "('k, 's) crypto \<Rightarrow> 'k pending_header \<Rightarrow> ('k, 's) signed_block_header \<Rightarrow> validator \<Rightarrow> bool \<Rightarrow>
    ('k, 's) header_state res" where
  "finish_next c p h validator skip_validate_signee =
     bind_res (finish_next_common c p h validator) (\<lambda>result.
       if skip_validate_signee then Inr result
       else bind_res (signee c result) (\<lambda>k. bind_res (verify_signee result k) (\<lambda>_. Inr result)))"

text \<open>The producing variant returns the signed header as well.\<close>

definition finish_next_sign :: "('k, 's) crypto \<Rightarrow> 'k pending_header \<Rightarrow> ('k, 's) signed_block_header \<Rightarrow> validator \<Rightarrow>
    (digest \<Rightarrow> 's res) \<Rightarrow> (('k, 's) header_state \<times> ('k, 's) signed_block_header) res" where
  "finish_next_sign c p h validator signer =
     bind_res (finish_next_common c p h validator) (\<lambda>result.
     bind_res (sign_header c result signer) (\<lambda>result.
       Inr (result, h\<lparr>producer_signature := producer_signature (hs_header result)\<rparr>)))"

definition header_state_next :: "('k, 's) crypto \<Rightarrow> ('k, 's) header_state \<Rightarrow> ('k, 's) signed_block_header \<Rightarrow> validator \<Rightarrow> bool \<Rightarrow>
    ('k, 's) header_state res" where
  "header_state_next c s h validator skip_validate_signee =
     bind_res (header_next c s (bh_timestamp h) (bh_confirmed h)) (\<lambda>p.
       finish_next c p h validator skip_validate_signee)"

definition has_pending_producers :: "('k, 's) header_state \<Rightarrow> bool" where
  "has_pending_producers s = (length (ps_producers (si_schedule (pending_schedule s))) \<noteq> 0)"

definition get_new_protocol_feature_activations :: "('k, 's) header_state \<Rightarrow> digest list" where
  "get_new_protocol_feature_activations s = (case header_exts s of [] \<Rightarrow> [] | fs # _ \<Rightarrow> fs)"

text \<open>
  The state a new chain starts from: the system account is the only producer, its schedule is
  pending as well, and the two maps are empty.
\<close>

definition genesis_header_state :: "('k, 's) crypto \<Rightarrow> 'k \<Rightarrow> 'k \<Rightarrow> 's \<Rightarrow> u32 \<Rightarrow> digest \<Rightarrow> ('k, 's) header_state" where
  "genesis_header_state c default_key initial_key default_signature initial_timestamp chain_id =
     (let initial_schedule = \<lparr>ps_version = 0,
            ps_producers = [\<lparr>pk_producer_name = system_account_name, pk_block_signing_key = initial_key\<rparr>]\<rparr>;
          zero = \<lparr>hash0 = 0, hash1 = 0, hash2 = 0, hash3 = 0\<rparr>;
          h = \<lparr>bh_timestamp = initial_timestamp, bh_producer = 0, bh_confirmed = 1, bh_previous = zero,
               transaction_mroot = zero, action_mroot = chain_id, schedule_version = 0, new_producers = None,
               header_extensions = [], producer_signature = default_signature\<rparr>
      in \<lparr>block_num = header_block_num c h, dpos_proposed_irreversible_blocknum = 0,
          dpos_irreversible_blocknum = 0, active_schedule = initial_schedule,
          blockroot_merkle = incremental_merkle_empty, producer_to_last_produced = [],
          producer_to_last_implied_irb = [], block_signing_key = default_key, confirm_count = [],
          hs_id = header_id c h, hs_header = h,
          pending_schedule = \<lparr>schedule_lib_num = 0, schedule_hash = schedule_digest c initial_schedule,
            si_schedule = initial_schedule\<rparr>,
          activated_protocol_features = {}, header_exts = []\<rparr>)"

end
