(* ===== verification/Header_Sample.thy ===== *)
theory Header_Sample
  imports Block_Header
begin

text \<open>
  A concrete instance of the parameters of \<open>Block_Header\<close> and a branch of two producers, at which
  the properties of headers are evaluated.
\<close>

definition sample_digest :: "u64 \<Rightarrow> u64 \<Rightarrow> digest" where
  "sample_digest a b = \<lparr>hash0 = a, hash1 = b, hash2 = 0, hash3 = 0\<rparr>"

definition sample_crypto :: "(u32, u32) crypto" where
  "sample_crypto =
     \<lparr>endian_reverse_u32 = (\<lambda>x. push_bit 24 x OR push_bit 8 (x AND 0xff00) OR (drop_bit 8 x AND 0xff00) OR drop_bit 24 x),
      header_digest = (\<lambda>h. sample_digest (ucast (bh_timestamp h)) (bh_producer h)),
      schedule_digest = (\<lambda>s. sample_digest (ucast (ps_version s)) 0),
      pair_digest = (\<lambda>(l, r). sample_digest (hash0 l) (hash1 l + hash0 r)),
      default_digest = sample_digest 0 0,
      recover_key = (\<lambda>sig d canonical. Inr sig),
      unpack_activation = (\<lambda>bs. Inr []), pack_activation = (\<lambda>fs. [])\<rparr>"

definition sample_header :: "u32 \<Rightarrow> u64 \<Rightarrow> u16 \<Rightarrow> u32 \<Rightarrow> digest \<Rightarrow> (u32, u32) signed_block_header" where
  "sample_header ts p conf sig prev =
     \<lparr>bh_timestamp = ts, bh_producer = p, bh_confirmed = conf, bh_previous = prev,
      transaction_mroot = sample_digest 0 0, action_mroot = sample_digest 0 0, schedule_version = 1,
      new_producers = None, header_extensions = [], producer_signature = sig\<rparr>"

text \<open>Producer 1 signs with key 101 and producer 2 with key 102; block 10 is irreversible up to 9.\<close>

definition sample_state :: "(u32, u32) header_state" where
  "sample_state =
     \<lparr>block_num = 10, dpos_proposed_irreversible_blocknum = 9, dpos_irreversible_blocknum = 9,
      active_schedule = \<lparr>ps_version = 1,
        ps_producers = [\<lparr>pk_producer_name = 1, pk_block_signing_key = 101\<rparr>,
                        \<lparr>pk_producer_name = 2, pk_block_signing_key = 102\<rparr>]\<rparr>,
      blockroot_merkle = incremental_merkle_empty,
      producer_to_last_produced = [(1, 9), (2, 10)], producer_to_last_implied_irb = [(1, 9), (2, 9)],
      block_signing_key = 102, confirm_count = [],
      hs_id = sample_digest 0xa000000 0, hs_header = sample_header 23 2 0 102 (sample_digest 0x9000000 0),
      pending_schedule = \<lparr>schedule_lib_num = 0, schedule_hash = sample_digest 0 0,
        si_schedule = \<lparr>ps_version = 1, ps_producers = []\<rparr>\<rparr>,
      activated_protocol_features = {}, header_exts = []\<rparr>"

definition sample_header1 :: "(u32, u32) signed_block_header" where
  "sample_header1 = sample_header 24 1 0 101 (hs_id sample_state)"

definition sample_header2 :: "(u32, u32) signed_block_header" where
  "sample_header2 = sample_header 36 2 1 102 (header_id sample_crypto sample_header1)"

definition sample_validator :: validator where
  "sample_validator t features new_features = Inr ()"

definition sample_state1 :: "(u32, u32) header_state" where
  "sample_state1 = projr (header_state_next sample_crypto sample_state sample_header1 sample_validator False)"

definition sample_state2 :: "(u32, u32) header_state" where
  "sample_state2 = projr (header_state_next sample_crypto sample_state1 sample_header2 sample_validator False)"

lemma is_ok_projr: "is_ok m \<Longrightarrow> m = Inr (projr m)"
  by (cases m) simp_all

lemma sample_step1: "header_state_next sample_crypto sample_state sample_header1 sample_validator False = Inr sample_state1"
  unfolding sample_state1_def by (rule is_ok_projr) code_simp

lemma sample_step2: "header_state_next sample_crypto sample_state1 sample_header2 sample_validator False = Inr sample_state2"
  unfolding sample_state2_def by (rule is_ok_projr) code_simp

lemma sample_values:
  "dpos_proposed_irreversible_blocknum sample_state2 = 11" "dpos_irreversible_blocknum sample_state1 = 9"
  by code_simp+

end
