(* ===== verification/Fork_Database.thy ===== *)
theory Fork_Database
  imports Header_Sample
begin

text \<open>
  The fork database, \<^verbatim>\<open>libraries/chain/fork_database.cpp\<close>: the blocks that are not yet irreversible,
  as a tree below the last irreversible block, with the best valid block as head.  Block states
  are \<^verbatim>\<open>block_state.hpp\<close>.  The index is the list of its blocks in the order of insertion; its three
  orders are computed from it.  Reading and writing the file of the database is not modelled.
  A loop over \<open>header.previous\<close> carries fuel, and running out of it is \<open>undefined_behaviour\<close>.
\<close>

section \<open>Block states\<close>

record ('k, 's, 't) signed_block = "('k, 's) signed_block_header" +
  transactions :: "'t list"
  block_extensions :: "(u16 \<times> u8 list) list"

text \<open>The block is not set in the block state that a root is made from.\<close>

record ('k, 's, 't, 'm) block_state = "('k, 's) header_state" +
  block :: "('k, 's, 't) signed_block option"
  validated :: bool
  trxs :: "'m list"

definition is_valid :: "('k, 's, 't, 'm) block_state \<Rightarrow> bool" where
  "is_valid b = validated b"

definition prev :: "('k, 's, 'z) header_state_scheme \<Rightarrow> digest" where
  "prev b = bh_previous (hs_header b)"

definition extend_header_state :: "('k, 's) header_state \<Rightarrow> ('k, 's, 't) signed_block option \<Rightarrow> bool \<Rightarrow> 'm list \<Rightarrow>
    ('k, 's, 't, 'm) block_state" where
  "extend_header_state s b v ts = header_state.extend s (block_state.fields b v ts)"

definition block_state_next :: "('k, 's) crypto \<Rightarrow> ('k, 's) header_state \<Rightarrow> ('k, 's, 't) signed_block \<Rightarrow> validator \<Rightarrow> bool \<Rightarrow>
    ('k, 's, 't, 'm) block_state res" where
  "block_state_next c p b validator skip_validate_signee =
     bind_res (header_state_next c p (signed_block_header.truncate b) validator skip_validate_signee) (\<lambda>s.
       Inr (extend_header_state s (Some b) False []))"

definition block_state_sign :: "('k, 's) crypto \<Rightarrow> 'k pending_header \<Rightarrow> ('k, 's, 't) signed_block \<Rightarrow> 'm list \<Rightarrow> validator \<Rightarrow>
    (digest \<Rightarrow> 's res) \<Rightarrow> ('k, 's, 't, 'm) block_state res" where
  "block_state_sign c cur b trx_metas validator signer =
     bind_res (finish_next_sign c cur (signed_block_header.truncate b) validator signer) (\<lambda>(s, h).
       Inr (extend_header_state s (Some (b\<lparr>producer_signature := producer_signature h\<rparr>)) False trx_metas))"

definition block_state_finish :: "('k, 's) crypto \<Rightarrow> 'k pending_header \<Rightarrow> ('k, 's, 't) signed_block \<Rightarrow> 'm list \<Rightarrow> validator \<Rightarrow>
    bool \<Rightarrow> ('k, 's, 't, 'm) block_state res" where
  "block_state_finish c cur b trx_metas validator skip_validate_signee =
     bind_res (finish_next c cur (signed_block_header.truncate b) validator skip_validate_signee) (\<lambda>s.
       Inr (extend_header_state s (Some b) False trx_metas))"

section \<open>The order of blocks\<close>

definition sha256_less :: "digest \<Rightarrow> digest \<Rightarrow> bool" where
  "sha256_less l r =
     (hash0 l < hash0 r \<or> hash0 l = hash0 r \<and>
       (hash1 l < hash1 r \<or> hash1 l = hash1 r \<and>
         (hash2 l < hash2 r \<or> hash2 l = hash2 r \<and> hash3 l < hash3 r)))"

definition first_preferred :: "('k, 'y) header_common_scheme \<Rightarrow> ('k, 'z) header_common_scheme \<Rightarrow> bool" where
  "first_preferred l r =
     (dpos_irreversible_blocknum l > dpos_irreversible_blocknum r \<or>
      dpos_irreversible_blocknum l = dpos_irreversible_blocknum r \<and> block_num l > block_num r)"

text \<open>The order of the index \<open>by_lib_block_num\<close>: validated first, then by the two numbers, then by id.\<close>

definition by_lib_less :: "('k, 's, 't, 'm) block_state \<Rightarrow> ('k, 's, 't, 'm) block_state \<Rightarrow> bool" where
  "by_lib_less l r =
     (validated l \<and> \<not> validated r \<or> validated l = validated r \<and>
       (first_preferred l r \<or> \<not> first_preferred r l \<and> sha256_less (hs_id l) (hs_id r)))"

fun by_lib_begin :: "('k, 's, 't, 'm) block_state list \<Rightarrow> ('k, 's, 't, 'm) block_state option" where
  "by_lib_begin [] = None"
| "by_lib_begin (b # bs) =
     (case by_lib_begin bs of None \<Rightarrow> Some b | Some m \<Rightarrow> Some (if by_lib_less m b then m else b))"

section \<open>The database\<close>

record ('k, 's, 't, 'm) fork_db =
  fdb_index :: "('k, 's, 't, 'm) block_state list"
  fdb_root :: "('k, 's, 't, 'm) block_state option"
  fdb_head :: "('k, 's, 't, 'm) block_state option"

fun find_block :: "digest \<Rightarrow> ('k, 's, 't, 'm) block_state list \<Rightarrow> ('k, 's, 't, 'm) block_state option" where
  "find_block i [] = None"
| "find_block i (b # bs) = (if hs_id b = i then Some b else find_block i bs)"

definition get_block :: "('k, 's, 't, 'm) fork_db \<Rightarrow> digest \<Rightarrow> ('k, 's, 't, 'm) block_state option" where
  "get_block db i = find_block i (fdb_index db)"

definition fork_reset :: "('k, 's) header_state \<Rightarrow> ('k, 's, 't, 'm) fork_db" where
  "fork_reset root_bhs =
     (let r = extend_header_state root_bhs None True []
      in \<lparr>fdb_index = [], fdb_root = Some r, fdb_head = Some r\<rparr>)"

definition rollback_head_to_root :: "('k, 's, 't, 'm) fork_db \<Rightarrow> ('k, 's, 't, 'm) fork_db" where
  "rollback_head_to_root db =
     db\<lparr>fdb_index := map (\<lambda>b. b\<lparr>validated := False\<rparr>) (fdb_index db), fdb_head := fdb_root db\<rparr>"

definition get_block_header :: "('k, 's, 't, 'm) fork_db \<Rightarrow> digest \<Rightarrow> ('k, 's, 't, 'm) block_state option res" where
  "get_block_header db i =
     (case fdb_root db of
        None \<Rightarrow> Inl undefined_behaviour
      | Some r \<Rightarrow> if hs_id r = i then Inr (Some r) else Inr (find_block i (fdb_index db)))"

text \<open>
  \<open>EOS_RETHROW_EXCEPTIONS\<close>: a \<open>chain_exception\<close> goes on as it is, an exception of the standard
  library or of \<open>fc\<close> becomes the given one.
\<close>

definition rethrow_as :: "chain_error \<Rightarrow> 'a res \<Rightarrow> 'a res" where
  "rethrow_as ex m =
     (case m of
        Inl e \<Rightarrow> Inl (if e \<in> {std_out_of_range, std_logic_error, overflow_exception, parse_error_exception} then ex else e)
      | Inr x \<Rightarrow> Inr x)"

definition add_validate :: "('k, 's, 't, 'm) block_state \<Rightarrow> ('k, 's, 't, 'm) block_state \<Rightarrow> validator \<Rightarrow> unit res" where
  "add_validate prev_bh n validator =
     rethrow_as fork_database_exception
       (case header_exts n of
          [] \<Rightarrow> Inr ()
        | fs # _ \<Rightarrow> validator (bh_timestamp (hs_header n)) (activated_protocol_features prev_bh) fs)"

text \<open>Inserting fails when the id is present; the fourth index key has the id as well.\<close>

definition fork_add_impl :: "('k, 's, 't, 'm) fork_db \<Rightarrow> ('k, 's, 't, 'm) block_state \<Rightarrow> bool \<Rightarrow> bool \<Rightarrow> validator \<Rightarrow>
    ('k, 's, 't, 'm) fork_db res" where
  "fork_add_impl db n ignore_duplicate validate validator =
     EOS_ASSERT (fdb_root db \<noteq> None) fork_database_exception
     (bind_res (get_block_header db (prev n)) (\<lambda>prev_bh.
        case prev_bh of
          None \<Rightarrow> Inl unlinkable_block_exception
        | Some p \<Rightarrow>
            bind_res (if validate then add_validate p n validator else Inr ()) (\<lambda>_.
              if get_block db (hs_id n) \<noteq> None
              then if ignore_duplicate then Inr db else Inl fork_database_exception
              else
                (let db' = db\<lparr>fdb_index := fdb_index db @ [n]\<rparr>
                 in case by_lib_begin (fdb_index db') of
                      None \<Rightarrow> Inl undefined_behaviour
                    | Some candidate \<Rightarrow>
                        if is_valid candidate then Inr (db'\<lparr>fdb_head := Some candidate\<rparr>) else Inr db'))))"

definition fork_add :: "('k, 's, 't, 'm) fork_db \<Rightarrow> ('k, 's, 't, 'm) block_state \<Rightarrow> bool \<Rightarrow> ('k, 's, 't, 'm) fork_db res" where
  "fork_add db n ignore_duplicate = fork_add_impl db n ignore_duplicate False (\<lambda>_ _ _. Inr ())"

text \<open>\<open>lower_bound(false)\<close> is the first block that is not validated.\<close>

definition pending_head :: "('k, 's, 't, 'm) fork_db \<Rightarrow> ('k, 's, 't, 'm) block_state option res" where
  "pending_head db =
     (case by_lib_begin (filter (\<lambda>b. \<not> validated b) (fdb_index db)) of
        None \<Rightarrow> Inr (fdb_head db)
      | Some b \<Rightarrow>
          (case fdb_head db of
             None \<Rightarrow> Inl undefined_behaviour
           | Some h \<Rightarrow> Inr (if first_preferred b h then Some b else Some h)))"

text \<open>The walk from a block to its ancestors in the index.\<close>

fun ancestors :: "nat \<Rightarrow> ('k, 's, 't, 'm) fork_db \<Rightarrow> ('k, 's, 't, 'm) block_state option \<Rightarrow> ('k, 's, 't, 'm) block_state list res" where
  "ancestors 0 db s = (if s = None then Inr [] else Inl undefined_behaviour)"
| "ancestors (Suc n) db s =
     (case s of
        None \<Rightarrow> Inr []
      | Some b \<Rightarrow> bind_res (ancestors n db (get_block db (prev b))) (\<lambda>rest. Inr (b # rest)))"

definition fork_fuel :: "('k, 's, 't, 'm) fork_db \<Rightarrow> nat" where
  "fork_fuel db = length (fdb_index db)"

definition fetch_branch :: "('k, 's, 't, 'm) fork_db \<Rightarrow> digest \<Rightarrow> u32 \<Rightarrow> ('k, 's, 't, 'm) block_state list res" where
  "fetch_branch db h trim_after_block_num =
     bind_res (ancestors (fork_fuel db) db (get_block db h)) (\<lambda>bs.
       Inr (filter (\<lambda>b. block_num b \<le> trim_after_block_num) bs))"

fun search_loop :: "nat \<Rightarrow> ('k, 's, 't, 'm) fork_db \<Rightarrow> ('k, 's, 't, 'm) block_state option \<Rightarrow> u32 \<Rightarrow> ('k, 's, 't, 'm) block_state option res" where
  "search_loop 0 db s num = (if s = None then Inr None else Inl undefined_behaviour)"
| "search_loop (Suc n) db s num =
     (case s of
        None \<Rightarrow> Inr None
      | Some b \<Rightarrow> if block_num b = num then Inr (Some b) else search_loop n db (get_block db (prev b)) num)"

definition search_on_branch :: "('k, 's, 't, 'm) fork_db \<Rightarrow> digest \<Rightarrow> u32 \<Rightarrow> ('k, 's, 't, 'm) block_state option res" where
  "search_on_branch db h num = search_loop (fork_fuel db) db (get_block db h) num"

definition root_or_block :: "('k, 's, 't, 'm) fork_db \<Rightarrow> digest \<Rightarrow> ('k, 's, 't, 'm) block_state res" where
  "root_or_block db i =
     (case fdb_root db of
        None \<Rightarrow> Inl undefined_behaviour
      | Some r \<Rightarrow>
          if i = hs_id r then Inr r
          else (case get_block db i of None \<Rightarrow> Inl fork_db_block_not_found | Some b \<Rightarrow> Inr b))"

text \<open>The first two loops: step back until the number is at most that of the other branch.\<close>

fun step_back :: "nat \<Rightarrow> ('k, 's, 't, 'm) fork_db \<Rightarrow> ('k, 's, 't, 'm) block_state \<Rightarrow> u32 \<Rightarrow>
    (('k, 's, 't, 'm) block_state list \<times> ('k, 's, 't, 'm) block_state) res" where
  "step_back n db b num =
     (if block_num b > num
      then (case n of
              0 \<Rightarrow> Inl undefined_behaviour
            | Suc m \<Rightarrow>
                bind_res (root_or_block db (prev b)) (\<lambda>p.
                bind_res (step_back m db p num) (\<lambda>(bs, p'). Inr (b # bs, p'))))
      else Inr ([], b))"

text \<open>The third loop: both branches step back until their previous blocks agree.\<close>

fun step_back_both :: "nat \<Rightarrow> ('k, 's, 't, 'm) fork_db \<Rightarrow> ('k, 's, 't, 'm) block_state \<Rightarrow> ('k, 's, 't, 'm) block_state \<Rightarrow>
    (('k, 's, 't, 'm) block_state list \<times> ('k, 's, 't, 'm) block_state list) res" where
  "step_back_both n db x y =
     (if prev x \<noteq> prev y
      then (case n of
              0 \<Rightarrow> Inl undefined_behaviour
            | Suc m \<Rightarrow>
                (case get_block db (prev x) of
                   None \<Rightarrow> Inl fork_db_block_not_found
                 | Some x' \<Rightarrow>
                     (case get_block db (prev y) of
                        None \<Rightarrow> Inl fork_db_block_not_found
                      | Some y' \<Rightarrow>
                          bind_res (step_back_both m db x' y') (\<lambda>(xs, ys). Inr (x # xs, y # ys)))))
      else Inr ([x], [y]))"

definition fetch_branch_from :: "('k, 's, 't, 'm) fork_db \<Rightarrow> digest \<Rightarrow> digest \<Rightarrow>
    (('k, 's, 't, 'm) block_state list \<times> ('k, 's, 't, 'm) block_state list) res" where
  "fetch_branch_from db i j =
     bind_res (root_or_block db i) (\<lambda>first_branch.
     bind_res (root_or_block db j) (\<lambda>second_branch.
     bind_res (step_back (fork_fuel db) db first_branch (block_num second_branch)) (\<lambda>(bs, first_branch).
     bind_res (step_back (fork_fuel db) db second_branch (block_num first_branch)) (\<lambda>(cs, second_branch).
       if hs_id first_branch = hs_id second_branch then Inr (bs, cs)
       else bind_res (step_back_both (fork_fuel db) db first_branch second_branch) (\<lambda>(bs', cs').
         Inr (bs @ bs', cs @ cs'))))))"

text \<open>The queue of \<open>remove\<close>; the second number is the position in the queue.\<close>

fun remove_queue :: "nat \<Rightarrow> ('k, 's, 't, 'm) block_state list \<Rightarrow> digest \<Rightarrow> digest list \<Rightarrow> nat \<Rightarrow> digest list res" where
  "remove_queue n idx head_id queue i =
     (if i < length queue
      then (case n of
              0 \<Rightarrow> Inl undefined_behaviour
            | Suc m \<Rightarrow>
                EOS_ASSERT (queue ! i \<noteq> head_id) fork_database_exception
                  (remove_queue m idx head_id
                     (queue @ map hs_id (filter (\<lambda>b. prev b = queue ! i) idx)) (i + 1)))
      else Inr queue)"

definition erase_block :: "digest \<Rightarrow> ('k, 's, 't, 'm) block_state list \<Rightarrow> ('k, 's, 't, 'm) block_state list" where
  "erase_block i idx = filter (\<lambda>b. hs_id b \<noteq> i) idx"

definition fork_remove :: "('k, 's, 't, 'm) fork_db \<Rightarrow> digest \<Rightarrow> ('k, 's, 't, 'm) fork_db res" where
  "fork_remove db i =
     (case fdb_head db of
        None \<Rightarrow> Inl undefined_behaviour
      | Some h \<Rightarrow>
          bind_res (remove_queue (Suc (fork_fuel db)) (fdb_index db) (hs_id h) [i] 0) (\<lambda>queue.
            Inr (db\<lparr>fdb_index := fold erase_block queue (fdb_index db)\<rparr>)))"

declare step_back.simps [simp del] step_back_both.simps [simp del] remove_queue.simps [simp del]

text \<open>The blocks to remove when the root advances: the ancestors of the new root and the old root.\<close>

fun blocks_to_remove :: "nat \<Rightarrow> ('k, 's, 't, 'm) fork_db \<Rightarrow> digest \<Rightarrow> ('k, 's, 't, 'm) block_state \<Rightarrow> digest list res" where
  "blocks_to_remove n db root_id b =
     (case n of
        0 \<Rightarrow> Inl undefined_behaviour
      | Suc m \<Rightarrow>
          (case get_block db (prev b) of
             None \<Rightarrow> EOS_ASSERT (prev b = root_id) fork_database_exception (Inr [prev b])
           | Some p \<Rightarrow> bind_res (blocks_to_remove m db root_id p) (\<lambda>rest. Inr (prev b # rest))))"

declare blocks_to_remove.simps [simp del]

text \<open>
  Removing them one by one, and the whole of \<open>advance_root\<close>: an exception leaves what was removed before it.
  \<open>advance_root\<close> itself is the database when no exception is thrown.
\<close>

fun remove_all_blocks :: "('k, 's, 't, 'm) fork_db \<Rightarrow> digest list \<Rightarrow> ('k, 's, 't, 'm) fork_db \<times> unit res" where
  "remove_all_blocks db [] = (db, Inr ())"
| "remove_all_blocks db (i # is) =
     (case fork_remove db i of
        Inl e \<Rightarrow> (db, Inl e)
      | Inr db' \<Rightarrow> remove_all_blocks db' is)"

definition advance_root_outcome :: "('k, 's, 't, 'm) fork_db \<Rightarrow> digest \<Rightarrow> ('k, 's, 't, 'm) fork_db \<times> unit res" where
  "advance_root_outcome db i =
     (case fdb_root db of
        None \<Rightarrow> (db, Inl fork_database_exception)
      | Some r \<Rightarrow>
          (case get_block db i of
             None \<Rightarrow> (db, Inl fork_database_exception)
           | Some new_root \<Rightarrow>
               if \<not> is_valid new_root then (db, Inl fork_database_exception)
               else
                 (case blocks_to_remove (fork_fuel db) db (hs_id r) new_root of
                    Inl e \<Rightarrow> (db, Inl e)
                  | Inr ids \<Rightarrow>
                      (case remove_all_blocks (db\<lparr>fdb_index := erase_block i (fdb_index db)\<rparr>) ids of
                         (db', Inl e) \<Rightarrow> (db', Inl e)
                       | (db', Inr _) \<Rightarrow> (db'\<lparr>fdb_root := Some new_root\<rparr>, Inr ())))))"

definition returned :: "'a \<times> unit res \<Rightarrow> 'a res" where
  "returned r = bind_res (snd r) (\<lambda>_. Inr (fst r))"

lemma returned_simps [simp]: "returned (x, Inr u) = Inr x" "returned (x, Inl e) = Inl e"
  by (simp_all add: returned_def)

lemma returned_Inr_iff: "returned r = Inr x \<longleftrightarrow> r = (x, Inr ())"
  by (cases r) (auto simp: returned_def)

definition advance_root :: "('k, 's, 't, 'm) fork_db \<Rightarrow> digest \<Rightarrow> ('k, 's, 't, 'm) fork_db res" where
  "advance_root db i = returned (advance_root_outcome db i)"

definition set_validated :: "digest \<Rightarrow> ('k, 's, 't, 'm) block_state \<Rightarrow> ('k, 's, 't, 'm) block_state" where
  "set_validated i b = (if hs_id b = i then b\<lparr>validated := True\<rparr> else b)"

definition mark_valid :: "('k, 's, 't, 'm) fork_db \<Rightarrow> ('k, 's, 't, 'm) block_state \<Rightarrow> ('k, 's, 't, 'm) fork_db res" where
  "mark_valid db h =
     (if validated h then Inr db
      else
        EOS_ASSERT (get_block db (hs_id h) \<noteq> None) fork_database_exception
        (let db' = db\<lparr>fdb_index := map (set_validated (hs_id h)) (fdb_index db)\<rparr>
         in case by_lib_begin (fdb_index db') of
              None \<Rightarrow> Inl undefined_behaviour
            | Some candidate \<Rightarrow>
                (case fdb_head db of
                   None \<Rightarrow> Inl undefined_behaviour
                 | Some cur \<Rightarrow>
                     Inr (if first_preferred candidate cur then db'\<lparr>fdb_head := Some candidate\<rparr> else db'))))"

section \<open>A small database\<close>

text \<open>A root with two branches: blocks 11 and 12, and another block 11 that is not validated.\<close>

type_synonym sample_block = "(u32, u32, nat, nat) block_state"

definition sample_root :: sample_block where
  "sample_root = extend_header_state sample_state None True []"

definition sample_block :: "digest \<Rightarrow> digest \<Rightarrow> u32 \<Rightarrow> bool \<Rightarrow> sample_block" where
  "sample_block i p n v = (extend_header_state sample_state None v [])
     \<lparr>hs_id := i, block_num := n, hs_header := sample_header 24 1 0 101 p\<rparr>"

definition sample_a :: sample_block where "sample_a = sample_block (sample_digest 0xb000000 1) (hs_id sample_root) 11 True"
definition sample_b :: sample_block where "sample_b = sample_block (sample_digest 0xb000000 2) (hs_id sample_root) 11 False"
definition sample_c :: sample_block where "sample_c = sample_block (sample_digest 0xc000000 3) (hs_id sample_a) 12 True"

definition sample_fork_db :: "(u32, u32, nat, nat) fork_db" where
  "sample_fork_db = \<lparr>fdb_index = [sample_a, sample_b, sample_c], fdb_root = Some sample_root, fdb_head = Some sample_c\<rparr>"

end
