(* ===== verification/Fork_Tree.thy ===== *)
theory Fork_Tree
  imports Fork_Database
begin

text \<open>
  The fork database is a tree: its invariant, the branches it returns, and the refinement of an
  abstract tree of block ids by adding, removing and advancing the root.
\<close>

section \<open>The invariant\<close>

definition block_ids :: "('k, 's, 't, 'm) block_state list \<Rightarrow> digest set" where
  "block_ids idx = hs_id ` set idx"

definition is_parent :: "('k, 's, 't, 'm) block_state \<Rightarrow> ('k, 's, 't, 'm) block_state \<Rightarrow> bool" where
  "is_parent p b \<longleftrightarrow> prev b = hs_id p \<and> unat (block_num b) = unat (block_num p) + 1"

definition tree_inv :: "('k, 's, 't, 'm) block_state \<Rightarrow> ('k, 's, 't, 'm) block_state list \<Rightarrow> bool" where
  "tree_inv r idx \<longleftrightarrow>
     distinct (map hs_id (r # idx)) \<and> list_all (\<lambda>b. list_ex (\<lambda>p. is_parent p b) (r # idx)) idx"

definition head_inv :: "('k, 's, 't, 'm) block_state \<Rightarrow> ('k, 's, 't, 'm) block_state \<Rightarrow> ('k, 's, 't, 'm) block_state list \<Rightarrow> bool" where
  "head_inv r h idx \<longleftrightarrow>
     (h = r \<or> h \<in> set idx \<and> validated h) \<and> list_all (\<lambda>b. validated b \<longrightarrow> \<not> first_preferred b h) idx"

definition fork_inv :: "('k, 's, 't, 'm) fork_db \<Rightarrow> bool" where
  "fork_inv db \<longleftrightarrow>
     (case (fdb_root db, fdb_head db) of
        (Some r, Some h) \<Rightarrow> tree_inv r (fdb_index db) \<and> head_inv r h (fdb_index db)
      | _ \<Rightarrow> False)"

lemma fork_invE:
  assumes "fork_inv db"
  obtains r h where "fdb_root db = Some r" "fdb_head db = Some h" "tree_inv r (fdb_index db)" "head_inv r h (fdb_index db)"
  using assms by (auto simp: fork_inv_def split: option.splits)

lemma find_block_Some:
  assumes "distinct (map hs_id idx)"
  shows "find_block i idx = Some b \<longleftrightarrow> b \<in> set idx \<and> hs_id b = i"
  using assms by (induction idx) (auto simp: image_iff)

lemma find_block_None: "find_block i idx = None \<longleftrightarrow> i \<notin> block_ids idx"
  by (induction idx) (auto simp: block_ids_def)

lemma tree_inv_distinct: "tree_inv r idx \<Longrightarrow> distinct (map hs_id idx)"
  by (simp add: tree_inv_def)

lemma tree_inv_root: "tree_inv r idx \<Longrightarrow> b \<in> set idx \<Longrightarrow> hs_id b \<noteq> hs_id r"
  by (auto simp: tree_inv_def image_iff)

lemma tree_inv_parent:
  assumes "tree_inv r idx" and "b \<in> set idx"
  obtains p where "p \<in> set (r # idx)" "is_parent p b"
  using assms by (auto simp: tree_inv_def list_all_iff list_ex_iff)

lemma tree_inv_unique:
  assumes "tree_inv r idx" and "a \<in> set (r # idx)" and "b \<in> set (r # idx)" and "hs_id a = hs_id b"
  shows "a = b"
  using assms unfolding tree_inv_def by (metis distinct_map inj_onD)

section \<open>Depth\<close>

definition depth :: "('k, 's, 't, 'm) block_state \<Rightarrow> ('k, 's, 't, 'm) block_state \<Rightarrow> nat" where
  "depth r b = unat (block_num b) - unat (block_num r)"

lemma block_num_above:
  assumes "tree_inv r idx" and "b \<in> set idx"
  shows "unat (block_num r) < unat (block_num b)"
  using assms(2)
proof (induction "unat (block_num b)" arbitrary: b rule: less_induct)
  case less
  obtain p where p: "p \<in> set (r # idx)" "is_parent p b" using assms(1) less.prems by (rule tree_inv_parent)
  then show ?case using less.hyps [of p] by (auto simp: is_parent_def)
qed

lemma depth_covered:
  assumes "tree_inv r idx" and "b \<in> set idx" and "k \<in> {1 .. depth r b}"
  shows "k \<in> depth r ` set idx"
  using assms(2,3)
proof (induction "unat (block_num b)" arbitrary: b rule: less_induct)
  case less
  show ?case
  proof (cases "k = depth r b")
    case True with less.prems show ?thesis by blast
  next
    case False
    obtain p where p: "p \<in> set (r # idx)" "is_parent p b" using assms(1) less.prems(1) by (rule tree_inv_parent)
    have d: "depth r b = depth r p + 1"
      using p block_num_above [OF assms(1)] by (auto simp: is_parent_def depth_def Suc_diff_le less_imp_le)
    then have "k \<in> {1 .. depth r p}" using False less.prems(2) by auto
    moreover from this have "p \<noteq> r" by (auto simp: depth_def)
    ultimately show ?thesis using less.hyps [of p] p by (auto simp: is_parent_def)
  qed
qed

lemma depth_le_length:
  assumes "tree_inv r idx" and "b \<in> set (r # idx)"
  shows "depth r b \<le> length idx"
proof (cases "b = r")
  case False
  then have "{1 .. depth r b} \<subseteq> depth r ` set idx" using depth_covered [OF assms(1)] assms(2) by auto
  then have "card {1 .. depth r b} \<le> card (depth r ` set idx)" by (intro card_mono) simp_all
  also have "\<dots> \<le> length idx" using card_image_le card_length le_trans by blast
  finally show ?thesis by simp
qed (simp add: depth_def)

lemma depth_parent:
  assumes "tree_inv r idx" and "p \<in> set (r # idx)" and "is_parent p b"
  shows "depth r b = Suc (depth r p)"
  using assms block_num_above [OF assms(1), of p] by (auto simp: is_parent_def depth_def Suc_diff_le less_imp_le)

lemma depth_root_iff: "tree_inv r idx \<Longrightarrow> b \<in> set (r # idx) \<Longrightarrow> depth r b = 0 \<longleftrightarrow> b = r"
  using block_num_above [of r idx b] by (auto simp: depth_def)

lemma depth_num_iff:
  assumes "tree_inv r idx" and "a \<in> set (r # idx)" and "b \<in> set (r # idx)"
  shows "block_num a < block_num b \<longleftrightarrow> depth r a < depth r b"
  using assms block_num_above [OF assms(1), of a] block_num_above [OF assms(1), of b]
  by (auto simp: depth_def word_less_nat_alt)

lemma find_parent:
  assumes "tree_inv r idx" and "p \<in> set (r # idx)" and "is_parent p b"
  shows "find_block (prev b) idx = (if p = r then None else Some p)"
proof (cases "p = r")
  case True
  moreover have "hs_id r \<notin> block_ids idx" using assms(1) by (simp add: tree_inv_def block_ids_def)
  ultimately show ?thesis using assms(3) by (simp add: find_block_None is_parent_def)
next
  case False
  with assms show ?thesis by (simp add: find_block_Some tree_inv_distinct is_parent_def)
qed

lemma root_or_block_parent:
  assumes "fdb_root db = Some r" and "tree_inv r (fdb_index db)" and "p \<in> set (r # fdb_index db)" and "is_parent p b"
  shows "root_or_block db (prev b) = Inr p"
  using assms find_parent [OF assms(2-4)] tree_inv_root [OF assms(2), of p]
  by (auto simp: root_or_block_def get_block_def is_parent_def)

lemma root_or_block_tree:
  assumes "fdb_root db = Some r" and "tree_inv r (fdb_index db)" and "b \<in> set (r # fdb_index db)"
  shows "root_or_block db (hs_id b) = Inr b"
proof (cases "b = r")
  case False
  then have "find_block (hs_id b) (fdb_index db) = Some b"
    using assms(2,3) by (simp add: find_block_Some tree_inv_distinct)
  with assms False tree_inv_root [OF assms(2), of b] show ?thesis by (simp add: root_or_block_def get_block_def)
qed (use assms(1) in \<open>simp add: root_or_block_def\<close>)

section \<open>Branches\<close>

text \<open>The blocks \<open>bs\<close> lead from block \<open>b\<close> to its ancestor \<open>a\<close>, parent after parent.\<close>

definition branch_to :: "('k, 's, 't, 'm) block_state \<Rightarrow> ('k, 's, 't, 'm) block_state list \<Rightarrow> ('k, 's, 't, 'm) block_state \<Rightarrow> bool" where
  "branch_to b bs a \<longleftrightarrow> hd (bs @ [a]) = b \<and> successively (\<lambda>x p. is_parent p x) (bs @ [a])"

lemma branch_to_Nil [simp]: "branch_to b [] a \<longleftrightarrow> b = a"
  by (auto simp: branch_to_def)

lemma branch_to_Cons: "branch_to b (x # bs) a \<longleftrightarrow> x = b \<and> (\<exists>p. is_parent p b \<and> branch_to p bs a)"
  by (cases bs) (auto simp: branch_to_def)

lemma branch_to_append: "branch_to b bs p \<Longrightarrow> branch_to p cs a \<Longrightarrow> branch_to b (bs @ cs) a"
  by (induction bs arbitrary: b) (auto simp: branch_to_Cons)

lemma step_back_ok:
  assumes "fdb_root db = Some r" and "tree_inv r (fdb_index db)" and "y \<in> set (r # fdb_index db)"
    and "b \<in> set (r # fdb_index db)" and "depth r b \<le> n"
  shows "\<exists>bs p. step_back n db b (block_num y) = Inr (bs, p) \<and> p \<in> set (r # fdb_index db) \<and> branch_to b bs p \<and>
    set bs \<subseteq> set (fdb_index db) \<and> (\<forall>c\<in>set bs. depth r y < depth r c \<and> depth r c \<le> depth r b) \<and>
    depth r p = min (depth r b) (depth r y)"
  using assms(4,5)
proof (induction n arbitrary: b)
  case 0
  then have "b = r" using depth_root_iff [OF assms(2)] by simp
  then have "\<not> block_num y < block_num b" using depth_num_iff [OF assms(2,3), of b] 0 by simp
  with 0 show ?case by (simp add: step_back.simps)
next
  case (Suc n)
  show ?case
  proof (cases "block_num y < block_num b")
    case False
    with Suc depth_num_iff [OF assms(2,3), of b] show ?thesis by (simp add: step_back.simps)
  next
    case True
    then have lt: "depth r y < depth r b" using depth_num_iff [OF assms(2,3), of b] Suc.prems by simp
    then have "b \<noteq> r" by (auto simp: depth_def)
    then have b: "b \<in> set (fdb_index db)" using Suc.prems by simp
    obtain p where p: "p \<in> set (r # fdb_index db)" "is_parent p b" using assms(2) b by (rule tree_inv_parent)
    have d: "depth r b = Suc (depth r p)" by (rule depth_parent [OF assms(2) p])
    obtain bs q where ih: "step_back n db p (block_num y) = Inr (bs, q)" "q \<in> set (r # fdb_index db)" "branch_to p bs q"
      "set bs \<subseteq> set (fdb_index db)" "\<forall>c\<in>set bs. depth r y < depth r c \<and> depth r c \<le> depth r p"
      "depth r q = min (depth r p) (depth r y)"
      using Suc.IH [OF p(1)] d Suc.prems by auto
    have "step_back (Suc n) db b (block_num y) = Inr (b # bs, q)"
      using True ih(1) by (simp add: step_back.simps root_or_block_parent [OF assms(1,2) p])
    moreover have "branch_to b (b # bs) q" using p ih(3) by (auto simp: branch_to_Cons)
    ultimately show ?thesis using ih lt d b by auto
  qed
qed

lemma step_back_both_ok:
  assumes "fdb_root db = Some r" and "tree_inv r (fdb_index db)"
    and "x \<in> set (fdb_index db)" and "y \<in> set (fdb_index db)" and "x \<noteq> y" and "depth r x = depth r y" and "depth r x \<le> n"
  shows "\<exists>xs ys a. step_back_both n db x y = Inr (xs, ys) \<and> a \<in> set (r # fdb_index db) \<and> branch_to x xs a \<and>
    branch_to y ys a \<and> set xs \<union> set ys \<subseteq> set (fdb_index db) \<and> set xs \<inter> set ys = {} \<and>
    (\<forall>c\<in>set xs \<union> set ys. depth r c \<le> depth r x)"
  using assms(3-7)
proof (induction n arbitrary: x y)
  case 0
  then show ?case using depth_root_iff [OF assms(2), of x] tree_inv_root [OF assms(2), of x] by auto
next
  case (Suc n)
  obtain p where p: "p \<in> set (r # fdb_index db)" "is_parent p x" using assms(2) Suc.prems(1) by (rule tree_inv_parent)
  obtain q where q: "q \<in> set (r # fdb_index db)" "is_parent q y" using assms(2) Suc.prems(2) by (rule tree_inv_parent)
  note d = depth_parent [OF assms(2) p] depth_parent [OF assms(2) q]
  show ?case
  proof (cases "prev x = prev y")
    case True
    then have "p = q" using p q tree_inv_unique [OF assms(2)] by (auto simp: is_parent_def)
    with True p q Suc.prems show ?thesis
      by (intro exI [of _ "[x]"] exI [of _ "[y]"] exI [of _ p]) (auto simp: step_back_both.simps branch_to_Cons)
  next
    case False
    then have pq: "p \<noteq> q" using p q by (auto simp: is_parent_def)
    then have "p \<noteq> r" "q \<noteq> r" using d Suc.prems(4) depth_root_iff [OF assms(2) p(1)] depth_root_iff [OF assms(2) q(1)] by auto
    then have pq': "p \<in> set (fdb_index db)" "q \<in> set (fdb_index db)" using p q by auto
    obtain xs ys a where ih: "step_back_both n db p q = Inr (xs, ys)" "a \<in> set (r # fdb_index db)" "branch_to p xs a"
      "branch_to q ys a" "set xs \<union> set ys \<subseteq> set (fdb_index db)" "set xs \<inter> set ys = {}"
      "\<forall>c\<in>set xs \<union> set ys. depth r c \<le> depth r p"
      using Suc.IH [OF pq' pq] d Suc.prems by auto
    have "step_back_both (Suc n) db x y = Inr (x # xs, y # ys)"
      using False ih(1) find_parent [OF assms(2) p] find_parent [OF assms(2) q] \<open>p \<noteq> r\<close> \<open>q \<noteq> r\<close>
      by (simp add: step_back_both.simps get_block_def)
    moreover have "branch_to x (x # xs) a" "branch_to y (y # ys) a"
      using p q ih(3,4) by (auto simp: branch_to_Cons)
    moreover have "x \<notin> set ys" "y \<notin> set xs" using bspec [OF ih(7), of x] bspec [OF ih(7), of y] d Suc.prems(4) by auto
    moreover have "\<forall>c\<in>set (x # xs) \<union> set (y # ys). depth r c \<le> depth r x"
      using ih(7) d Suc.prems(4) by (auto intro!: le_SucI)
    ultimately show ?thesis using ih(2,5,6) Suc.prems(1-3)
      by (intro exI [of _ "x # xs"] exI [of _ "y # ys"] exI [of _ a]) simp
  qed
qed

lemma fetch_branch_from_ok:
  assumes root: "fdb_root db = Some r" and tree: "tree_inv r (fdb_index db)"
    and b: "b \<in> set (r # fdb_index db)" and c: "c \<in> set (r # fdb_index db)"
  shows "\<exists>bs cs a. fetch_branch_from db (hs_id b) (hs_id c) = Inr (bs, cs) \<and> a \<in> set (r # fdb_index db) \<and>
    branch_to b bs a \<and> branch_to c cs a \<and> set bs \<union> set cs \<subseteq> set (fdb_index db) \<and> set bs \<inter> set cs = {}"
proof -
  have fuel: "depth r x \<le> fork_fuel db" if "x \<in> set (r # fdb_index db)" for x
    using depth_le_length [OF tree that] by (simp add: fork_fuel_def)
  obtain bs x where x: "step_back (fork_fuel db) db b (block_num c) = Inr (bs, x)" "x \<in> set (r # fdb_index db)"
    "branch_to b bs x" "set bs \<subseteq> set (fdb_index db)" "\<forall>e\<in>set bs. depth r c < depth r e"
    "depth r x = min (depth r b) (depth r c)"
    using step_back_ok [OF root tree c b fuel [OF b]] by blast
  obtain cs y where y: "step_back (fork_fuel db) db c (block_num x) = Inr (cs, y)" "y \<in> set (r # fdb_index db)"
    "branch_to c cs y" "set cs \<subseteq> set (fdb_index db)" "\<forall>e\<in>set cs. depth r x < depth r e \<and> depth r e \<le> depth r c"
    "depth r y = min (depth r c) (depth r x)"
    using step_back_ok [OF root tree x(2) c fuel [OF c]] by blast
  have same: "depth r x = depth r y" using x(6) y(6) by simp
  have dis: "set bs \<inter> set cs = {}" using x(5) y(5) by fastforce
  note start = root_or_block_tree [OF root tree b] root_or_block_tree [OF root tree c]
  show ?thesis
  proof (cases "x = y")
    case True
    then have "fetch_branch_from db (hs_id b) (hs_id c) = Inr (bs, cs)"
      using start x(1) y(1) by (simp add: fetch_branch_from_def)
    moreover have "branch_to c cs x" using y(3) True by simp
    ultimately show ?thesis using x(2-4) y(4) dis by blast
  next
    case False
    then have ids: "hs_id x \<noteq> hs_id y" using tree_inv_unique [OF tree x(2) y(2)] by blast
    have xy: "x \<in> set (fdb_index db)" "y \<in> set (fdb_index db)"
      using x(2) y(2) False same [symmetric] depth_root_iff [OF tree x(2)] depth_root_iff [OF tree y(2)] by auto
    obtain xs ys a where a: "step_back_both (fork_fuel db) db x y = Inr (xs, ys)" "a \<in> set (r # fdb_index db)"
      "branch_to x xs a" "branch_to y ys a" "set xs \<union> set ys \<subseteq> set (fdb_index db)" "set xs \<inter> set ys = {}"
      "\<forall>e\<in>set xs \<union> set ys. depth r e \<le> depth r x"
      using step_back_both_ok [OF root tree xy False same fuel [OF x(2)]] by blast
    have "depth r e \<le> depth r c" if "e \<in> set ys" for e using bspec [OF a(7), of e] that x(6) by simp
    then have "set bs \<inter> set ys = {}" using x(5) by fastforce
    moreover have "set xs \<inter> set cs = {}" using y(5) a(7) by (auto simp: disjoint_iff dest!: bspec)
    ultimately have "set (bs @ xs) \<inter> set (cs @ ys) = {}" using dis a(6) by auto
    moreover have "fetch_branch_from db (hs_id b) (hs_id c) = Inr (bs @ xs, cs @ ys)"
      using start x(1) y(1) a(1) ids by (simp add: fetch_branch_from_def)
    ultimately show ?thesis
      using branch_to_append [OF x(3) a(3)] branch_to_append [OF y(3) a(4)] x(4) y(4) a(2,5)
      by (intro exI [of _ "bs @ xs"] exI [of _ "cs @ ys"] exI [of _ a]) auto
  qed
qed

text \<open>
  C21: for two blocks of a well-formed fork database the loops end, and the result is the two
  branches, without a block in common, from the blocks to their last common ancestor.
\<close>

theorem fetch_branch_from_common_ancestor:
  assumes "fork_inv db" and "fdb_root db = Some r" and "b \<in> set (r # fdb_index db)" and "c \<in> set (r # fdb_index db)"
  shows "\<exists>bs cs a. fetch_branch_from db (hs_id b) (hs_id c) = Inr (bs, cs) \<and> a \<in> set (r # fdb_index db) \<and>
    branch_to b bs a \<and> branch_to c cs a \<and> set bs \<inter> set cs = {}"
proof -
  have "tree_inv r (fdb_index db)" using assms(1,2) by (auto elim: fork_invE)
  from fetch_branch_from_ok [OF assms(2) this assms(3,4)] show ?thesis by blast
qed

lemma sample_fork_inv: "fork_inv sample_fork_db"
  by code_simp

lemma sample_fork_members:
  "fdb_root sample_fork_db = Some sample_root" "sample_b \<in> set (fdb_index sample_fork_db)"
  "sample_b \<in> set (sample_root # fdb_index sample_fork_db)" "sample_c \<in> set (fdb_index sample_fork_db)"
  "sample_c \<in> set (sample_root # fdb_index sample_fork_db)"
  by (simp_all add: sample_fork_db_def)

theorem fetch_branch_from_common_ancestor_witness:
  "\<exists>bs cs a. fetch_branch_from sample_fork_db (hs_id sample_c) (hs_id sample_b) = Inr (bs, cs) \<and>
    a \<in> set (sample_root # fdb_index sample_fork_db) \<and> branch_to sample_c bs a \<and> branch_to sample_b cs a \<and>
    set bs \<inter> set cs = {}"
  by (rule fetch_branch_from_common_ancestor [OF sample_fork_inv sample_fork_members(1,5,3)])

lemma ancestors_ok:
  assumes "tree_inv r (fdb_index db)" and "b \<in> set (fdb_index db)" and "depth r b \<le> n"
  shows "\<exists>bs. ancestors n db (Some b) = Inr bs \<and> branch_to b bs r \<and> set bs \<subseteq> set (fdb_index db) \<and>
    search_loop n db (Some b) num = Inr (List.find (\<lambda>c. block_num c = num) bs)"
  using assms(2,3)
proof (induction n arbitrary: b)
  case 0
  then show ?case using depth_root_iff [OF assms(1), of b] tree_inv_root [OF assms(1), of b] by auto
next
  case (Suc n)
  obtain p where p: "p \<in> set (r # fdb_index db)" "is_parent p b" using assms(1) Suc.prems(1) by (rule tree_inv_parent)
  note find = find_parent [OF assms(1) p] and d = depth_parent [OF assms(1) p]
  show ?case
  proof (cases "p = r")
    case True
    then have "get_block db (prev b) = None" using find by (simp add: get_block_def)
    moreover have "ancestors n db None = Inr []" "search_loop n db None num = Inr None" by (cases n; simp)+
    ultimately show ?thesis using True p Suc.prems by (auto simp: branch_to_Cons intro!: exI [of _ "[b]"])
  next
    case False
    then have g: "get_block db (prev b) = Some p" using find by (simp add: get_block_def)
    obtain bs where "ancestors n db (Some p) = Inr bs" "branch_to p bs r" "set bs \<subseteq> set (fdb_index db)"
      "search_loop n db (Some p) num = Inr (List.find (\<lambda>c. block_num c = num) bs)"
      using Suc.IH [of p] False p d Suc.prems by auto
    then show ?thesis using g p Suc.prems by (auto simp: branch_to_Cons intro!: exI [of _ "b # bs"])
  qed
qed

text \<open>
  Fetching and searching a branch go from the block to the root, exclusive, and end.
\<close>

theorem fetch_and_search_branch:
  assumes "fork_inv db" and "fdb_root db = Some r" and "b \<in> set (fdb_index db)"
  shows "\<exists>bs. branch_to b bs r \<and>
    fetch_branch db (hs_id b) trim = Inr (filter (\<lambda>c. block_num c \<le> trim) bs) \<and>
    search_on_branch db (hs_id b) num = Inr (List.find (\<lambda>c. block_num c = num) bs)"
proof -
  have tree: "tree_inv r (fdb_index db)" using assms(1,2) by (auto elim: fork_invE)
  have "get_block db (hs_id b) = Some b"
    using assms(3) by (simp add: get_block_def find_block_Some tree_inv_distinct [OF tree])
  moreover have "depth r b \<le> fork_fuel db" using depth_le_length [OF tree] assms(3) by (simp add: fork_fuel_def)
  ultimately show ?thesis
    using ancestors_ok [OF tree assms(3), of "fork_fuel db" num] by (auto simp: fetch_branch_def search_on_branch_def)
qed

theorem fetch_and_search_branch_witness:
  "\<exists>bs. branch_to sample_c bs sample_root \<and>
    fetch_branch sample_fork_db (hs_id sample_c) 11 = Inr (filter (\<lambda>c. block_num c \<le> 11) bs) \<and>
    search_on_branch sample_fork_db (hs_id sample_c) 11 = Inr (List.find (\<lambda>c. block_num c = 11) bs)"
  by (rule fetch_and_search_branch [OF sample_fork_inv sample_fork_members(1,4)])

end
