(* ===== verification/Fork_Refinement.thy ===== *)
theory Fork_Refinement
  imports Fork_Tree
begin

text \<open>
  Removing blocks and advancing the root, as operations on the tree of block ids, and the
  invariant of the database over all of its operations.
\<close>

section \<open>The edges of the tree\<close>

definition edges :: "('k, 's, 't, 'm) block_state list \<Rightarrow> (digest \<times> digest) set" where
  "edges idx = (\<lambda>b. (prev b, hs_id b)) ` set idx"

lemma edges_iff: "(x, y) \<in> edges idx \<longleftrightarrow> (\<exists>b\<in>set idx. prev b = x \<and> hs_id b = y)"
  by (auto simp: edges_def)

lemma edges_Image: "edges idx `` {x} = set (map hs_id (filter (\<lambda>b. prev b = x) idx))"
  by (auto simp: edges_def)

lemma edges_trancl_depth:
  assumes "tree_inv r idx" and "(x, y) \<in> (edges idx)\<^sup>+"
  shows "\<exists>p\<in>set (r # idx). \<exists>b\<in>set idx. hs_id p = x \<and> hs_id b = y \<and> depth r p < depth r b"
  using assms(2)
proof (induction rule: trancl_induct)
  case (base y)
  then obtain b where b: "b \<in> set idx" "prev b = x" "hs_id b = y" by (auto simp: edges_iff)
  obtain p where p: "p \<in> set (r # idx)" "is_parent p b" using assms(1) b(1) by (rule tree_inv_parent)
  have "hs_id p = x" "depth r p < depth r b" using b p(2) depth_parent [OF assms(1) p] by (auto simp: is_parent_def)
  with b p(1) show ?case by blast
next
  case (step y z)
  from step.hyps(2) obtain b where b: "b \<in> set idx" "prev b = y" "hs_id b = z" by (auto simp: edges_iff)
  obtain q where q: "q \<in> set (r # idx)" "is_parent q b" using assms(1) b(1) by (rule tree_inv_parent)
  from step.IH obtain p c where p: "p \<in> set (r # idx)" "c \<in> set idx" "hs_id p = x" "hs_id c = y" "depth r p < depth r c"
    by blast
  have "q = c" using tree_inv_unique [OF assms(1) q(1), of c] p q b by (auto simp: is_parent_def)
  then have "depth r p < depth r b" using p(5) depth_parent [OF assms(1) q] by simp
  with b p show ?case by blast
qed

lemma edges_acyclic: "tree_inv r idx \<Longrightarrow> (x, x) \<notin> (edges idx)\<^sup>+"
  using edges_trancl_depth [of r idx x x] tree_inv_unique [of r idx] by fastforce

text \<open>What removing needs of the index: it also holds of a part of a tree.\<close>

definition forest :: "('k, 's, 't, 'm) block_state list \<Rightarrow> bool" where
  "forest idx \<longleftrightarrow> distinct (map hs_id idx) \<and> acyclic (edges idx)"

lemma tree_inv_forest: "tree_inv r idx \<Longrightarrow> forest idx"
  by (simp add: forest_def tree_inv_distinct acyclic_def edges_acyclic)

lemma edges_filter: "edges (filter P idx) \<subseteq> edges idx"
  by (auto simp: edges_def)

lemma forest_filter: "forest idx \<Longrightarrow> forest (filter P idx)"
  using edges_filter [of P idx] by (auto simp: forest_def distinct_map_filter intro: acyclic_subset)

lemma forest_unique: "forest idx \<Longrightarrow> a \<in> set idx \<Longrightarrow> b \<in> set idx \<Longrightarrow> hs_id a = hs_id b \<Longrightarrow> a = b"
  by (auto simp: forest_def distinct_map dest: inj_onD)

lemma edges_parent_unique:
  assumes "forest idx" and "(x, z) \<in> edges idx" and "(y, z) \<in> edges idx"
  shows "x = y"
  using assms by (auto simp: edges_iff dest: forest_unique)

section \<open>Removing a block and its descendants\<close>

lemma remove_queue_spec:
  assumes "remove_queue n idx h queue i = Inr q"
  shows "\<exists>ext. q = queue @ ext \<and> set ext \<subseteq> (edges idx)\<^sup>* `` set queue \<and>
    (\<forall>x\<in>set (drop i q). x \<noteq> h \<and> edges idx `` {x} \<subseteq> set q)"
  using assms
proof (induction n arbitrary: queue i)
  case 0
  then show ?case by (auto simp: remove_queue.simps split: if_splits)
next
  case (Suc n)
  show ?case
  proof (cases "i < length queue")
    case False with Suc.prems show ?thesis by (auto simp: remove_queue.simps)
  next
    case True
    define new where "new = map hs_id (filter (\<lambda>b. prev b = queue ! i) idx)"
    have head: "queue ! i \<noteq> h" and rest: "remove_queue n idx h (queue @ new) (i + 1) = Inr q"
      using Suc.prems True by (auto simp: remove_queue.simps new_def split: if_splits)
    obtain ext where ext: "q = (queue @ new) @ ext" "set ext \<subseteq> (edges idx)\<^sup>* `` set (queue @ new)"
      "\<forall>x\<in>set (drop (i + 1) q). x \<noteq> h \<and> edges idx `` {x} \<subseteq> set q"
      using Suc.IH [OF rest] by blast
    have "set new = edges idx `` {queue ! i}" by (simp add: new_def edges_Image)
    moreover have "queue ! i \<in> set queue" using True by simp
    ultimately have new: "set new \<subseteq> (edges idx)\<^sup>* `` set queue" "edges idx `` {queue ! i} \<subseteq> set q"
      using ext(1) by auto
    then have "(edges idx)\<^sup>* `` set (queue @ new) \<subseteq> (edges idx)\<^sup>* `` set queue"
      by (auto simp: Image_iff) (meson Image_iff rtrancl_trans subset_iff)
    then have "set (new @ ext) \<subseteq> (edges idx)\<^sup>* `` set queue" using new(1) ext(2) by auto
    moreover have "drop i q = queue ! i # drop (i + 1) q"
      using True ext(1) by (simp add: Cons_nth_drop_Suc [symmetric] nth_append)
    ultimately show ?thesis using ext(1,3) head new(2) by (intro exI [of _ "new @ ext"]) auto
  qed
qed

lemma remove_queue_closure:
  assumes "remove_queue n idx h [i] 0 = Inr q"
  shows "set q = (edges idx)\<^sup>* `` {i}" "h \<notin> set q"
proof -
  obtain ext where ext: "q = [i] @ ext" "set ext \<subseteq> (edges idx)\<^sup>* `` {i}"
    "\<forall>x\<in>set q. x \<noteq> h \<and> edges idx `` {x} \<subseteq> set q"
    using remove_queue_spec [OF assms] by auto
  then have "(edges idx)\<^sup>* `` set q \<subseteq> set q" by (intro Image_closed_trancl [THEN equalityD1]) blast
  with ext show "set q = (edges idx)\<^sup>* `` {i}" "h \<notin> set q" by auto
qed

text \<open>With the blocks of a tree the queue has no duplicates, so the fuel is enough.\<close>

lemma remove_queue_total:
  assumes tree: "forest idx" and "queue = i # rest" and "distinct rest" and "k \<le> length queue"
    and "\<forall>x\<in>set rest. (i, x) \<in> (edges idx)\<^sup>+ \<and> (\<exists>b\<in>set idx. hs_id b = x \<and> prev b \<in> set (take k queue))"
    and "Suc (length idx) \<le> n + k"
    and "remove_queue n idx h queue k = Inl e"
  shows "e = fork_database_exception \<and> (i, h) \<in> (edges idx)\<^sup>*"
  using assms(2-7)
proof (induction n arbitrary: queue rest k)
  case 0
  have "set rest \<subseteq> set (map hs_id idx)" using "0.prems" by auto
  then have "length rest \<le> length (map hs_id idx)"
    using \<open>distinct rest\<close> by (metis card_mono List.finite_set distinct_card card_length le_trans)
  then have "\<not> k < length queue" using "0.prems" by simp
  with "0.prems" show ?case by (simp add: remove_queue.simps)
next
  case (Suc n)
  have reach: "(i, queue ! k) \<in> (edges idx)\<^sup>*" if "k < length queue"
    using that Suc.prems(1,4) by (cases k) (auto simp: trancl_into_rtrancl)
  show ?case
  proof (cases "k < length queue \<and> queue ! k \<noteq> h")
    case False with Suc.prems(6) reach show ?thesis by (auto simp: remove_queue.simps split: if_splits)
  next
    case True
    define new where "new = map hs_id (filter (\<lambda>b. prev b = queue ! k) idx)"
    have run: "remove_queue n idx h (queue @ new) (Suc k) = Inl e"
      using Suc.prems(6) True by (simp add: remove_queue.simps new_def)
    have tk: "take (Suc k) (queue @ new) = take k queue @ [queue ! k]"
      using True by (simp add: take_Suc_conv_app_nth)
    have fresh: "hs_id b \<notin> set rest" if "b \<in> set idx" "prev b = queue ! k" for b
    proof
      assume "hs_id b \<in> set rest"
      then obtain b' where "b' \<in> set idx" "hs_id b' = hs_id b" "prev b' \<in> set (take k queue)" using Suc.prems(4) by blast
      moreover from this have "b' = b" using forest_unique [OF tree] that by auto
      ultimately have "queue ! k \<in> set (take k queue)" using that by simp
      then obtain j where j: "j < k" "queue ! j = queue ! k" using True by (auto simp: in_set_conv_nth)
      then obtain k' where k': "k = Suc k'" by (cases k) auto
      show False
      proof (cases j)
        case 0
        then have "queue ! k = i" using j Suc.prems(1) by simp
        moreover have "(i, queue ! k) \<in> (edges idx)\<^sup>+" using k' True Suc.prems(1,4) by auto
        ultimately show ?thesis using tree by (simp add: forest_def acyclic_def)
      next
        case (Suc j')
        then show ?thesis using j k' True Suc.prems(1,2) by (auto simp: nth_eq_iff_index_eq)
      qed
    qed
    have new_reach: "(i, hs_id b) \<in> (edges idx)\<^sup>+" if "b \<in> set idx" "prev b = queue ! k" for b
    proof -
      have "(queue ! k, hs_id b) \<in> edges idx" using that by (auto simp: edges_iff)
      with reach True show ?thesis by (blast intro: rtrancl_into_trancl1)
    qed
    have "distinct (rest @ new)"
      using fresh Suc.prems(2) tree by (auto simp: forest_def new_def distinct_map inj_on_def)
    moreover have "\<forall>x\<in>set (rest @ new). (i, x) \<in> (edges idx)\<^sup>+ \<and>
        (\<exists>b\<in>set idx. hs_id b = x \<and> prev b \<in> set (take (Suc k) (queue @ new)))"
      using Suc.prems(4) new_reach unfolding tk by (auto simp: new_def)
    ultimately show ?thesis
      using Suc.IH [OF _ _ _ _ _ run, of "rest @ new"] Suc.prems(1,5) True by simp
  qed
qed

lemma fold_erase_block: "fold erase_block is idx = filter (\<lambda>b. hs_id b \<notin> set is) idx"
  by (induction "is" arbitrary: idx) (auto simp: erase_block_def intro: filter_cong)

lemma fork_remove_spec:
  assumes "forest (fdb_index db)" and "fdb_head db = Some h"
  shows "fork_remove db i =
    (if (i, hs_id h) \<in> (edges (fdb_index db))\<^sup>* then Inl fork_database_exception
     else Inr (db\<lparr>fdb_index := filter (\<lambda>b. (i, hs_id b) \<notin> (edges (fdb_index db))\<^sup>*) (fdb_index db)\<rparr>))"
proof (cases "remove_queue (Suc (fork_fuel db)) (fdb_index db) (hs_id h) [i] 0")
  case (Inr q)
  note q = remove_queue_closure [OF Inr]
  then have "(i, hs_id h) \<notin> (edges (fdb_index db))\<^sup>*" by auto
  with Inr q(1) assms(2) show ?thesis by (simp add: fork_remove_def fold_erase_block)
next
  case (Inl e)
  then have "e = fork_database_exception \<and> (i, hs_id h) \<in> (edges (fdb_index db))\<^sup>*"
    by (intro remove_queue_total [OF assms(1) _ _ _ _ _ Inl]) (simp_all add: fork_fuel_def)
  with Inl assms(2) show ?thesis by (simp add: fork_remove_def)
qed

text \<open>Removing several blocks: what is left is below none of them.\<close>

lemma rtrancl_filter_kept:
  assumes "(a, x) \<in> (edges idx)\<^sup>*" and "(i, x) \<notin> (edges idx)\<^sup>*"
  shows "(a, x) \<in> (edges (filter (\<lambda>b. (i, hs_id b) \<notin> (edges idx)\<^sup>*) idx))\<^sup>*"
  using assms
proof (induction rule: rtrancl_induct)
  case (step y z)
  then have y: "(i, y) \<notin> (edges idx)\<^sup>*" by (meson rtrancl.rtrancl_into_rtrancl)
  have "(y, z) \<in> edges (filter (\<lambda>b. (i, hs_id b) \<notin> (edges idx)\<^sup>*) idx)"
    using step.hyps(2) step.prems by (auto simp: edges_iff)
  with step.IH [OF y] show ?case by (rule rtrancl_into_rtrancl)
qed simp

lemma remove_all_blocks_spec:
  assumes "forest (fdb_index db)" and "fdb_head db = Some h"
  shows "returned (remove_all_blocks db is) =
    (if \<exists>i\<in>set is. (i, hs_id h) \<in> (edges (fdb_index db))\<^sup>* then Inl fork_database_exception
     else Inr (db\<lparr>fdb_index := filter (\<lambda>b. \<forall>i\<in>set is. (i, hs_id b) \<notin> (edges (fdb_index db))\<^sup>*) (fdb_index db)\<rparr>))"
  using assms
proof (induction "is" arbitrary: db)
  case (Cons i "is")
  define keep where "keep = filter (\<lambda>b. (i, hs_id b) \<notin> (edges (fdb_index db))\<^sup>*) (fdb_index db)"
  show ?case
  proof (cases "(i, hs_id h) \<in> (edges (fdb_index db))\<^sup>*")
    case True with Cons.prems show ?thesis by (simp add: fork_remove_spec)
  next
    case False
    have same: "(a, x) \<in> (edges keep)\<^sup>* \<longleftrightarrow> (a, x) \<in> (edges (fdb_index db))\<^sup>*"
      if "(i, x) \<notin> (edges (fdb_index db))\<^sup>*" for a x
      using rtrancl_filter_kept [OF _ that, of a] rtrancl_mono [OF edges_filter] unfolding keep_def by blast
    then have "filter (\<lambda>b. \<forall>i\<in>set is. (i, hs_id b) \<notin> (edges keep)\<^sup>*) keep =
        filter (\<lambda>b. \<forall>i\<in>set (i # is). (i, hs_id b) \<notin> (edges (fdb_index db))\<^sup>*) (fdb_index db)"
      by (auto simp: keep_def intro!: filter_cong)
    moreover have "remove_all_blocks db (i # is) = remove_all_blocks (db\<lparr>fdb_index := keep\<rparr>) is"
      using Cons.prems False by (simp add: fork_remove_spec keep_def)
    moreover have "forest keep" using Cons.prems(1) by (simp add: keep_def forest_filter)
    ultimately show ?thesis using Cons.IH [of "db\<lparr>fdb_index := keep\<rparr>"] Cons.prems(2) False same [OF False] by simp
  qed
qed simp

section \<open>Advancing the root\<close>

lemma blocks_to_remove_spec:
  assumes "tree_inv r (fdb_index db)" and "b \<in> set (fdb_index db)" and "depth r b \<le> n"
  shows "\<exists>ids. blocks_to_remove n db (hs_id r) b = Inr ids \<and> hs_id r \<in> set ids \<and>
    (\<forall>i\<in>set ids. (i, hs_id b) \<in> (edges (fdb_index db))\<^sup>+)"
  using assms(2,3)
proof (induction n arbitrary: b)
  case 0
  then show ?case using depth_root_iff [OF assms(1), of b] tree_inv_root [OF assms(1), of b] by auto
next
  case (Suc n)
  obtain p where p: "p \<in> set (r # fdb_index db)" "is_parent p b" using assms(1) Suc.prems(1) by (rule tree_inv_parent)
  note find = find_parent [OF assms(1) p] and d = depth_parent [OF assms(1) p]
  have e: "(prev b, hs_id b) \<in> edges (fdb_index db)" using Suc.prems(1) by (auto simp: edges_iff)
  have pp: "prev b = hs_id p" using p(2) by (simp add: is_parent_def)
  show ?case
  proof (cases "p = r")
    case True
    with find pp e show ?thesis by (auto simp: blocks_to_remove.simps [of "Suc n"] get_block_def)
  next
    case False
    obtain ids where ids: "blocks_to_remove n db (hs_id r) p = Inr ids" "hs_id r \<in> set ids"
      "\<forall>i\<in>set ids. (i, hs_id p) \<in> (edges (fdb_index db))\<^sup>+"
      using Suc.IH [of p] False p d Suc.prems by auto
    then have "\<forall>i\<in>set ids. (i, hs_id b) \<in> (edges (fdb_index db))\<^sup>+" using e pp by (auto intro: trancl_into_trancl)
    with ids find False e show ?thesis by (auto simp: blocks_to_remove.simps [of "Suc n"] get_block_def)
  qed
qed

lemma edges_erase: "(x, y) \<in> edges (erase_block i idx) \<longleftrightarrow> (x, y) \<in> edges idx \<and> y \<noteq> i"
  by (auto simp: edges_iff erase_block_def)

lemma below_not_reached:
  assumes tree: "tree_inv r idx" and i: "(i, n) \<in> (edges idx)\<^sup>+" and y: "(n, y) \<in> (edges idx)\<^sup>*"
  shows "(i, y) \<notin> (edges (erase_block n idx))\<^sup>*"
  using y
proof (induction rule: rtrancl_induct)
  case base
  have "i \<noteq> n" using i edges_acyclic [OF tree] by auto
  show ?case
  proof
    assume "(i, n) \<in> (edges (erase_block n idx))\<^sup>*"
    then show False using \<open>i \<noteq> n\<close> by (cases rule: rtranclE) (auto simp: edges_erase)
  qed
next
  case (step y z)
  show ?case
  proof
    assume "(i, z) \<in> (edges (erase_block n idx))\<^sup>*"
    then show False
    proof (cases rule: rtranclE)
      case base
      have "(n, z) \<in> (edges idx)\<^sup>+" using step.hyps by (rule rtrancl_into_trancl1)
      from trancl_trans [OF i this] base have "(i, i) \<in> (edges idx)\<^sup>+" by simp
      then show ?thesis using edges_acyclic [OF tree] by blast
    next
      case (step w)
      moreover have "w = y"
        using edges_parent_unique [OF tree_inv_forest [OF tree]] step(2) \<open>(y, z) \<in> edges idx\<close> by (auto simp: edges_erase)
      ultimately show ?thesis using \<open>(i, y) \<notin> (edges (erase_block n idx))\<^sup>*\<close> by simp
    qed
  qed
qed

lemma not_reached_below:
  assumes tree: "tree_inv r idx" and "b \<in> set idx" and "hs_id b \<noteq> n"
    and "(hs_id r, hs_id b) \<notin> (edges (erase_block n idx))\<^sup>*"
  shows "(n, hs_id b) \<in> (edges idx)\<^sup>+"
  using assms(2-4)
proof (induction "depth r b" arbitrary: b rule: less_induct)
  case less
  obtain p where p: "p \<in> set (r # idx)" "is_parent p b" using tree less.prems(1) by (rule tree_inv_parent)
  have e: "(hs_id p, hs_id b) \<in> edges idx" "(hs_id p, hs_id b) \<in> edges (erase_block n idx)"
    using p(2) less.prems(1,2) by (auto simp: edges_iff erase_block_def is_parent_def)
  then have "(hs_id r, hs_id p) \<notin> (edges (erase_block n idx))\<^sup>*"
    using less.prems(3) by (meson rtrancl_into_rtrancl)
  moreover from this have "p \<in> set idx" using p(1) by auto
  ultimately have "hs_id p = n \<or> (n, hs_id p) \<in> (edges idx)\<^sup>+"
    using less.hyps [of p] depth_parent [OF tree p] by auto
  with e(1) show ?case by (auto intro: trancl_into_trancl)
qed

lemma advance_kept:
  assumes tree: "tree_inv r idx" and b: "b \<in> set idx"
    and ids: "hs_id r \<in> set ids" "\<forall>i\<in>set ids. (i, n) \<in> (edges idx)\<^sup>+"
  shows "(hs_id b \<noteq> n \<and> (\<forall>i\<in>set ids. (i, hs_id b) \<notin> (edges (erase_block n idx))\<^sup>*)) \<longleftrightarrow>
    (n, hs_id b) \<in> (edges idx)\<^sup>+"
proof
  assume below: "(n, hs_id b) \<in> (edges idx)\<^sup>+"
  have "(i, hs_id b) \<notin> (edges (erase_block n idx))\<^sup>*" if "i \<in> set ids" for i
    using ids(2) that by (intro below_not_reached [OF tree _ trancl_into_rtrancl [OF below]]) simp
  moreover have "hs_id b \<noteq> n" using below edges_acyclic [OF tree, of n] by auto
  ultimately show "hs_id b \<noteq> n \<and> (\<forall>i\<in>set ids. (i, hs_id b) \<notin> (edges (erase_block n idx))\<^sup>*)" by simp
next
  assume "hs_id b \<noteq> n \<and> (\<forall>i\<in>set ids. (i, hs_id b) \<notin> (edges (erase_block n idx))\<^sup>*)"
  then show "(n, hs_id b) \<in> (edges idx)\<^sup>+" using ids(1) by (intro not_reached_below [OF tree b]) simp_all
qed

text \<open>
  The root advances to a validated block exactly when the head is that block or below it; the
  blocks strictly below it stay.
\<close>

lemma advance_root_spec:
  assumes root: "fdb_root db = Some r" and tree: "tree_inv r (fdb_index db)" and head: "fdb_head db = Some h"
    and hin: "h \<in> set (r # fdb_index db)" and n: "n \<in> set (fdb_index db)"
  shows "advance_root db (hs_id n) =
    (if validated n \<and> (hs_id n, hs_id h) \<in> (edges (fdb_index db))\<^sup>*
     then Inr (db\<lparr>fdb_index := filter (\<lambda>b. (hs_id n, hs_id b) \<in> (edges (fdb_index db))\<^sup>+) (fdb_index db),
                  fdb_root := Some n\<rparr>)
     else Inl fork_database_exception)"
proof -
  let ?idx = "fdb_index db" and ?E = "edges (erase_block (hs_id n) (fdb_index db))"
  have get: "get_block db (hs_id n) = Some n"
    using n by (simp add: get_block_def find_block_Some tree_inv_distinct [OF tree])
  obtain ids where ids: "blocks_to_remove (fork_fuel db) db (hs_id r) n = Inr ids" "hs_id r \<in> set ids"
    "\<forall>i\<in>set ids. (i, hs_id n) \<in> (edges ?idx)\<^sup>+"
    using blocks_to_remove_spec [OF tree n, of "fork_fuel db"] depth_le_length [OF tree] n by (auto simp: fork_fuel_def)
  have forest: "forest (erase_block (hs_id n) ?idx)"
    unfolding erase_block_def by (rule forest_filter [OF tree_inv_forest [OF tree]])
  have kept: "filter (\<lambda>b. \<forall>i\<in>set ids. (i, hs_id b) \<notin> ?E\<^sup>*) (erase_block (hs_id n) ?idx) =
      filter (\<lambda>b. (hs_id n, hs_id b) \<in> (edges ?idx)\<^sup>+) ?idx"
    using advance_kept [OF tree _ ids(2,3)] by (auto simp: erase_block_def intro!: filter_cong)
  have hd: "(\<exists>i\<in>set ids. (i, hs_id h) \<in> ?E\<^sup>*) \<longleftrightarrow> (hs_id n, hs_id h) \<notin> (edges ?idx)\<^sup>*"
  proof (cases "h = r")
    case True
    have "(hs_id n, hs_id r) \<notin> (edges ?idx)\<^sup>*"
      using ids(2,3) edges_acyclic [OF tree] by (meson rtrancl_trancl_trancl)
    with True ids(2) show ?thesis by auto
  next
    case False
    then have "h \<in> set ?idx" using hin by simp
    note kept = advance_kept [OF tree this ids(2,3)]
    show ?thesis
    proof (cases "hs_id h = hs_id n")
      case True
      then have "(i, hs_id h) \<notin> ?E\<^sup>*" if "i \<in> set ids" for i
        using below_not_reached [OF tree, of i "hs_id n" "hs_id n"] ids(3) that by auto
      with True show ?thesis by auto
    next
      case False
      then have "(hs_id n, hs_id h) \<in> (edges ?idx)\<^sup>* \<longleftrightarrow> (hs_id n, hs_id h) \<in> (edges ?idx)\<^sup>+"
        by (auto simp: rtrancl_eq_or_trancl)
      with kept False show ?thesis by blast
    qed
  qed
  have "returned (remove_all_blocks (db\<lparr>fdb_index := erase_block (hs_id n) ?idx\<rparr>) ids) =
      (if (hs_id n, hs_id h) \<in> (edges ?idx)\<^sup>*
       then Inr (db\<lparr>fdb_index := filter (\<lambda>b. (hs_id n, hs_id b) \<in> (edges ?idx)\<^sup>+) ?idx\<rparr>)
       else Inl fork_database_exception)"
    using remove_all_blocks_spec [of "db\<lparr>fdb_index := erase_block (hs_id n) ?idx\<rparr>" h ids] forest head
    by (simp add: hd kept)
  with root get ids(1) show ?thesis
    by (cases "remove_all_blocks (db\<lparr>fdb_index := erase_block (hs_id n) ?idx\<rparr>) ids")
      (auto simp: advance_root_def advance_root_outcome_def is_valid_def returned_def split: if_splits sum.splits)
qed

end
