(* ===== verification/Dpos.thy ===== *)
theory Dpos
  imports Header_Sample
begin

text \<open>
  What the header state computes: the two thirds rule behind the last irreversible block, the
  bookkeeping of confirmations, and which headers extend a branch.
\<close>

section \<open>The two thirds rule\<close>

definition dpos_rank :: "u32 list \<Rightarrow> u32" where
  "dpos_rank xs = (if length xs = 0 then 0 else sort xs ! ((length xs - 1) div 3))"

lemma sorted_nth_ge_iff:
  fixes xs :: "'a::linorder list"
  assumes "sorted xs" and "k < length xs"
  shows "w \<le> xs ! k \<longleftrightarrow> length (filter (\<lambda>x. x < w) xs) \<le> k"
  using assms
proof (induction xs arbitrary: k)
  case (Cons x xs)
  show ?case
  proof (cases "x < w")
    case True
    show ?thesis
    proof (cases k)
      case 0 with True show ?thesis by simp
    next
      case (Suc j)
      with Cons True show ?thesis by simp
    qed
  next
    case False
    with Cons.prems have "filter (\<lambda>x. x < w) xs = []" by (auto simp: filter_empty_conv)
    moreover have "w \<le> (x # xs) ! k"
    proof -
      have "x \<le> (x # xs) ! k" using Cons.prems by (auto simp: nth_Cons split: nat.split)
      with False show ?thesis by simp
    qed
    ultimately show ?thesis using False by simp
  qed
qed simp

lemma filter_length_sort: "length (filter P (sort xs)) = length (filter P xs)"
  by (metis filter_sort length_sort)

lemma filter_less_length:
  fixes xs :: "'a::linorder list"
  shows "length (filter (\<lambda>x. x < w) xs) + length (filter (\<lambda>x. w \<le> x) xs) = length xs"
  by (induction xs) auto

lemma dpos_rank_quorum:
  assumes "xs \<noteq> []"
  shows "w \<le> dpos_rank xs \<longleftrightarrow> 2 * length xs < 3 * length (filter (\<lambda>n. w \<le> n) xs)"
proof -
  have "w \<le> dpos_rank xs \<longleftrightarrow> length (filter (\<lambda>x. x < w) xs) \<le> (length xs - 1) div 3"
    using sorted_nth_ge_iff [of "sort xs" "(length xs - 1) div 3" w] assms
    by (simp add: dpos_rank_def filter_length_sort) (cases xs; simp add: less_mult_imp_div_less)
  moreover have "length xs > 0" using assms by simp
  ultimately show ?thesis using filter_less_length [of w xs] by linarith
qed

lemma dpos_rank_mono:
  assumes "list_all2 (\<le>) xs ys"
  shows "dpos_rank xs \<le> dpos_rank ys"
proof (cases "xs = []")
  case False
  have len: "length xs = length ys" using assms by (rule list_all2_lengthD)
  have "length (filter (\<lambda>n. w \<le> n) xs) \<le> length (filter (\<lambda>n. w \<le> n) ys)" for w
    using assms by (induction rule: list_all2_induct) auto
  from this [of "dpos_rank xs"] have "2 * length ys < 3 * length (filter (\<lambda>n. dpos_rank xs \<le> n) ys)"
    using dpos_rank_quorum [of xs "dpos_rank xs"] False len by simp
  moreover have "ys \<noteq> []" using False len by auto
  ultimately show ?thesis by (simp add: dpos_rank_quorum)
qed (use assms in \<open>simp add: dpos_rank_def\<close>)

lemma dpos_rank_in: "xs \<noteq> [] \<Longrightarrow> dpos_rank xs \<in> set xs"
  using nth_mem [of "(length xs - 1) div 3" "sort xs"]
  by (cases xs) (simp_all add: dpos_rank_def less_mult_imp_div_less del: sort_key_simps)

definition implied_by :: "(u64 \<times> u32) list \<Rightarrow> u64 \<Rightarrow> u32 \<Rightarrow> u32 list" where
  "implied_by m p v = map (\<lambda>(q, n). if q = p then v else n) m"

lemma calc_dpos_last_irreversible_rank:
  "calc_dpos_last_irreversible s p =
     dpos_rank (implied_by (producer_to_last_implied_irb s) p (dpos_proposed_irreversible_blocknum s))"
  by (simp add: calc_dpos_last_irreversible_def dpos_rank_def implied_by_def Let_def)

lemma implied_by_update:
  assumes "distinct (map fst m)" and "p \<in> fst ` set m"
  shows "map snd (AList.update p v m) = implied_by m p v"
  using assms
proof (induction m)
  case (Cons a m)
  have "implied_by m p v = map snd m" if "p \<notin> fst ` set m"
    using that by (force simp: implied_by_def)
  with Cons show ?case by (cases a) (force simp: implied_by_def)
qed simp

text \<open>
  C14: a block number is irreversible after the next block exactly when more than two thirds of the
  producers imply it, counting for the producer of that block the number proposed so far.
\<close>

theorem dpos_irreversible_quorum:
  assumes "producer_to_last_implied_irb s \<noteq> []"
  shows "w \<le> calc_dpos_last_irreversible s p \<longleftrightarrow>
     2 * length (producer_to_last_implied_irb s) <
     3 * length (filter (\<lambda>(q, n). w \<le> (if q = p then dpos_proposed_irreversible_blocknum s else n))
           (producer_to_last_implied_irb s))"
proof -
  have "length (filter (\<lambda>n. w \<le> n) (implied_by m p v)) =
      length (filter (\<lambda>(q, n). w \<le> (if q = p then v else n)) m)" for m v
    by (induction m) (auto simp: implied_by_def split: if_splits)
  then show ?thesis
    using dpos_rank_quorum [of "implied_by (producer_to_last_implied_irb s) p (dpos_proposed_irreversible_blocknum s)" w]
      assms by (simp add: calc_dpos_last_irreversible_rank) (simp add: implied_by_def)
qed

theorem dpos_irreversible_quorum_witness:
  "producer_to_last_implied_irb sample_state \<noteq> [] \<and>
   (10 \<le> calc_dpos_last_irreversible sample_state 1 \<longleftrightarrow>
     2 * length (producer_to_last_implied_irb sample_state) <
     3 * length (filter (\<lambda>(q, n). 10 \<le> (if q = 1 then dpos_proposed_irreversible_blocknum sample_state else n))
           (producer_to_last_implied_irb sample_state)))"
proof
  show ne: "producer_to_last_implied_irb sample_state \<noteq> []" by (simp add: sample_state_def)
  show "10 \<le> calc_dpos_last_irreversible sample_state 1 \<longleftrightarrow>
     2 * length (producer_to_last_implied_irb sample_state) <
     3 * length (filter (\<lambda>(q, n). 10 \<le> (if q = 1 then dpos_proposed_irreversible_blocknum sample_state else n))
           (producer_to_last_implied_irb sample_state))"
    by (rule dpos_irreversible_quorum [OF ne])
qed

section \<open>Computing the next header state\<close>

lemma header_nextE:
  assumes "header_next c s w n = Inr p"
  obtains prokey where
    "pb_timestamp p = (if w = 0 then bh_timestamp (hs_header s) + 1 else w)"
    "w \<noteq> 0 \<longrightarrow> bh_timestamp (hs_header s) < w"
    "get_scheduled_producer s (pb_timestamp p) = Inr prokey"
    "pb_producer p = pk_producer_name prokey" "block_signing_key p = pk_block_signing_key prokey"
    "\<forall>l. map_of (producer_to_last_produced s) (pb_producer p) = Some l \<longrightarrow> l < block_num s + 1 - ucast n"
    "incremental_append (pair_digest c) (blockroot_merkle s) (hs_id s) = Some (blockroot_merkle p)"
    "block_num p = block_num s + 1"
    "(confirm_count p, dpos_proposed_irreversible_blocknum p) =
       apply_confirmations (block_num s + 1)
         (grow_confirm_count (confirm_count s) (length (ps_producers (active_schedule s)))) n
         (dpos_proposed_irreversible_blocknum s)"
    "dpos_irreversible_blocknum p = calc_dpos_last_irreversible s (pb_producer p)"
    "prev_pending_schedule p = pending_schedule s"
    "was_pending_promoted p \<longleftrightarrow> has_pending_producers s \<and>
       schedule_lib_num (pending_schedule s) \<le> dpos_irreversible_blocknum p"
    "active_schedule p = (if was_pending_promoted p then si_schedule (pending_schedule s) else active_schedule s)"
    "producer_to_last_produced p = AList.update (pb_producer p) (block_num p)
       (if was_pending_promoted p
        then promote_map (ps_producers (active_schedule p)) (pb_producer p) (block_num p)
               (producer_to_last_produced s) (dpos_irreversible_blocknum p)
        else producer_to_last_produced s)"
    "producer_to_last_implied_irb p =
       (if was_pending_promoted p
        then promote_map (ps_producers (active_schedule p)) (pb_producer p) (dpos_proposed_irreversible_blocknum s)
               (producer_to_last_implied_irb s) (dpos_irreversible_blocknum p)
        else AList.update (pb_producer p) (dpos_proposed_irreversible_blocknum s) (producer_to_last_implied_irb s))"
    "prev_activated_protocol_features p = activated_protocol_features s" "pb_previous p = hs_id s"
    "active_schedule_version p = ps_version (active_schedule s)" "pb_confirmed p = n"
proof -
  define ts where "ts = (if w = 0 then bh_timestamp (hs_header s) + 1 else w)"
  have w: "w \<noteq> 0 \<longrightarrow> bh_timestamp (hs_header s) < w"
    using assms by (auto simp: header_next_def split: if_splits)
  obtain cc pr where conf:
    "apply_confirmations (block_num s + 1)
         (grow_confirm_count (confirm_count s) (length (ps_producers (active_schedule s)))) n
         (dpos_proposed_irreversible_blocknum s) = (cc, pr)"
    by fastforce
  obtain prokey broot where
    "get_scheduled_producer s ts = Inr prokey"
    "\<forall>l. map_of (producer_to_last_produced s) (pk_producer_name prokey) = Some l \<longrightarrow> l < block_num s + 1 - ucast n"
    "incremental_append (pair_digest c) (blockroot_merkle s) (hs_id s) = Some broot"
    using assms by (auto simp: header_next_def ts_def Let_def split: if_splits option.splits)
  with assms w conf show thesis
    by (intro that [of prokey]) (auto simp: header_next_def ts_def has_pending_producers_def Let_def split: if_splits option.splits)
qed

text \<open>What finishing a pending state with a header checks and keeps.\<close>

lemma finish_next_commonE:
  assumes "finish_next_common c p h v = Inr s"
  shows "header_common.truncate s = header_common.truncate p" "hs_header s = h" "hs_id s = header_id c h"
    "bh_timestamp h = pb_timestamp p" "bh_previous h = pb_previous p" "bh_confirmed h = pb_confirmed p"
    "bh_producer h = pb_producer p" "schedule_version h = active_schedule_version p"
    "new_producers h = None \<Longrightarrow>
       ps_producers (si_schedule (pending_schedule s)) =
         (if was_pending_promoted p then [] else ps_producers (si_schedule (prev_pending_schedule p)))"
    "new_producers h = Some np \<Longrightarrow>
       \<not> was_pending_promoted p \<and> ps_producers (si_schedule (prev_pending_schedule p)) = [] \<and>
       si_schedule (pending_schedule s) = np"
  using assms
  by (auto simp: finish_next_common_def header_common.truncate_def split: option.splits)

lemma header_common_truncate_fields:
  assumes "header_common.truncate s = header_common.truncate p"
  shows "block_num s = block_num p" "dpos_proposed_irreversible_blocknum s = dpos_proposed_irreversible_blocknum p"
    "dpos_irreversible_blocknum s = dpos_irreversible_blocknum p" "active_schedule s = active_schedule p"
    "blockroot_merkle s = blockroot_merkle p" "producer_to_last_produced s = producer_to_last_produced p"
    "producer_to_last_implied_irb s = producer_to_last_implied_irb p" "block_signing_key s = block_signing_key p"
    "confirm_count s = confirm_count p"
  using assms by (simp_all add: header_common.truncate_def)

lemma finish_nextE:
  assumes "finish_next c p h v skip = Inr s"
  shows "finish_next_common c p h v = Inr s"
    and "\<not> skip \<Longrightarrow> signee c s = Inr (block_signing_key s)"
  using assms by (auto simp: finish_next_def verify_signee_def split: if_splits)

lemma header_state_nextE:
  assumes "header_state_next c s h v skip = Inr s'"
  obtains p where "header_next c s (bh_timestamp h) (bh_confirmed h) = Inr p" "finish_next c p h v skip = Inr s'"
  using assms by (auto simp: header_state_next_def)

section \<open>Confirmations\<close>

lemma confirm_loop_spec:
  assumes "confirm_loop cc i b = (cc', r)" and "i \<le> length cc"
  shows "length cc' = length cc \<and>
    (case r of
       None \<Rightarrow> (\<forall>j < length cc. cc' ! j = (if i - b \<le> j \<and> j < i then cc ! j - 1 else cc ! j)) \<and>
               (\<forall>j. i - b \<le> j \<and> j < i \<longrightarrow> cc ! j \<noteq> 1)
     | Some k \<Rightarrow> i - b \<le> k \<and> k < i \<and> cc ! k = 1 \<and>
               (\<forall>j < length cc. cc' ! j = (if k \<le> j \<and> j < i then cc ! j - 1 else cc ! j)) \<and>
               (\<forall>j. k < j \<and> j < i \<longrightarrow> cc ! j \<noteq> 1))"
  using assms
proof (induction cc i b arbitrary: cc' r rule: confirm_loop.induct)
  case (3 cc i blocks)
  define cc1 where "cc1 = cc[i := cc ! i - 1]"
  have len: "length cc1 = length cc" and i: "i < length cc" using 3 by (auto simp: cc1_def)
  show ?case
  proof (cases "cc1 ! i = 0")
    case True
    with 3 i show ?thesis by (auto simp: cc1_def Let_def nth_list_update)
  next
    case False
    with 3 have l: "confirm_loop cc1 i blocks = (cc', r)" by (simp add: cc1_def Let_def)
    have not1: "cc ! i \<noteq> 1" using False i by (auto simp: cc1_def)
    have j: "cc1 ! j = (if j = i then cc ! j - 1 else cc ! j)" for j using i by (simp add: cc1_def nth_list_update)
    from 3(1) [OF cc1_def False l] i len not1 show ?thesis
      by (cases r) (auto simp: j less_Suc_eq split: if_splits)
  qed
qed auto

lemma apply_confirmations_spec:
  assumes "apply_confirmations num cc n pr = (cc', pr')"
  shows "(pr' = pr \<and> length cc' = length cc \<and>
      (\<forall>j < length cc. cc' ! j = (if length cc - Suc (unat n) \<le> j then cc ! j - 1 else cc ! j)) \<and>
      (\<forall>j < length cc. length cc - Suc (unat n) \<le> j \<longrightarrow> cc ! j \<noteq> 1)) \<or>
    (\<exists>k < length cc. length cc - Suc (unat n) \<le> k \<and> cc ! k = 1 \<and>
       pr' = num - of_nat (length cc - 1 - k) \<and> length cc' = length cc - 1 - k \<and>
       (\<forall>j < length cc'. cc' ! j = cc ! (k + 1 + j) - 1 \<and> cc ! (k + 1 + j) \<noteq> 1))"
proof -
  obtain cc1 r where l: "confirm_loop cc (length cc) (Suc (unat n)) = (cc1, r)" by fastforce
  from confirm_loop_spec [OF l] show ?thesis
    using assms l by (cases r) (auto simp: apply_confirmations_def)
qed

lemma length_grow_confirm_count: "length (grow_confirm_count cc n) \<in> {Suc 0 .. Suc (length cc)}"
  by (auto simp: grow_confirm_count_def Let_def maximum_tracked_dpos_confirmations_def)

lemma nth_grow_confirm_count:
  assumes "a < length (grow_confirm_count cc n)"
  shows "grow_confirm_count cc n ! (length (grow_confirm_count cc n) - 1 - a) =
    (if a = 0 then of_nat (n * 2 div 3 + 1) else cc ! (length cc - a))"
  using assms
  by (auto simp: grow_confirm_count_def Let_def nth_append maximum_tracked_dpos_confirmations_def nth_tl Suc_diff_Suc)

section \<open>The maps of a header state\<close>

lemma map_of_fold_update:
  "map_of (fold (\<lambda>pro m. AList.update (k pro) (f (k pro)) m) ps m0) q =
     (if q \<in> k ` set ps then Some (f q) else map_of m0 q)"
  by (induction ps arbitrary: m0) (auto simp: update_conv')

lemma distinct_fold_update:
  "distinct (map fst m0) \<Longrightarrow> distinct (map fst (fold (\<lambda>pro m. AList.update (k pro) (f (k pro)) m) ps m0))"
  by (induction ps arbitrary: m0) (auto simp: distinct_update)

lemma map_of_promote_map:
  "map_of (promote_map ps p v old lib) q =
     (if q \<in> pk_producer_name ` set ps
      then Some (if q = p then v else case map_of old q of Some n \<Rightarrow> n | None \<Rightarrow> lib) else None)"
  unfolding promote_map_def
  by (subst map_of_fold_update [where k = pk_producer_name and
        f = "\<lambda>q. if q = p then v else case map_of old q of Some n \<Rightarrow> n | None \<Rightarrow> lib"]) simp

lemma distinct_promote_map: "distinct (map fst (promote_map ps p v old lib))"
  unfolding promote_map_def
  by (rule distinct_fold_update [where k = pk_producer_name and
        f = "\<lambda>q. if q = p then v else case map_of old q of Some n \<Rightarrow> n | None \<Rightarrow> lib"]) simp

definition entries_le :: "u32 \<Rightarrow> (u64 \<times> u32) list \<Rightarrow> bool" where
  "entries_le b m = list_all (\<lambda>(q, n). n \<le> b) m"

lemma entries_le_map_of:
  "distinct (map fst m) \<Longrightarrow> entries_le b m \<longleftrightarrow> (\<forall>q n. map_of m q = Some n \<longrightarrow> n \<le> b)"
  by (auto simp: entries_le_def list_all_iff)

lemma entries_le_mono: "entries_le a m \<Longrightarrow> a \<le> b \<Longrightarrow> entries_le b m"
  by (auto simp: entries_le_def list_all_iff)

lemma entries_le_update:
  assumes "distinct (map fst m)" and "entries_le b m" and "v \<le> b"
  shows "entries_le b (AList.update k v m)"
  using assms by (auto simp: entries_le_map_of distinct_update update_conv' split: if_splits)

lemma entries_le_promote_map:
  assumes "distinct (map fst old)" and "entries_le b old" and "v \<le> b" and "lib \<le> b"
  shows "entries_le b (promote_map ps p v old lib)"
  using assms
  by (auto simp: entries_le_map_of distinct_promote_map map_of_promote_map split: if_splits option.splits)

lemma calc_dpos_last_irreversible_le:
  assumes "entries_le (dpos_proposed_irreversible_blocknum s) (producer_to_last_implied_irb s)"
  shows "calc_dpos_last_irreversible s p \<le> dpos_proposed_irreversible_blocknum s"
proof -
  let ?xs = "implied_by (producer_to_last_implied_irb s) p (dpos_proposed_irreversible_blocknum s)"
  have "\<forall>x\<in>set ?xs. x \<le> dpos_proposed_irreversible_blocknum s"
    using assms by (auto simp: implied_by_def entries_le_def list_all_iff)
  then show ?thesis
    using dpos_rank_in [of ?xs] by (cases "?xs = []") (auto simp: calc_dpos_last_irreversible_rank dpos_rank_def)
qed

text \<open>The invariant of header states along a branch.\<close>

definition header_inv :: "('k, 'z) header_common_scheme \<Rightarrow> bool" where
  "header_inv s \<longleftrightarrow>
     unat (dpos_proposed_irreversible_blocknum s) + length (confirm_count s) \<le> unat (block_num s) \<and>
     distinct (map fst (producer_to_last_produced s)) \<and> distinct (map fst (producer_to_last_implied_irb s)) \<and>
     entries_le (block_num s) (producer_to_last_produced s) \<and>
     entries_le (dpos_proposed_irreversible_blocknum s) (producer_to_last_implied_irb s) \<and>
     dpos_irreversible_blocknum s \<le> dpos_proposed_irreversible_blocknum s"

lemma unat_sub_of_nat: "a \<le> unat num \<Longrightarrow> unat (num - of_nat a) = unat (num :: u32) - a"
  using unsigned_less [of num, where ?'a = nat] by (subst unat_sub_exact) (simp_all add: unat_of_nat take_bit_nat_eq_self)

lemma apply_confirmations_bounds:
  assumes "apply_confirmations num cc n pr = (cc', pr')" and "unat pr + length cc \<le> unat num"
  shows "unat pr' + length cc' \<le> unat num \<and> pr \<le> pr'"
proof -
  from apply_confirmations_spec [OF assms(1)] show ?thesis
    using assms(2) by (elim disjE exE conjE) (auto simp: word_le_nat_alt unat_sub_of_nat simp del: of_nat_diff)
qed

lemma header_next_inv:
  assumes "header_next c s w n = Inr p" and "header_inv s" and "unat (block_num s) + 1 < 2 ^ 32"
  shows "header_inv p" "dpos_proposed_irreversible_blocknum s \<le> dpos_proposed_irreversible_blocknum p"
    "unat (block_num p) = unat (block_num s) + 1"
proof -
  note inv = assms(2) [unfolded header_inv_def]
  from assms(1) obtain prokey where step:
    "block_num p = block_num s + 1"
    "(confirm_count p, dpos_proposed_irreversible_blocknum p) =
       apply_confirmations (block_num s + 1)
         (grow_confirm_count (confirm_count s) (length (ps_producers (active_schedule s)))) n
         (dpos_proposed_irreversible_blocknum s)"
    "dpos_irreversible_blocknum p = calc_dpos_last_irreversible s (pb_producer p)"
    "producer_to_last_produced p = AList.update (pb_producer p) (block_num p)
       (if was_pending_promoted p
        then promote_map (ps_producers (active_schedule p)) (pb_producer p) (block_num p)
               (producer_to_last_produced s) (dpos_irreversible_blocknum p)
        else producer_to_last_produced s)"
    "producer_to_last_implied_irb p =
       (if was_pending_promoted p
        then promote_map (ps_producers (active_schedule p)) (pb_producer p) (dpos_proposed_irreversible_blocknum s)
               (producer_to_last_implied_irb s) (dpos_irreversible_blocknum p)
        else AList.update (pb_producer p) (dpos_proposed_irreversible_blocknum s) (producer_to_last_implied_irb s))"
    by (rule header_nextE) (rule that)
  show num: "unat (block_num p) = unat (block_num s) + 1"
    using assms(3) by (simp add: step(1) unat_add_exact)
  have bounds: "unat (dpos_proposed_irreversible_blocknum p) + length (confirm_count p) \<le> unat (block_num p)
      \<and> dpos_proposed_irreversible_blocknum s \<le> dpos_proposed_irreversible_blocknum p"
  proof -
    have "unat (dpos_proposed_irreversible_blocknum s) +
        length (grow_confirm_count (confirm_count s) (length (ps_producers (active_schedule s)))) \<le>
        unat (block_num s + 1)"
      using inv num length_grow_confirm_count [of "confirm_count s" "length (ps_producers (active_schedule s))"]
      by (simp add: step(1))
    from apply_confirmations_bounds [OF step(2) [symmetric] this] show ?thesis by (simp add: step(1))
  qed
  then show pr: "dpos_proposed_irreversible_blocknum s \<le> dpos_proposed_irreversible_blocknum p" by simp
  have lib: "dpos_irreversible_blocknum p \<le> dpos_proposed_irreversible_blocknum s"
    using inv by (simp add: step(3) calc_dpos_last_irreversible_le)
  have nb: "dpos_irreversible_blocknum p \<le> block_num p" "block_num s \<le> block_num p"
    using lib pr bounds num by (auto simp: word_le_nat_alt)
  have "entries_le (block_num p) (producer_to_last_produced p)"
    unfolding step(4) using inv nb entries_le_mono [OF _ nb(2)]
    by (auto intro!: entries_le_update entries_le_promote_map simp: distinct_promote_map)
  moreover have "entries_le (dpos_proposed_irreversible_blocknum p) (producer_to_last_implied_irb p)"
    unfolding step(5) using inv lib pr
    by (auto intro!: entries_le_update entries_le_promote_map entries_le_mono [OF _ pr])
  moreover have "distinct (map fst (producer_to_last_produced p))" "distinct (map fst (producer_to_last_implied_irb p))"
    unfolding step(4,5) using inv by (auto intro!: distinct_update simp: distinct_promote_map)
  ultimately show "header_inv p"
    using bounds lib pr by (simp add: header_inv_def)
qed

end
