(* ===== verification/Dpos_Branch.thy ===== *)
theory Dpos_Branch
  imports Dpos
begin

text \<open>
  Branches of headers: the invariant of the header state, when the last irreversible block is
  monotone, and that a block is proposed as irreversible only with the confirmations of more than
  two thirds of the producers, unless headers confirm more blocks than there are.
\<close>

section \<open>Branches\<close>

text \<open>A header state extended by headers, one \<open>next\<close> after another.\<close>

fun extend_branch :: "('k, 's) crypto \<Rightarrow> validator \<Rightarrow> bool \<Rightarrow> ('k, 's) header_state \<Rightarrow> ('k, 's) signed_block_header list \<Rightarrow>
    ('k, 's) header_state res" where
  "extend_branch c v skip s [] = Inr s"
| "extend_branch c v skip s (h # hs) =
     bind_res (header_state_next c s h v skip) (\<lambda>s'. extend_branch c v skip s' hs)"

lemma extend_branch_append:
  "extend_branch c v skip s (hs @ hs') =
     bind_res (extend_branch c v skip s hs) (\<lambda>s'. extend_branch c v skip s' hs')"
  by (induction hs arbitrary: s) (simp_all add: bind_res_assoc)

lemma extend_branch_snoc:
  assumes "extend_branch c v skip s (hs @ [h]) = Inr s''"
  obtains s' where "extend_branch c v skip s hs = Inr s'" "header_state_next c s' h v skip = Inr s''"
  using assms by (auto simp: extend_branch_append)

lemma header_inv_truncate:
  "header_common.truncate s = header_common.truncate p \<Longrightarrow> header_inv s = header_inv p"
  using header_common_truncate_fields [of s p] by (simp add: header_inv_def)

lemma header_state_next_inv:
  assumes "header_state_next c s h v skip = Inr s'" and "header_inv s" and "unat (block_num s) + 1 < 2 ^ 32"
  shows "header_inv s'" "dpos_proposed_irreversible_blocknum s \<le> dpos_proposed_irreversible_blocknum s'"
    "unat (block_num s') = unat (block_num s) + 1"
proof -
  obtain p where p: "header_next c s (bh_timestamp h) (bh_confirmed h) = Inr p" "finish_next c p h v skip = Inr s'"
    using assms(1) by (rule header_state_nextE)
  note t = finish_next_commonE(1) [OF finish_nextE(1) [OF p(2)]]
  show "header_inv s'" "dpos_proposed_irreversible_blocknum s \<le> dpos_proposed_irreversible_blocknum s'"
    "unat (block_num s') = unat (block_num s) + 1"
    using header_next_inv [OF p(1) assms(2,3)] header_inv_truncate [OF t] header_common_truncate_fields [OF t] by auto
qed

lemma extend_branch_inv:
  assumes "extend_branch c v skip s hs = Inr s'" and "header_inv s" and "unat (block_num s) + length hs < 2 ^ 32"
  shows "header_inv s' \<and> dpos_proposed_irreversible_blocknum s \<le> dpos_proposed_irreversible_blocknum s' \<and>
    unat (block_num s') = unat (block_num s) + length hs"
  using assms
proof (induction hs arbitrary: s)
  case (Cons h hs)
  then obtain s1 where s1: "header_state_next c s h v skip = Inr s1" "extend_branch c v skip s1 hs = Inr s'" by auto
  have "unat (block_num s) + 1 < 2 ^ 32" using Cons.prems(3) by simp
  note one = header_state_next_inv [OF s1(1) Cons.prems(2) this]
  from Cons.IH [OF s1(2) one(1)] one Cons.prems(3) show ?case by auto
qed simp

section \<open>Confirmations by age\<close>

definition age_count :: "u8 list \<Rightarrow> nat \<Rightarrow> u8" where
  "age_count cc a = cc ! (length cc - 1 - a)"

lemma age_count_grow:
  assumes "a < length (grow_confirm_count cc n)"
  shows "age_count (grow_confirm_count cc n) a =
    (if a = 0 then of_nat (n * 2 div 3 + 1) else age_count cc (a - 1))"
  using nth_grow_confirm_count [OF assms] by (simp add: age_count_def)

lemma apply_confirmations_ages:
  assumes "apply_confirmations num cc n pr = (cc', pr')"
  shows "(pr' = pr \<and> length cc' = length cc \<and>
      (\<forall>a < length cc. age_count cc' a = (if a \<le> unat n then age_count cc a - 1 else age_count cc a) \<and>
         (a \<le> unat n \<longrightarrow> age_count cc a \<noteq> 1))) \<or>
    (\<exists>a < length cc. a \<le> unat n \<and> age_count cc a = 1 \<and> pr' = num - of_nat a \<and> length cc' = a \<and>
       (\<forall>b < a. age_count cc' b = age_count cc b - 1 \<and> age_count cc b \<noteq> 1))"
  using apply_confirmations_spec [OF assms]
proof (elim disjE exE conjE)
  fix k
  assume k: "k < length cc" "length cc - Suc (unat n) \<le> k" "cc ! k = 1"
    "pr' = num - of_nat (length cc - 1 - k)" "length cc' = length cc - 1 - k"
    "\<forall>j < length cc'. cc' ! j = cc ! (k + 1 + j) - 1 \<and> cc ! (k + 1 + j) \<noteq> 1"
  have "age_count cc' b = age_count cc b - 1 \<and> age_count cc b \<noteq> 1" if "b < length cc - 1 - k" for b
  proof -
    have "k + 1 + (length cc' - 1 - b) = length cc - 1 - b" using that k by simp
    with k(6) [rule_format, of "length cc' - 1 - b"] that show ?thesis by (simp add: age_count_def k(5))
  qed
  moreover have "age_count cc (length cc - 1 - k) = 1" using k by (simp add: age_count_def)
  ultimately show ?thesis using k by (intro disjI2 exI [of _ "length cc - 1 - k"]) auto
next
  assume l: "pr' = pr" "length cc' = length cc"
    "\<forall>j < length cc. cc' ! j = (if length cc - Suc (unat n) \<le> j then cc ! j - 1 else cc ! j)"
    "\<forall>j < length cc. length cc - Suc (unat n) \<le> j \<longrightarrow> cc ! j \<noteq> 1"
  have "age_count cc' a = (if a \<le> unat n then age_count cc a - 1 else age_count cc a) \<and>
      (a \<le> unat n \<longrightarrow> age_count cc a \<noteq> 1)" if "a < length cc" for a
  proof -
    have "length cc - Suc (unat n) \<le> length cc - 1 - a \<longleftrightarrow> a \<le> unat n" using that by linarith
    with that l(3,4) show ?thesis by (simp add: age_count_def l(2))
  qed
  with l(1,2) show ?thesis by blast
qed

section \<open>Who confirmed a block\<close>

text \<open>
  The producers of the headers of a branch on top of block \<open>n0\<close> whose range of confirmed blocks
  has block \<open>b\<close>: the header of block \<open>m\<close> confirms \<open>m - confirmed\<close> to \<open>m\<close>.
\<close>

definition confirmers :: "nat \<Rightarrow> ('k, 's) signed_block_header list \<Rightarrow> nat \<Rightarrow> u64 set" where
  "confirmers n0 hs b =
     set (map (\<lambda>(m, h). bh_producer h)
       (filter (\<lambda>(m, h). m - unat (bh_confirmed h) \<le> b \<and> b \<le> m) (enumerate (Suc n0) hs)))"

lemma confirmers_simps:
  "confirmers n0 [] b = {}"
  "confirmers n0 (hs @ [h]) b = confirmers n0 hs b \<union>
     (if Suc (n0 + length hs) - unat (bh_confirmed h) \<le> b \<and> b \<le> Suc (n0 + length hs) then {bh_producer h} else {})"
  by (simp_all add: confirmers_def enumerate_append_eq)

lemma finite_confirmers: "finite (confirmers n0 hs b)"
  by (simp add: confirmers_def)

lemma card_confirmers_mono: "card (confirmers n0 hs b) \<le> card (confirmers n0 (hs @ [h]) b)"
  by (rule card_mono [OF finite_confirmers]) (simp add: confirmers_simps)

lemma confirmers_above: "n0 + length hs < b \<Longrightarrow> confirmers n0 hs b = {}"
  by (auto simp: confirmers_def in_set_enumerate_eq)

lemma confirmersE:
  assumes "q \<in> confirmers n0 hs b"
  obtains m h where "(m, h) \<in> set (enumerate (Suc n0) hs)" "bh_producer h = q" "b \<le> m"
  using assms by (auto simp: confirmers_def)

text \<open>
  The number of such headers, and of those among them that confirm more blocks than there are.  A
  producer can confirm a block twice only by a header of the second kind.
\<close>

definition confirmations :: "nat \<Rightarrow> ('k, 's) signed_block_header list \<Rightarrow> nat \<Rightarrow> nat" where
  "confirmations n0 hs b =
     length (filter (\<lambda>(m, h). m - unat (bh_confirmed h) \<le> b \<and> b \<le> m) (enumerate (Suc n0) hs))"

definition overconfirmations :: "nat \<Rightarrow> ('k, 's) signed_block_header list \<Rightarrow> nat \<Rightarrow> nat" where
  "overconfirmations n0 hs b =
     length (filter (\<lambda>(m, h). m < unat (bh_confirmed h) \<and> b \<le> m) (enumerate (Suc n0) hs))"

lemma confirmations_simps:
  "confirmations n0 [] b = 0"
  "confirmations n0 (hs @ [h]) b = confirmations n0 hs b +
     (if Suc (n0 + length hs) - unat (bh_confirmed h) \<le> b \<and> b \<le> Suc (n0 + length hs) then 1 else 0)"
  by (simp_all add: confirmations_def enumerate_append_eq)

lemma overconfirmations_simps:
  "overconfirmations n0 [] b = 0"
  "overconfirmations n0 (hs @ [h]) b = overconfirmations n0 hs b +
     (if Suc (n0 + length hs) < unat (bh_confirmed h) \<and> b \<le> Suc (n0 + length hs) then 1 else 0)"
  by (simp_all add: overconfirmations_def enumerate_append_eq)

lemma confirmations_above: "n0 + length hs < b \<Longrightarrow> confirmations n0 hs b = 0"
  by (auto simp: confirmations_def filter_empty_conv in_set_enumerate_eq)

lemma overconfirmations_none:
  "\<forall>(m, h) \<in> set (enumerate (Suc n0) hs). unat (bh_confirmed h) \<le> m \<Longrightarrow> overconfirmations n0 hs b = 0"
  by (auto simp: overconfirmations_def filter_empty_conv not_less)

text \<open>The field \<open>confirmed\<close> has 16 bits, so that late headers cannot confirm more blocks than there are.\<close>

lemma late_headers_in_range:
  fixes hs :: "('k, 's) signed_block_header list"
  assumes "65535 \<le> Suc n0"
  shows "\<forall>(m, h) \<in> set (enumerate (Suc n0) hs). unat (bh_confirmed h) \<le> m"
proof clarify
  fix m and h :: "('k, 's) signed_block_header"
  assume "(m, h) \<in> set (enumerate (Suc n0) hs)"
  then have "65535 \<le> m" using assms by (auto simp: in_set_enumerate_eq)
  moreover have "unat (bh_confirmed h) \<le> 65535" using unsigned_less [of "bh_confirmed h", where ?'a = nat] by simp
  ultimately show "unat (bh_confirmed h) \<le> m" by (rule order_trans [rotated])
qed

definition required_confs :: "nat \<Rightarrow> nat" where
  "required_confs n = n * 2 div 3 + 1"

lemma required_confs_u8: "n \<le> 125 \<Longrightarrow> unat (of_nat (n * 2 div 3 + 1) :: u8) = required_confs n"
  by (simp add: required_confs_def unat_of_nat take_bit_nat_eq_self del: of_nat_add of_nat_Suc)

text \<open>What holds of the counts of the blocks of the branch, while the schedule stays.\<close>

definition confirms_inv :: "nat \<Rightarrow> 'k producer_schedule \<Rightarrow> ('k, 's) signed_block_header list \<Rightarrow> ('k, 's) header_state \<Rightarrow> bool" where
  "confirms_inv n0 sched hs s \<longleftrightarrow>
     active_schedule s = sched \<and> \<not> has_pending_producers s \<and>
     (\<forall>(m, h) \<in> set (enumerate (Suc n0) hs).
        \<exists>l. map_of (producer_to_last_produced s) (bh_producer h) = Some l \<and> m \<le> unat l) \<and>
     (\<forall>a < length (confirm_count s). n0 < unat (block_num s) - a \<longrightarrow>
        age_count (confirm_count s) a \<noteq> 0 \<and>
        unat (age_count (confirm_count s) a) + confirmations n0 hs (unat (block_num s) - a) =
          required_confs (length (ps_producers sched))) \<and>
     (n0 < unat (dpos_proposed_irreversible_blocknum s) \<longrightarrow>
        required_confs (length (ps_producers sched)) \<le>
          confirmations n0 hs (unat (dpos_proposed_irreversible_blocknum s))) \<and>
     (\<forall>b. confirmations n0 hs b \<le> card (confirmers n0 hs b) + overconfirmations n0 hs b)"

lemma confirmers_new:
  assumes "\<forall>(m, h) \<in> set (enumerate (Suc n0) hs).
      \<exists>l. map_of produced (bh_producer h) = Some l \<and> m \<le> unat (l :: u32)"
    and "\<forall>l. map_of produced q = Some l \<longrightarrow> unat l < b"
  shows "q \<notin> confirmers n0 hs b"
proof
  assume "q \<in> confirmers n0 hs b"
  then obtain m h where "(m, h) \<in> set (enumerate (Suc n0) hs)" "bh_producer h = q" "b \<le> m" by (rule confirmersE)
  with assms show False by fastforce
qed

text \<open>One more header: the counts before it is confirmed, then after.\<close>

lemma confirms_inv_grow:
  assumes inv: "confirms_inv n0 sched hs s" and n: "length (ps_producers sched) \<le> 125"
    and num: "unat (block_num s) = n0 + length hs"
    and a: "a < length (grow_confirm_count (confirm_count s) (length (ps_producers sched)))"
      "n0 < Suc (n0 + length hs) - a"
  shows "age_count (grow_confirm_count (confirm_count s) (length (ps_producers sched))) a \<noteq> 0 \<and>
    unat (age_count (grow_confirm_count (confirm_count s) (length (ps_producers sched))) a) +
      confirmations n0 hs (Suc (n0 + length hs) - a) = required_confs (length (ps_producers sched))"
proof (cases a)
  case 0
  then show ?thesis
    using required_confs_u8 [OF n] confirmations_above [of n0 hs "Suc (n0 + length hs)"] age_count_grow [OF a(1)]
    by (auto simp: required_confs_def unat_eq_0 simp del: of_nat_add of_nat_Suc)
next
  case (Suc b)
  then have "b < length (confirm_count s)"
    using a(1) length_grow_confirm_count [of "confirm_count s" "length (ps_producers sched)"] by auto
  with inv Suc a(2) num age_count_grow [OF a(1)] show ?thesis
    by (auto simp: confirms_inv_def)
qed

lemma apply_confirmations_counts:
  assumes ap: "apply_confirmations num cc n pr = (cc', pr')" and len: "length cc \<le> unat num"
    and cnt: "\<And>a. a < length cc \<Longrightarrow> n0 < unat num - a \<Longrightarrow>
      age_count cc a \<noteq> 0 \<and> unat (age_count cc a) + C (unat num - a) = req"
    and new: "\<And>a. a < length cc \<Longrightarrow> n0 < unat num - a \<Longrightarrow>
      C' (unat num - a) = (if a \<le> unat n then Suc (C (unat num - a)) else C (unat num - a))"
    and pr: "n0 < unat pr \<Longrightarrow> req \<le> C' (unat pr)"
  shows "\<forall>a < length cc'. n0 < unat num - a \<longrightarrow>
      age_count cc' a \<noteq> 0 \<and> unat (age_count cc' a) + C' (unat num - a) = req"
    and "n0 < unat pr' \<longrightarrow> req \<le> C' (unat pr')"
proof -
  have dec: "x - 1 \<noteq> 0 \<and> unat (x - 1) = unat x - 1 \<and> unat x \<noteq> 0" if "x \<noteq> 0" "x \<noteq> 1" for x :: u8
    using that by (auto simp: unat_minus_one unat_eq_0)
  have "(\<forall>a < length cc'. n0 < unat num - a \<longrightarrow>
      age_count cc' a \<noteq> 0 \<and> unat (age_count cc' a) + C' (unat num - a) = req) \<and>
    (n0 < unat pr' \<longrightarrow> req \<le> C' (unat pr'))"
    using apply_confirmations_ages [OF ap]
  proof (elim disjE exE conjE)
    assume l: "pr' = pr" "length cc' = length cc"
      "\<forall>a < length cc. age_count cc' a = (if a \<le> unat n then age_count cc a - 1 else age_count cc a) \<and>
         (a \<le> unat n \<longrightarrow> age_count cc a \<noteq> 1)"
    have "age_count cc' a \<noteq> 0 \<and> unat (age_count cc' a) + C' (unat num - a) = req"
      if "a < length cc" "n0 < unat num - a" for a
      using cnt [OF that] new [OF that] l(3) [rule_format, OF that(1)] dec [of "age_count cc a"] by auto
    with l(1,2) pr show ?thesis by auto
  next
    fix k
    assume k: "k < length cc" "k \<le> unat n" "age_count cc k = 1" "pr' = num - of_nat k" "length cc' = k"
      "\<forall>b < k. age_count cc' b = age_count cc b - 1 \<and> age_count cc b \<noteq> 1"
    have "age_count cc' a \<noteq> 0 \<and> unat (age_count cc' a) + C' (unat num - a) = req"
      if "a < k" "n0 < unat num - a" for a
    proof -
      have "a < length cc" "a \<le> unat n" using that k by simp_all
      then show ?thesis
        using cnt [of a] new [of a] k(6) [rule_format, OF that(1)] dec [of "age_count cc a"] that(2) by auto
    qed
    moreover have "unat pr' = unat num - k" using k(1,4) len by (simp add: unat_sub_of_nat)
    ultimately show ?thesis using cnt [OF k(1)] new [OF k(1)] k by auto
  qed
  then show "\<forall>a < length cc'. n0 < unat num - a \<longrightarrow>
      age_count cc' a \<noteq> 0 \<and> unat (age_count cc' a) + C' (unat num - a) = req"
    and "n0 < unat pr' \<longrightarrow> req \<le> C' (unat pr')" by blast+
qed

lemma confirms_inv_step:
  assumes inv: "confirms_inv n0 sched hs s" and n: "length (ps_producers sched) \<le> 125"
    and hinv: "header_inv s" and num: "unat (block_num s) = n0 + length hs" "n0 + length hs + 1 < 2 ^ 32"
    and step: "header_state_next c s h v skip = Inr s'" and np: "new_producers h = None"
  shows "confirms_inv n0 sched (hs @ [h]) s'"
proof -
  obtain p where p: "header_next c s (bh_timestamp h) (bh_confirmed h) = Inr p" "finish_next c p h v skip = Inr s'"
    using step by (rule header_state_nextE)
  note fin = finish_next_commonE [OF finish_nextE(1) [OF p(2)]]
  note fields = header_common_truncate_fields [OF fin(1)]
  from p(1) obtain prokey where st:
    "\<forall>l. map_of (producer_to_last_produced s) (pb_producer p) = Some l \<longrightarrow> l < block_num s + 1 - ucast (bh_confirmed h)"
    "block_num p = block_num s + 1"
    "(confirm_count p, dpos_proposed_irreversible_blocknum p) =
       apply_confirmations (block_num s + 1)
         (grow_confirm_count (confirm_count s) (length (ps_producers (active_schedule s)))) (bh_confirmed h)
         (dpos_proposed_irreversible_blocknum s)"
    "prev_pending_schedule p = pending_schedule s"
    "was_pending_promoted p \<longleftrightarrow> has_pending_producers s \<and>
       schedule_lib_num (pending_schedule s) \<le> dpos_irreversible_blocknum p"
    "active_schedule p = (if was_pending_promoted p then si_schedule (pending_schedule s) else active_schedule s)"
    "producer_to_last_produced p = AList.update (pb_producer p) (block_num p)
       (if was_pending_promoted p
        then promote_map (ps_producers (active_schedule p)) (pb_producer p) (block_num p)
               (producer_to_last_produced s) (dpos_irreversible_blocknum p)
        else producer_to_last_produced s)"
    by (rule header_nextE) (rule that)
  have sched: "active_schedule s = sched" and pend: "\<not> has_pending_producers s"
    and prod: "\<forall>(m, h) \<in> set (enumerate (Suc n0) hs).
        \<exists>l. map_of (producer_to_last_produced s) (bh_producer h) = Some l \<and> m \<le> unat l"
    and propd: "n0 < unat (dpos_proposed_irreversible_blocknum s) \<longrightarrow>
        required_confs (length (ps_producers sched)) \<le>
          confirmations n0 hs (unat (dpos_proposed_irreversible_blocknum s))"
    and few: "confirmations n0 hs b \<le> card (confirmers n0 hs b) + overconfirmations n0 hs b" for b
    using inv by (auto simp: confirms_inv_def)
  have M: "unat (block_num s + 1) = Suc (n0 + length hs)" using num by (simp add: unat_add_exact)
  have M': "unat (block_num s') = Suc (n0 + length hs)" using M by (simp add: fields st(2))
  have fresh: "bh_producer h \<notin> confirmers n0 hs b"
    if "unat (bh_confirmed h) \<le> Suc (n0 + length hs)" "Suc (n0 + length hs) - unat (bh_confirmed h) \<le> b" for b
  proof (rule confirmers_new [OF prod])
    have "unat (block_num s + 1 - ucast (bh_confirmed h)) = Suc (n0 + length hs) - unat (bh_confirmed h)"
      using that(1) M by (subst unat_sub_exact) (simp_all add: unat_ucast_up)
    with st(1) that(2) show "\<forall>l. map_of (producer_to_last_produced s) (bh_producer h) = Some l \<longrightarrow> unat l < b"
      by (auto simp: fin(7) word_less_nat_alt less_le_trans)
  qed
  have few': "confirmations n0 (hs @ [h]) b \<le> card (confirmers n0 (hs @ [h]) b) + overconfirmations n0 (hs @ [h]) b" for b
  proof (cases "Suc (n0 + length hs) - unat (bh_confirmed h) \<le> b \<and> b \<le> Suc (n0 + length hs)")
    case False
    then show ?thesis
      using few [of b] unfolding confirmations_simps(2) overconfirmations_simps(2) confirmers_simps(2) if_not_P [OF False] by simp
  next
    case True
    show ?thesis
    proof (cases "unat (bh_confirmed h) \<le> Suc (n0 + length hs)")
      case range: True
      have "card (confirmers n0 (hs @ [h]) b) = Suc (card (confirmers n0 hs b))"
        using True fresh [OF range] by (simp add: confirmers_simps finite_confirmers)
      with True range few [of b] show ?thesis by (simp add: confirmations_simps overconfirmations_simps)
    next
      case range: False
      with True few [of b] card_confirmers_mono [of n0 hs b h] show ?thesis
        by (simp add: confirmations_simps overconfirmations_simps)
    qed
  qed
  have new: "confirmations n0 (hs @ [h]) (Suc (n0 + length hs) - a) =
      (if a \<le> unat (bh_confirmed h) then Suc (confirmations n0 hs (Suc (n0 + length hs) - a))
       else confirmations n0 hs (Suc (n0 + length hs) - a))"
    if "a < length (grow_confirm_count (confirm_count s) (length (ps_producers sched)))"
      "n0 < Suc (n0 + length hs) - a" for a
    using that(2) by (auto simp: confirmations_simps)
  have gl: "length (grow_confirm_count (confirm_count s) (length (ps_producers sched))) \<le> unat (block_num s + 1)"
    using hinv length_grow_confirm_count [of "confirm_count s" "length (ps_producers sched)"] num M
    by (auto simp: header_inv_def)
  have propd': "required_confs (length (ps_producers sched)) \<le>
      confirmations n0 (hs @ [h]) (unat (dpos_proposed_irreversible_blocknum s))"
    if "n0 < unat (dpos_proposed_irreversible_blocknum s)"
    using propd that by (simp add: confirmations_simps)
  note counts = apply_confirmations_counts [where C = "confirmations n0 hs"
      and C' = "confirmations n0 (hs @ [h])" and ?n0.0 = n0, OF st(3) [symmetric, unfolded sched] gl,
      unfolded M, OF confirms_inv_grow [OF inv n num(1)] new propd']
  have c1: "\<forall>a < length (confirm_count s'). n0 < unat (block_num s') - a \<longrightarrow>
        age_count (confirm_count s') a \<noteq> 0 \<and>
        unat (age_count (confirm_count s') a) + confirmations n0 (hs @ [h]) (unat (block_num s') - a) =
          required_confs (length (ps_producers sched))"
    and c2: "n0 < unat (dpos_proposed_irreversible_blocknum s') \<longrightarrow>
        required_confs (length (ps_producers sched)) \<le>
          confirmations n0 (hs @ [h]) (unat (dpos_proposed_irreversible_blocknum s'))"
    using counts M by (simp_all add: fields st(2))
  have "\<forall>(m, h') \<in> set (enumerate (Suc n0) (hs @ [h])).
        \<exists>l. map_of (producer_to_last_produced s') (bh_producer h') = Some l \<and> m \<le> unat l"
  proof -
    have "m \<le> n0 + length hs" if "(m, h') \<in> set (enumerate (Suc n0) hs)" for m h'
      using that by (auto simp: in_set_enumerate_eq)
    with prod M pend show ?thesis
      by (auto simp: fields st(2,5,7) fin(7) enumerate_append_eq update_conv' split: prod.splits) fastforce
  qed
  moreover have "active_schedule s' = sched" "\<not> has_pending_producers s'"
    using pend np fin(9) by (auto simp: fields st sched has_pending_producers_def)
  ultimately show ?thesis using c1 c2 few' by (simp add: confirms_inv_def)
qed

lemma extend_branch_confirms:
  assumes "extend_branch c v skip s hs = Inr s'" and "header_inv s" and "\<not> has_pending_producers s"
    and "\<forall>h\<in>set hs. new_producers h = None" and "length (ps_producers (active_schedule s)) \<le> 125"
    and "unat (block_num s) + length hs < 2 ^ 32"
    and "dpos_proposed_irreversible_blocknum s \<le> block_num s"
  shows "confirms_inv (unat (block_num s)) (active_schedule s) hs s'"
  using assms(1,4,6)
proof (induction hs arbitrary: s' rule: rev_induct)
  case Nil
  have "\<not> unat (block_num s) < unat (dpos_proposed_irreversible_blocknum s)"
    using assms(7) by (simp add: word_le_nat_alt)
  with Nil assms(3) show ?case by (auto simp: confirms_inv_def confirmations_simps)
next
  case (snoc h hs)
  obtain s1 where s1: "extend_branch c v skip s hs = Inr s1" "header_state_next c s1 h v skip = Inr s'"
    using snoc.prems(1) by (rule extend_branch_snoc)
  have inv: "header_inv s1" "unat (block_num s1) = unat (block_num s) + length hs"
    using extend_branch_inv [OF s1(1) assms(2)] snoc.prems(3) by simp_all
  have "confirms_inv (unat (block_num s)) (active_schedule s) hs s1"
    using snoc.IH [OF s1(1)] snoc.prems by (auto simp: enumerate_append_eq)
  then show ?case
    by (rule confirms_inv_step [OF _ assms(5) inv _ s1(2)]) (use snoc.prems in \<open>auto simp: enumerate_append_eq\<close>)
qed

text \<open>
  C1: on a branch that keeps its producer schedule, a block of the branch is proposed as
  irreversible only when more than two thirds of the producers have confirmed it, each by a
  header of the branch whose range of confirmed blocks has it, where a header that confirms more
  blocks than there are counts once more (the code does not check the range, and its check against
  double confirmation is void for such a header).  So it is more than two thirds of the producers
  when no header does that, and always for a branch on top of block 65534 or a later one.
\<close>

theorem proposed_block_confirmed:
  assumes "extend_branch c v skip s hs = Inr s'" and "header_inv s" and "\<not> has_pending_producers s"
    and "\<forall>h\<in>set hs. new_producers h = None" and "length (ps_producers (active_schedule s)) \<le> 125"
    and "unat (block_num s) + length hs < 2 ^ 32"
    and "block_num s < dpos_proposed_irreversible_blocknum s'"
  shows "2 * length (ps_producers (active_schedule s)) <
      3 * (card (confirmers (unat (block_num s)) hs (unat (dpos_proposed_irreversible_blocknum s'))) +
           overconfirmations (unat (block_num s)) hs (unat (dpos_proposed_irreversible_blocknum s'))) \<and>
    (65534 \<le> unat (block_num s) \<or>
       (\<forall>(m, h) \<in> set (enumerate (Suc (unat (block_num s))) hs). unat (bh_confirmed h) \<le> m) \<longrightarrow>
     2 * length (ps_producers (active_schedule s)) <
       3 * card (confirmers (unat (block_num s)) hs (unat (dpos_proposed_irreversible_blocknum s'))))"
proof -
  let ?n0 = "unat (block_num s)" and ?b = "unat (dpos_proposed_irreversible_blocknum s')"
  have "dpos_proposed_irreversible_blocknum s \<le> block_num s"
    using assms(2) by (auto simp: header_inv_def word_le_nat_alt)
  with assms have inv: "confirms_inv ?n0 (active_schedule s) hs s'" by (intro extend_branch_confirms)
  with assms(7) have "required_confs (length (ps_producers (active_schedule s))) \<le> confirmations ?n0 hs ?b"
    by (simp add: confirms_inv_def word_less_nat_alt)
  moreover have "confirmations ?n0 hs ?b \<le> card (confirmers ?n0 hs ?b) + overconfirmations ?n0 hs ?b"
    using inv by (simp add: confirms_inv_def)
  ultimately have *: "2 * length (ps_producers (active_schedule s)) <
      3 * (card (confirmers ?n0 hs ?b) + overconfirmations ?n0 hs ?b)"
    by (simp add: required_confs_def)
  show ?thesis
  proof (intro conjI impI)
    assume "65534 \<le> ?n0 \<or> (\<forall>(m, h) \<in> set (enumerate (Suc ?n0) hs). unat (bh_confirmed h) \<le> m)"
    then have "\<forall>(m, h) \<in> set (enumerate (Suc ?n0) hs). unat (bh_confirmed h) \<le> m"
      by (rule disjE) (rule late_headers_in_range, simp)
    from overconfirmations_none [OF this] * show "2 * length (ps_producers (active_schedule s)) < 3 * card (confirmers ?n0 hs ?b)"
      by simp
  qed (rule *)
qed

lemma sample_branch:
  "extend_branch sample_crypto sample_validator False sample_state [sample_header1, sample_header2] = Inr sample_state2"
  by (simp add: sample_step1 sample_step2)

lemma sample_state_inv: "header_inv sample_state"
  by code_simp

theorem proposed_block_confirmed_witness:
  "2 * length (ps_producers (active_schedule sample_state)) <
   3 * card (confirmers (unat (block_num sample_state)) [sample_header1, sample_header2]
         (unat (dpos_proposed_irreversible_blocknum sample_state2)))"
proof -
  have keeps: "\<not> has_pending_producers sample_state" "\<forall>h\<in>set [sample_header1, sample_header2]. new_producers h = None"
    "length (ps_producers (active_schedule sample_state)) \<le> 125"
    subgoal by code_simp
    subgoal by (simp add: sample_header1_def sample_header2_def sample_header_def)
    subgoal by code_simp
    done
  have nums: "unat (block_num sample_state) + length [sample_header1, sample_header2] < 2 ^ 32"
    "block_num sample_state < dpos_proposed_irreversible_blocknum sample_state2"
    by (simp_all add: sample_values) (simp_all add: sample_state_def)
  have "\<forall>(m, h) \<in> set (enumerate (Suc (unat (block_num sample_state))) [sample_header1, sample_header2]).
      unat (bh_confirmed h) \<le> m"
    by (simp add: sample_header1_def sample_header2_def sample_header_def)
  then show ?thesis
    by (rule proposed_block_confirmed [OF sample_branch sample_state_inv keeps nums, THEN conjunct2, THEN mp, OF disjI2])
qed

section \<open>The range of confirmed blocks\<close>

text \<open>
  C37: the check against double confirmation compares 32-bit unsigned numbers, and it is void when a
  header confirms more blocks than the chain has: a producer can then confirm again every block it
  has already confirmed.
\<close>

theorem double_confirm_check_wraps:
  assumes "header_inv s" and "unat (block_num s) + 1 < unat n" and "bh_timestamp (hs_header s) < w"
    and "ps_producers (active_schedule s) \<noteq> []"
    and "incremental_append (pair_digest c) (blockroot_merkle s) (hs_id s) \<noteq> None"
  shows "is_ok (header_next c s w n)"
proof -
  have n: "unat n < 2 ^ 16" using unsigned_less [of n, where ?'a = nat] by simp
  have "l < block_num s + 1 - ucast n" if "map_of (producer_to_last_produced s) q = Some l" for q l
  proof -
    have l: "l \<le> block_num s" using assms(1) that by (auto simp: header_inv_def entries_le_map_of)
    have "unat (block_num s + 1 - ucast n) = 2 ^ 32 + (unat (block_num s) + 1) - unat n"
      using assms(2) n by (simp add: unat_sub_if_size word_size unat_add_exact unat_ucast_up)
    then show ?thesis using l assms(2) n by (simp add: word_less_nat_alt word_le_nat_alt)
  qed
  moreover have "w \<noteq> 0" using assms(3) by auto
  ultimately show ?thesis
    using assms(3,4,5)
    by (auto simp: is_ok_iff header_next_def get_scheduled_producer_def Let_def split: option.splits prod.splits
        del: EOS_ASSERT_Inr_iff) 
qed

theorem double_confirm_check_wraps_witness: "is_ok (header_next sample_crypto sample_state 24 0xffff)"
proof (rule double_confirm_check_wraps [OF sample_state_inv])
  show "unat (block_num sample_state) + 1 < unat (0xffff :: u16)" by (simp add: sample_state_def)
qed code_simp+

text \<open>
  C27: the last irreversible block is that of the previous block or later, except perhaps in the
  block after the one that promotes a schedule.
\<close>

theorem irreversible_monotone:
  assumes "header_state_next c s h1 v skip = Inr s1" and "header_state_next c s1 h2 v skip = Inr s2"
    and "header_inv s" and "unat (block_num s) + 1 < 2 ^ 32"
    and "map_of (producer_to_last_implied_irb s) (bh_producer h1) \<noteq> None"
    and "\<not> (has_pending_producers s \<and> schedule_lib_num (pending_schedule s) \<le> dpos_irreversible_blocknum s1)"
  shows "dpos_irreversible_blocknum s1 \<le> dpos_irreversible_blocknum s2"
proof -
  obtain p1 where p1: "header_next c s (bh_timestamp h1) (bh_confirmed h1) = Inr p1" "finish_next c p1 h1 v skip = Inr s1"
    using assms(1) by (rule header_state_nextE)
  obtain p2 where p2: "header_next c s1 (bh_timestamp h2) (bh_confirmed h2) = Inr p2" "finish_next c p2 h2 v skip = Inr s2"
    using assms(2) by (rule header_state_nextE)
  note f1 = finish_next_commonE [OF finish_nextE(1) [OF p1(2)]] and f2 = finish_next_commonE [OF finish_nextE(1) [OF p2(2)]]
  note t1 = header_common_truncate_fields [OF f1(1)] and t2 = header_common_truncate_fields [OF f2(1)]
  from p1(1) have lib1: "dpos_irreversible_blocknum p1 = calc_dpos_last_irreversible s (pb_producer p1)"
    by (rule header_nextE)
  from p1(1) obtain prokey where "was_pending_promoted p1 \<longleftrightarrow> has_pending_producers s \<and>
       schedule_lib_num (pending_schedule s) \<le> dpos_irreversible_blocknum p1"
    "producer_to_last_implied_irb p1 =
       (if was_pending_promoted p1
        then promote_map (ps_producers (active_schedule p1)) (pb_producer p1) (dpos_proposed_irreversible_blocknum s)
               (producer_to_last_implied_irb s) (dpos_irreversible_blocknum p1)
        else AList.update (pb_producer p1) (dpos_proposed_irreversible_blocknum s) (producer_to_last_implied_irb s))"
    by (rule header_nextE) (rule that)
  with assms(6) have imp1: "producer_to_last_implied_irb p1 =
      AList.update (pb_producer p1) (dpos_proposed_irreversible_blocknum s) (producer_to_last_implied_irb s)"
    by (auto simp: t1)
  from p2(1) have lib2: "dpos_irreversible_blocknum p2 = calc_dpos_last_irreversible s1 (pb_producer p2)"
    by (rule header_nextE)
  note inv1 = header_state_next_inv [OF assms(1,3,4)]
  have "distinct (map fst (producer_to_last_implied_irb s))" using assms(3) by (simp add: header_inv_def)
  moreover have "pb_producer p1 \<in> fst ` set (producer_to_last_implied_irb s)"
    using assms(5) f1(7) by (simp add: map_of_eq_None_iff)
  ultimately have "dpos_irreversible_blocknum s1 = dpos_rank (map snd (producer_to_last_implied_irb s1))"
    by (simp add: t1 lib1 imp1 calc_dpos_last_irreversible_rank implied_by_update)
  also have "\<dots> \<le> dpos_rank (implied_by (producer_to_last_implied_irb s1) (pb_producer p2) (dpos_proposed_irreversible_blocknum s1))"
    using inv1(1) by (intro dpos_rank_mono)
      (auto simp: list_all2_conv_all_nth implied_by_def header_inv_def entries_le_def list_all_length split: prod.splits)
  also have "\<dots> = dpos_irreversible_blocknum s2" by (simp add: t2 lib2 calc_dpos_last_irreversible_rank)
  finally show ?thesis .
qed

theorem irreversible_monotone_witness:
  "dpos_irreversible_blocknum sample_state1 \<le> dpos_irreversible_blocknum sample_state2"
proof (rule irreversible_monotone [OF sample_step1 sample_step2 sample_state_inv])
  show "unat (block_num sample_state) + 1 < 2 ^ 32" by (simp add: sample_state_def)
qed code_simp+

lemma genesis_inv:
  assumes "endian_reverse_u32 c 0 = 0"
  shows "header_inv (genesis_header_state c dk ik sig ts cid)"
    and "block_num (genesis_header_state c dk ik sig ts cid) = 1"
  using assms
  by (simp_all add: genesis_header_state_def header_inv_def header_block_num_def num_from_id_def entries_le_def Let_def)

text \<open>
  C36: every branch grown from the genesis state keeps the invariant of header states: the number of
  the block counts the headers, no block beyond it is confirmed or proposed, and the last
  irreversible block is at most the proposed one.
\<close>

theorem genesis_branch_inv:
  assumes "endian_reverse_u32 c 0 = 0"
    and "extend_branch c v skip (genesis_header_state c dk ik sig ts cid) hs = Inr s"
    and "length hs + 1 < 2 ^ 32"
  shows "header_inv s \<and> unat (block_num s) = length hs + 1"
  using extend_branch_inv [OF assms(2) genesis_inv(1) [OF assms(1)]] genesis_inv(2) [OF assms(1)] assms(3) by simp

definition sample_genesis :: "(u32, u32) header_state" where
  "sample_genesis = genesis_header_state sample_crypto 0 7 0 0 (sample_digest 1 2)"

definition sample_first :: "(u32, u32) signed_block_header" where
  "sample_first = (sample_header 1 system_account_name 0 7 (hs_id sample_genesis))\<lparr>schedule_version := 0\<rparr>"

theorem genesis_branch_inv_witness:
  "header_inv (projr (extend_branch sample_crypto sample_validator False sample_genesis [sample_first])) \<and>
   unat (block_num (projr (extend_branch sample_crypto sample_validator False sample_genesis [sample_first]))) = 2"
proof -
  have "is_ok (extend_branch sample_crypto sample_validator False sample_genesis [sample_first])" by code_simp
  from genesis_branch_inv [OF _ is_ok_projr [OF this, unfolded sample_genesis_def]]
  show ?thesis by (simp add: sample_genesis_def sample_crypto_def)
qed

end
