(* ===== verification/Header_Acceptance.thy ===== *)
theory Header_Acceptance
  imports Dpos_Branch
begin

text \<open>
  Which headers extend a header state: those of the scheduled producer, signed with its key, and
  every header this code produces.
\<close>

section \<open>The schedule\<close>

text \<open>
  The schedule is a round robin: every producer has twelve slots in a row, and a round has
  twelve slots for each producer.
\<close>

theorem schedule_round_robin:
  assumes "ps_producers (active_schedule s) \<noteq> []"
    and "i < length (ps_producers (active_schedule s))" and "j < 12"
    and "unat t = k * (length (ps_producers (active_schedule s)) * 12) + i * 12 + j"
  shows "get_scheduled_producer s t = Inr (ps_producers (active_schedule s) ! i)"
proof -
  have "i * 12 + j < length (ps_producers (active_schedule s)) * 12" using assms(2,3) by linarith
  then have "unat t mod (length (ps_producers (active_schedule s)) * 12) = i * 12 + j"
    by (simp add: assms(4) add.assoc)
  with assms(1,3) show ?thesis by (simp add: get_scheduled_producer_def producer_repetitions_def)
qed

theorem schedule_round_robin_witness:
  "get_scheduled_producer sample_state 63 = Inr (ps_producers (active_schedule sample_state) ! 1)"
  by (rule schedule_round_robin [of _ _ 3 _ 2]) (simp_all add: sample_state_def)

section \<open>Block numbers in ids\<close>

lemma ucast_hash_number: "ucast (((x :: u64) AND 0xffffffff00000000) + ucast (y :: u32)) = y"
proof -
  have "(ucast (a + b) :: u32) = ucast a + ucast b" for a b :: u64
    by (rule unsigned_word_eqI [where ?'a = int])
      (simp add: unsigned_ucast_eq uint_word_ariths take_bit_eq_mod mod_mod_cancel mod_add_eq)
  moreover have "(ucast (x AND 0xffffffff00000000) :: u32) = 0"
    by transfer (simp add: take_bit_and)
  moreover have "(ucast (ucast y :: u64) :: u32) = y" by transfer simp
  ultimately show ?thesis by simp
qed

lemma num_from_header_id:
  assumes "endian_reverse_u32 c (endian_reverse_u32 c (header_block_num c h)) = header_block_num c h"
  shows "num_from_id c (header_id c h) = header_block_num c h"
  using assms by (simp add: num_from_id_def header_id_def Let_def ucast_hash_number)

section \<open>Accepted headers\<close>

text \<open>
  C18: a header extends a header state only when it links to it, is later, names the producer that
  the schedule has for its slot, and is signed with the key of that producer; the id of the new
  state then carries its block number.
\<close>

theorem accepted_header_scheduled:
  assumes "header_state_next c s h v False = Inr s'" and "bh_timestamp (hs_header s) \<noteq> - 1"
    and "num_from_id c (hs_id s) = block_num s"
    and "endian_reverse_u32 c (endian_reverse_u32 c (block_num s + 1)) = block_num s + 1"
  shows "bh_previous h = hs_id s \<and> bh_timestamp (hs_header s) < bh_timestamp h \<and>
    (\<exists>prokey. get_scheduled_producer s (bh_timestamp h) = Inr prokey \<and>
       bh_producer h = pk_producer_name prokey \<and>
       recover_key c (producer_signature h) (sig_digest c s') True = Inr (pk_block_signing_key prokey)) \<and>
    hs_id s' = header_id c h \<and> num_from_id c (hs_id s') = block_num s' \<and> block_num s' = block_num s + 1"
proof -
  obtain p where p: "header_next c s (bh_timestamp h) (bh_confirmed h) = Inr p" "finish_next c p h v False = Inr s'"
    using assms(1) by (rule header_state_nextE)
  note fin = finish_next_commonE [OF finish_nextE(1) [OF p(2)]]
  note fields = header_common_truncate_fields [OF fin(1)]
  from p(1) obtain prokey where st:
    "pb_timestamp p = (if bh_timestamp h = 0 then bh_timestamp (hs_header s) + 1 else bh_timestamp h)"
    "bh_timestamp h \<noteq> 0 \<longrightarrow> bh_timestamp (hs_header s) < bh_timestamp h"
    "get_scheduled_producer s (pb_timestamp p) = Inr prokey"
    "pb_producer p = pk_producer_name prokey" "block_signing_key p = pk_block_signing_key prokey"
    "block_num p = block_num s + 1" "pb_previous p = hs_id s"
    by (rule header_nextE) (rule that)
  have t: "bh_timestamp h \<noteq> 0"
  proof
    assume "bh_timestamp h = 0"
    then have "bh_timestamp (hs_header s) + 1 = 0" using st(1) fin(4) [symmetric] by simp
    then show False using assms(2) by (simp add: eq_neg_iff_add_eq_0)
  qed
  then have "get_scheduled_producer s (bh_timestamp h) = Inr prokey" using st(1,3) by simp
  moreover have "bh_timestamp (hs_header s) < bh_timestamp h" using st(2) t by simp
  moreover have "signee c s' = Inr (block_signing_key s')" using finish_nextE(2) [OF p(2)] by simp
  moreover have "header_block_num c h = block_num s + 1" using assms(3) by (simp add: header_block_num_def fin(5) st(7))
  ultimately show ?thesis
    using st(4-7) fin(2,3,5,7) fields(1,8) num_from_header_id [of c h] assms(4) by (simp add: signee_def)
qed

theorem accepted_header_scheduled_witness:
  "bh_previous sample_header1 = hs_id sample_state \<and> bh_timestamp (hs_header sample_state) < bh_timestamp sample_header1 \<and>
    (\<exists>prokey. get_scheduled_producer sample_state (bh_timestamp sample_header1) = Inr prokey \<and>
       bh_producer sample_header1 = pk_producer_name prokey \<and>
       recover_key sample_crypto (producer_signature sample_header1) (sig_digest sample_crypto sample_state1) True =
         Inr (pk_block_signing_key prokey)) \<and>
    hs_id sample_state1 = header_id sample_crypto sample_header1 \<and>
    num_from_id sample_crypto (hs_id sample_state1) = block_num sample_state1 \<and>
    block_num sample_state1 = block_num sample_state + 1"
  by (rule accepted_header_scheduled [OF sample_step1]) code_simp+

section \<open>Produced headers\<close>

text \<open>The signature of a header is in the header state only.\<close>

lemma header_id_signature: "header_id c (h\<lparr>producer_signature := sig\<rparr>) = header_id c h"
  by (simp add: header_id_def header_block_num_def block_header.truncate_def)

lemma finish_next_common_signature:
  assumes "finish_next_common c p h v = Inr s"
  shows "finish_next_common c p (h\<lparr>producer_signature := sig\<rparr>) v = Inr (s\<lparr>hs_header := h\<lparr>producer_signature := sig\<rparr>\<rparr>)"
  using assms
  by (auto simp: finish_next_common_def validate_and_extract_header_extensions_def header_id_signature
      split: option.splits)

lemma sig_digest_signature: "sig_digest c (s\<lparr>hs_header := (hs_header s)\<lparr>producer_signature := sig\<rparr>\<rparr>) = sig_digest c s"
  by (simp add: sig_digest_def block_header.truncate_def)

text \<open>
  C19: a header made from a pending state, finished and signed by the scheduled producer, is
  accepted by every node that has the previous header state, with the same result.
\<close>

theorem produced_header_accepted:
  assumes "header_next c s w n = Inr p"
    and "finish_next_sign c p (make_block_header c sg p trx_mroot act_mroot np fs) v signer = Inr (s', h)"
    and "bh_timestamp (hs_header s) \<noteq> - 1"
    and "\<forall>d sig. signer d = Inr sig \<longrightarrow> recover_key c sig d True = recover_key c sig d False"
  shows "header_state_next c s h v False = Inr s'"
proof -
  define h0 where "h0 = make_block_header c sg p trx_mroot act_mroot np fs"
  obtain s0 where s0: "finish_next_common c p h0 v = Inr s0" "sign_header c s0 signer = Inr s'"
    "h = h0\<lparr>producer_signature := producer_signature (hs_header s')\<rparr>"
    using assms(2) unfolding h0_def [symmetric] finish_next_sign_def by (simp only: bind_res_Inr_iff) blast
  from s0(2) obtain sig where sig: "signer (sig_digest c s0) = Inr sig"
    "recover_key c sig (sig_digest c s0) False = Inr (block_signing_key s0)"
    "s' = s0\<lparr>hs_header := (hs_header s0)\<lparr>producer_signature := sig\<rparr>\<rparr>"
    unfolding sign_header_def Let_def by (simp only: bind_res_Inr_iff EOS_ASSERT_Inr_iff) blast
  have hdr: "hs_header s0 = h0" using finish_next_commonE(2) [OF s0(1)] .
  have h': "h = h0\<lparr>producer_signature := sig\<rparr>" by (simp add: s0(3) sig(3))
  have fin: "finish_next_common c p h v = Inr s'"
    using finish_next_common_signature [OF s0(1)] by (simp add: sig(3) h' hdr)
  have "signee c s' = Inr (block_signing_key s')"
    using sig(1,2) assms(4) by (simp add: signee_def sig(3) sig_digest_signature)
  with fin have ok: "finish_next c p h v False = Inr s'" by (simp add: finish_next_def verify_signee_def)
  from assms(1) obtain prokey where st:
    "pb_timestamp p = (if w = 0 then bh_timestamp (hs_header s) + 1 else w)" "pb_confirmed p = n"
    by (rule header_nextE) (rule that)
  have h: "bh_timestamp h = pb_timestamp p" "bh_confirmed h = n"
    using st by (simp_all add: h' h0_def make_block_header_def)
  have "header_next c s (pb_timestamp p) n = Inr p"
  proof (cases "w = 0")
    case True
    have "bh_timestamp (hs_header s) + 1 \<noteq> 0" using assms(3) by (simp add: eq_neg_iff_add_eq_0)
    moreover from this have "bh_timestamp (hs_header s) < bh_timestamp (hs_header s) + 1"
      using unat_minus_one [of "bh_timestamp (hs_header s) + 1"] by (simp add: word_less_nat_alt unat_gt_0)
    ultimately show ?thesis using True assms(1) st(1) by (simp add: header_next_def)
  next
    case False with assms(1) st(1) show ?thesis by simp
  qed
  with ok show ?thesis by (simp add: header_state_next_def h)
qed

definition sample_pending :: "u32 pending_header" where
  "sample_pending = projr (header_next sample_crypto sample_state 0 0)"

definition sample_produced :: "(u32, u32) header_state \<times> (u32, u32) signed_block_header" where
  "sample_produced = projr (finish_next_sign sample_crypto sample_pending
     (make_block_header sample_crypto 0 sample_pending (sample_digest 5 5) (sample_digest 6 6) None [])
     sample_validator (\<lambda>d. Inr 101))"

theorem produced_header_accepted_witness:
  "header_state_next sample_crypto sample_state (snd sample_produced) sample_validator False = Inr (fst sample_produced)"
proof (rule produced_header_accepted)
  show "header_next sample_crypto sample_state 0 0 = Inr sample_pending"
    unfolding sample_pending_def by (rule is_ok_projr) code_simp
  have "is_ok (finish_next_sign sample_crypto sample_pending
      (make_block_header sample_crypto 0 sample_pending (sample_digest 5 5) (sample_digest 6 6) None [])
      sample_validator (\<lambda>d. Inr 101))"
    by code_simp
  from is_ok_projr [OF this] show "finish_next_sign sample_crypto sample_pending
      (make_block_header sample_crypto 0 sample_pending (sample_digest 5 5) (sample_digest 6 6) None [])
      sample_validator (\<lambda>d. Inr 101) = Inr (fst sample_produced, snd sample_produced)"
    by (simp add: sample_produced_def)
qed (simp_all add: sample_state_def sample_header_def sample_crypto_def)

end
