(* ===== verification/Controller_Forks.thy ===== *)
theory Controller_Forks
  imports Fork_Database
begin

text \<open>
  How the controller uses the fork database, \<^verbatim>\<open>libraries/chain/controller.cpp\<close>: the block state of a
  received block, switching to another branch, and moving the irreversible blocks to the log.
  Executing a block, undoing the last executed one and committing, on the state database, are
  parameters.  The block log is the list of its blocks.  The
  signals, the pool of unapplied transactions, the log of reversible blocks and the list of activated
  protocol features, which these functions only write, are left out, and so is the assertion of
  \<open>pop_block\<close> in speculative mode that the head has its block: only a root read from a snapshot has none.
\<close>

datatype block_status = irreversible | block_validated | complete | incomplete

record ('k, 's, 't, 'm, 'd) chain_ops =
  apply_block :: "'d \<Rightarrow> ('k, 's, 't, 'm) block_state \<Rightarrow> block_status \<Rightarrow> 'd res"
  db_undo :: "'d \<Rightarrow> 'd"
  db_commit :: "'d \<Rightarrow> u32 \<Rightarrow> 'd"
  check_protocol_features :: validator

record ('k, 's, 't, 'm, 'd) chain_state =
  cs_fork_db :: "('k, 's, 't, 'm) fork_db"
  cs_head :: "('k, 's, 't, 'm) block_state"
  cs_db :: 'd
  cs_log :: "('k, 's, 't) signed_block list"

definition create_block_state_future :: "('k, 's) crypto \<Rightarrow> ('k, 's, 't, 'm, 'd) chain_ops \<Rightarrow> ('k, 's, 't, 'm) fork_db \<Rightarrow>
    ('k, 's, 't) signed_block \<Rightarrow> ('k, 's, 't, 'm) block_state res" where
  "create_block_state_future c ops db b =
     (let i = header_id c b
      in EOS_ASSERT (get_block db i = None) fork_database_exception
         (bind_res (get_block_header db (bh_previous b)) (\<lambda>p.
            case p of
              None \<Rightarrow> Inl unlinkable_block_exception
            | Some p \<Rightarrow> block_state_next c (header_state.truncate p) b (check_protocol_features ops) False)))"

text \<open>The results of the controller functions carry the state: an exception leaves what was done.\<close>

type_synonym ('k, 's, 't, 'm, 'd) outcome = "('k, 's, 't, 'm, 'd) chain_state \<times> unit res"

definition pop_block :: "('k, 's, 't, 'm, 'd) chain_ops \<Rightarrow> ('k, 's, 't, 'm, 'd) chain_state \<Rightarrow> ('k, 's, 't, 'm, 'd) outcome" where
  "pop_block ops st =
     (case get_block (cs_fork_db st) (prev (cs_head st)) of
        Some p \<Rightarrow> (st\<lparr>cs_head := p, cs_db := db_undo ops (cs_db st)\<rparr>, Inr ())
      | None \<Rightarrow>
          (case fdb_root (cs_fork_db st) of
             None \<Rightarrow> (st, Inl undefined_behaviour)
           | Some r \<Rightarrow>
               if hs_id r = prev (cs_head st)
               then (st\<lparr>cs_head := r, cs_db := db_undo ops (cs_db st)\<rparr>, Inr ())
               else (st, Inl block_validate_exception)))"

fun pop_blocks :: "('k, 's, 't, 'm, 'd) chain_ops \<Rightarrow> nat \<Rightarrow> ('k, 's, 't, 'm, 'd) chain_state \<Rightarrow> ('k, 's, 't, 'm, 'd) outcome" where
  "pop_blocks ops 0 st = (st, Inr ())"
| "pop_blocks ops (Suc n) st =
     (case pop_block ops st of
        (st, Inl e) \<Rightarrow> (st, Inl e)
      | (st, Inr _) \<Rightarrow> pop_blocks ops n st)"

text \<open>Applying a block and marking it valid, inside the \<open>try\<close> of the switch.\<close>

definition apply_and_mark :: "('k, 's, 't, 'm, 'd) chain_ops \<Rightarrow> ('k, 's, 't, 'm) block_state \<Rightarrow> block_status \<Rightarrow>
    ('k, 's, 't, 'm, 'd) chain_state \<Rightarrow> ('k, 's, 't, 'm, 'd) outcome" where
  "apply_and_mark ops b s st =
     (case apply_block ops (cs_db st) b s of
        Inl e \<Rightarrow> (st, Inl e)
      | Inr d \<Rightarrow>
          (case mark_valid (cs_fork_db st) b of
             Inl e \<Rightarrow> (st\<lparr>cs_db := d\<rparr>, Inl e)
           | Inr db \<Rightarrow> (st\<lparr>cs_db := d, cs_fork_db := db, cs_head := b\<lparr>validated := True\<rparr>\<rparr>, Inr ())))"

definition remove_block :: "digest \<Rightarrow> ('k, 's, 't, 'm, 'd) chain_state \<Rightarrow> ('k, 's, 't, 'm, 'd) outcome" where
  "remove_block i st =
     (case fork_remove (cs_fork_db st) i of
        Inl e \<Rightarrow> (st, Inl e)
      | Inr db \<Rightarrow> (st\<lparr>cs_fork_db := db\<rparr>, Inr ()))"

text \<open>Re-applying the blocks of the old branch, oldest first.\<close>

fun reapply_blocks :: "('k, 's, 't, 'm, 'd) chain_ops \<Rightarrow> ('k, 's, 't, 'm) block_state list \<Rightarrow>
    ('k, 's, 't, 'm, 'd) chain_state \<Rightarrow> ('k, 's, 't, 'm, 'd) outcome" where
  "reapply_blocks ops [] st = (st, Inr ())"
| "reapply_blocks ops (b # bs) st =
     (case apply_block ops (cs_db st) b block_validated of
        Inl e \<Rightarrow> (st, Inl e)
      | Inr d \<Rightarrow> reapply_blocks ops bs (st\<lparr>cs_db := d, cs_head := b\<rparr>))"

text \<open>
  What follows a block that threw: \<open>applied\<close> blocks of the new branch are popped, and the old
  branch is applied again.  The last block of an empty old branch does not exist.
\<close>

definition revert_switch :: "('k, 's, 't, 'm, 'd) chain_ops \<Rightarrow> chain_error \<Rightarrow> digest \<Rightarrow> nat \<Rightarrow> ('k, 's, 't, 'm) block_state list \<Rightarrow>
    ('k, 's, 't, 'm, 'd) chain_state \<Rightarrow> ('k, 's, 't, 'm, 'd) outcome" where
  "revert_switch ops e i applied second st =
     (case remove_block i st of
        (st, Inl e') \<Rightarrow> (st, Inl e')
      | (st, Inr _) \<Rightarrow>
          (case pop_blocks ops applied st of
             (st, Inl e') \<Rightarrow> (st, Inl e')
           | (st, Inr _) \<Rightarrow>
               if second = [] then (st, Inl undefined_behaviour)
               else if hs_id (cs_head st) \<noteq> prev (last second) then (st, Inl fork_database_exception)
               else
                 (case reapply_blocks ops (rev second) st of
                    (st, Inl e') \<Rightarrow> (st, Inl e')
                  | (st, Inr _) \<Rightarrow> (st, Inl e))))"

fun apply_branch :: "('k, 's, 't, 'm, 'd) chain_ops \<Rightarrow> ('k, 's, 't, 'm) block_state list \<Rightarrow> nat \<Rightarrow>
    ('k, 's, 't, 'm) block_state list \<Rightarrow> ('k, 's, 't, 'm, 'd) chain_state \<Rightarrow> ('k, 's, 't, 'm, 'd) outcome" where
  "apply_branch ops [] applied second st = (st, Inr ())"
| "apply_branch ops (b # bs) applied second st =
     (case apply_and_mark ops b (if is_valid b then block_validated else complete) st of
        (st, Inr _) \<Rightarrow> apply_branch ops bs (Suc applied) second st
      | (st, Inl e) \<Rightarrow> revert_switch ops e (hs_id b) applied second st)"

definition switch_forks :: "('k, 's, 't, 'm, 'd) chain_ops \<Rightarrow> ('k, 's, 't, 'm) block_state \<Rightarrow> block_status \<Rightarrow>
    ('k, 's, 't, 'm, 'd) chain_state \<Rightarrow> ('k, 's, 't, 'm, 'd) outcome" where
  "switch_forks ops new_head s st =
     (if prev new_head = hs_id (cs_head st)
      then (case apply_and_mark ops new_head s st of
              (st, Inr _) \<Rightarrow> (st, Inr ())
            | (st, Inl e) \<Rightarrow>
                (case remove_block (hs_id new_head) st of
                   (st, Inl e') \<Rightarrow> (st, Inl e')
                 | (st, Inr _) \<Rightarrow> (st, Inl e)))
      else if hs_id new_head \<noteq> hs_id (cs_head st)
      then (case fetch_branch_from (cs_fork_db st) (hs_id new_head) (hs_id (cs_head st)) of
              Inl e \<Rightarrow> (st, Inl e)
            | Inr (first, second) \<Rightarrow>
                (case (if second \<noteq> []
                       then (case pop_blocks ops (length second) st of
                               (st, Inl e) \<Rightarrow> (st, Inl e)
                             | (st, Inr _) \<Rightarrow>
                                 if hs_id (cs_head st) = prev (last second) then (st, Inr ())
                                 else (st, Inl fork_database_exception))
                       else (st, Inr ())) of
                   (st, Inl e) \<Rightarrow> (st, Inl e)
                 | (st, Inr _) \<Rightarrow> apply_branch ops (rev first) 0 second st))
      else (st, Inr ()))"

section \<open>Irreversible blocks\<close>

text \<open>
  The loop over the irreversible blocks, oldest first; \<open>irr\<close> is the read mode that applies blocks
  only here.  The result has the id of the last block that was logged.
\<close>

fun log_blocks :: "('k, 's, 't, 'm, 'd) chain_ops \<Rightarrow> bool \<Rightarrow> ('k, 's, 't, 'm) block_state list \<Rightarrow> digest \<Rightarrow>
    ('k, 's, 't, 'm, 'd) chain_state \<Rightarrow> ('k, 's, 't, 'm, 'd) chain_state \<times> digest \<times> unit res" where
  "log_blocks ops irr [] root_id st = (st, root_id, Inr ())"
| "log_blocks ops irr (b # bs) root_id st =
     (case (if irr
            then (case apply_block ops (cs_db st) b complete of
                    Inl e \<Rightarrow> (st, Inl e)
                  | Inr d \<Rightarrow>
                      (case mark_valid (cs_fork_db st) b of
                         Inl e \<Rightarrow> (st\<lparr>cs_db := d, cs_head := b\<rparr>, Inl e)
                       | Inr db \<Rightarrow> (st\<lparr>cs_db := d, cs_head := b\<lparr>validated := True\<rparr>, cs_fork_db := db\<rparr>, Inr ())))
            else (st, Inr ())) of
        (st, Inl e) \<Rightarrow> (st, root_id, Inl e)
      | (st, Inr _) \<Rightarrow>
          (let st = st\<lparr>cs_db := db_commit ops (cs_db st) (block_num b)\<rparr>
           in case block b of
                None \<Rightarrow> (st, hs_id b, Inl undefined_behaviour)
              | Some sb \<Rightarrow> log_blocks ops irr bs (hs_id b) (st\<lparr>cs_log := cs_log st @ [sb]\<rparr>)))"

definition advance_to :: "digest \<Rightarrow> ('k, 's, 't, 'm, 'd) chain_state \<Rightarrow> ('k, 's, 't, 'm, 'd) outcome" where
  "advance_to root_id st =
     (if map_option hs_id (fdb_root (cs_fork_db st)) \<noteq> Some root_id
      then (case advance_root_outcome (cs_fork_db st) root_id of (db, res) \<Rightarrow> (st\<lparr>cs_fork_db := db\<rparr>, res))
      else (st, Inr ()))"

definition log_irreversible :: "('k, 's) crypto \<Rightarrow> ('k, 's, 't, 'm, 'd) chain_ops \<Rightarrow> bool \<Rightarrow> u32 \<Rightarrow>
    ('k, 's, 't, 'm, 'd) chain_state \<Rightarrow> ('k, 's, 't, 'm, 'd) outcome" where
  "log_irreversible c ops irr first_block_num st =
     (case fdb_root (cs_fork_db st) of
        None \<Rightarrow> (st, Inl fork_database_exception)
      | Some r \<Rightarrow>
          (let lib_num = (if cs_log st = [] then first_block_num - 1 else header_block_num c (last (cs_log st)))
           in if \<not> (if cs_log st = [] then block_num r = lib_num else hs_id r = header_id c (last (cs_log st)))
              then (st, Inl fork_database_exception)
              else
                (case (if irr then pending_head (cs_fork_db st) else Inr (fdb_head (cs_fork_db st))) of
                   Inl e \<Rightarrow> (st, Inl e)
                 | Inr None \<Rightarrow> (st, Inl undefined_behaviour)
                 | Inr (Some fork_head) \<Rightarrow>
                     if dpos_irreversible_blocknum fork_head \<le> lib_num then (st, Inr ())
                     else
                       (case fetch_branch (cs_fork_db st) (hs_id fork_head) (dpos_irreversible_blocknum fork_head) of
                          Inl e \<Rightarrow> (st, Inl e)
                        | Inr branch \<Rightarrow>
                            (case log_blocks ops irr (rev branch) (hs_id r) st of
                               (st, root_id, Inr _) \<Rightarrow> advance_to root_id st
                             | (st, root_id, Inl e) \<Rightarrow>
                                 (case advance_to root_id st of
                                    (st, Inl e') \<Rightarrow> (st, Inl e')
                                  | (st, Inr _) \<Rightarrow> (st, Inl e)))))))"

definition maybe_switch_forks :: "('k, 's) crypto \<Rightarrow> ('k, 's, 't, 'm, 'd) chain_ops \<Rightarrow> u32 \<Rightarrow> ('k, 's, 't, 'm) block_state \<Rightarrow>
    block_status \<Rightarrow> ('k, 's, 't, 'm, 'd) chain_state \<Rightarrow> ('k, 's, 't, 'm, 'd) outcome" where
  "maybe_switch_forks c ops first_block_num new_head s st =
     (let head_changed = (prev new_head = hs_id (cs_head st) \<or> hs_id new_head \<noteq> hs_id (cs_head st))
      in case switch_forks ops new_head s st of
           (st, Inl e) \<Rightarrow> (st, Inl e)
         | (st, Inr _) \<Rightarrow> if head_changed then log_irreversible c ops False first_block_num st else (st, Inr ()))"

definition push_block :: "('k, 's) crypto \<Rightarrow> ('k, 's, 't, 'm, 'd) chain_ops \<Rightarrow> bool \<Rightarrow> u32 \<Rightarrow> ('k, 's, 't, 'm) block_state res \<Rightarrow>
    ('k, 's, 't, 'm, 'd) chain_state \<Rightarrow> ('k, 's, 't, 'm, 'd) outcome" where
  "push_block c ops irr first_block_num block_state_future st =
     (case block_state_future of
        Inl e \<Rightarrow> (st, Inl e)
      | Inr bsp \<Rightarrow>
          (case fork_add (cs_fork_db st) bsp False of
             Inl e \<Rightarrow> (st, Inl e)
           | Inr db \<Rightarrow>
               (let st = st\<lparr>cs_fork_db := db\<rparr>
                in if irr then log_irreversible c ops irr first_block_num st
                   else
                     (case pending_head db of
                        Inl e \<Rightarrow> (st, Inl e)
                      | Inr None \<Rightarrow> (st, Inl undefined_behaviour)
                      | Inr (Some new_head) \<Rightarrow> maybe_switch_forks c ops first_block_num new_head complete st))))"

end
