(* ===== verification/Fork_Props.thy ===== *)
theory Fork_Props
  imports Fork_Refinement Header_Acceptance Controller_Forks
begin

text \<open>
  The properties of the fork database: it refines a tree of block ids, every operation keeps it
  well formed, and its heads are the best blocks.
\<close>

section \<open>The best block\<close>

lemma first_preferred_trans: "\<not> first_preferred a b \<Longrightarrow> \<not> first_preferred b c \<Longrightarrow> \<not> first_preferred a c"
  by (auto simp: first_preferred_def)

definition not_better :: "('k, 's, 't, 'm) block_state \<Rightarrow> ('k, 's, 't, 'm) block_state \<Rightarrow> bool" where
  "not_better b c \<longleftrightarrow> (validated b \<longrightarrow> validated c) \<and> (validated b = validated c \<longrightarrow> \<not> first_preferred b c)"

lemma not_better_trans: "not_better a b \<Longrightarrow> not_better b c \<Longrightarrow> not_better a c"
  using first_preferred_trans [of a b c] by (auto simp: not_better_def)

lemma by_lib_begin_best:
  assumes "by_lib_begin idx = Some c"
  shows "c \<in> set idx \<and> (\<forall>b\<in>set idx. not_better b c)"
  using assms
proof (induction idx arbitrary: c)
  case (Cons b bs)
  have refl: "not_better x x" for x :: "('a, 'b, 'c, 'd) block_state" by (simp add: not_better_def first_preferred_def)
  show ?case
  proof (cases "by_lib_begin bs")
    case None
    then have "bs = []" by (cases bs) (auto split: option.splits)
    with Cons.prems None refl show ?thesis by simp
  next
    case (Some m)
    note ih = Cons.IH [OF Some]
    show ?thesis
    proof (cases "by_lib_less m b")
      case True
      then have "not_better b m" by (auto simp: by_lib_less_def not_better_def first_preferred_def)
      with True Cons.prems Some ih refl show ?thesis by auto
    next
      case False
      then have "not_better m b" by (auto simp: by_lib_less_def not_better_def)
      with False Cons.prems Some ih refl show ?thesis by (auto intro: not_better_trans)
    qed
  qed
qed simp

lemma by_lib_begin_None: "by_lib_begin idx = None \<longleftrightarrow> idx = []"
  by (cases idx) (auto split: option.splits)

text \<open>
  C38: no block of the database, validated or not, is preferred to the pending head.
\<close>

theorem pending_head_best:
  assumes "fork_inv db"
  shows "\<exists>b. pending_head db = Inr (Some b) \<and> list_all (\<lambda>c. \<not> first_preferred c b) (fdb_index db)"
proof -
  obtain r h where h: "fdb_head db = Some h" "head_inv r h (fdb_index db)" using assms by (rule fork_invE)
  then have valid: "\<not> first_preferred c h" if "c \<in> set (fdb_index db)" "validated c" for c
    using that by (auto simp: head_inv_def list_all_iff)
  show ?thesis
  proof (cases "by_lib_begin (filter (\<lambda>b. \<not> validated b) (fdb_index db))")
    case None
    then have "\<forall>c\<in>set (fdb_index db). validated c" by (simp add: by_lib_begin_None filter_empty_conv)
    with None h valid show ?thesis by (auto simp: pending_head_def list_all_iff)
  next
    case (Some b)
    have pend: "\<not> first_preferred c b" if "c \<in> set (fdb_index db)" "\<not> validated c" for c
      using by_lib_begin_best [OF Some] that by (auto simp: not_better_def)
    show ?thesis
    proof (cases "first_preferred b h")
      case True
      then have "\<not> first_preferred h b" by (auto simp: first_preferred_def)
      with True Some h(1) pend valid show ?thesis
        by (auto simp: pending_head_def list_all_iff) (meson first_preferred_trans)
    next
      case False
      with Some h(1) pend valid show ?thesis
        by (auto simp: pending_head_def list_all_iff) (meson first_preferred_trans)
    qed
  qed
qed

theorem pending_head_best_witness:
  "\<exists>b. pending_head sample_fork_db = Inr (Some b) \<and> list_all (\<lambda>c. \<not> first_preferred c b) (fdb_index sample_fork_db)"
  by (rule pending_head_best [OF sample_fork_inv])

section \<open>Refinement of a tree of ids\<close>

record fork_tree =
  ft_root :: digest
  ft_edges :: "(digest \<times> digest) set"

definition tree_add :: "fork_tree \<Rightarrow> digest \<Rightarrow> digest \<Rightarrow> fork_tree" where
  "tree_add t p i = t\<lparr>ft_edges := insert (p, i) (ft_edges t)\<rparr>"

definition tree_remove :: "fork_tree \<Rightarrow> digest \<Rightarrow> fork_tree" where
  "tree_remove t i = t\<lparr>ft_edges := {(p, j) \<in> ft_edges t. (i, j) \<notin> (ft_edges t)\<^sup>*}\<rparr>"

definition tree_advance :: "fork_tree \<Rightarrow> digest \<Rightarrow> fork_tree" where
  "tree_advance t i = \<lparr>ft_root = i, ft_edges = {(p, j) \<in> ft_edges t. (i, j) \<in> (ft_edges t)\<^sup>+}\<rparr>"

definition fork_abs :: "('k, 's, 't, 'm) fork_db \<Rightarrow> fork_tree" where
  "fork_abs db = \<lparr>ft_root = hs_id (the (fdb_root db)), ft_edges = edges (fdb_index db)\<rparr>"

lemma edges_filter_id: "edges (filter (\<lambda>b. P (hs_id b)) idx) = {(p, j) \<in> edges idx. P j}"
  by (auto simp: edges_iff)

lemma edges_same_links: "(\<And>b. b \<in> set idx \<Longrightarrow> prev (f b) = prev b \<and> hs_id (f b) = hs_id b) \<Longrightarrow> edges (map f idx) = edges idx"
  by (auto simp: edges_def image_image)

lemma fork_add_abs:
  assumes "fork_add db n False = Inr db'"
  shows "fork_abs db' = tree_add (fork_abs db) (prev n) (hs_id n)"
  using assms
  by (auto simp: fork_add_def fork_add_impl_def fork_abs_def tree_add_def edges_def Let_def split: option.splits if_splits)

lemma mark_validE:
  assumes "mark_valid db b = Inr db'" and "\<not> validated b"
  obtains c h where "fdb_head db = Some h" "by_lib_begin (map (set_validated (hs_id b)) (fdb_index db)) = Some c"
    "get_block db (hs_id b) \<noteq> None"
    "db' = db\<lparr>fdb_index := map (set_validated (hs_id b)) (fdb_index db), fdb_head := Some (if first_preferred c h then c else h)\<rparr>"
proof -
  have get: "get_block db (hs_id b) \<noteq> None" using assms by (auto simp: mark_valid_def split: if_splits)
  obtain h where h: "fdb_head db = Some h"
    using assms get by (auto simp: mark_valid_def Let_def split: option.splits)
  obtain c where c: "by_lib_begin (map (set_validated (hs_id b)) (fdb_index db)) = Some c"
    using assms get h by (auto simp: mark_valid_def Let_def split: option.splits)
  show thesis
    by (rule that [OF h c get]) (use assms get h c in \<open>cases db; auto simp: mark_valid_def Let_def split: if_splits\<close>)
qed

lemma head_inv_in: "head_inv r h idx \<Longrightarrow> h \<in> set (r # idx)"
  by (auto simp: head_inv_def)

lemma advance_rootE:
  assumes "fork_inv db" and "advance_root db i = Inr db'" and "fdb_root db = Some r" and "fdb_head db = Some h"
  obtains n where "n \<in> set (fdb_index db)" "hs_id n = i" "validated n" "(i, hs_id h) \<in> (edges (fdb_index db))\<^sup>*"
    "db' = db\<lparr>fdb_index := filter (\<lambda>b. (i, hs_id b) \<in> (edges (fdb_index db))\<^sup>+) (fdb_index db), fdb_root := Some n\<rparr>"
proof -
  have tree: "tree_inv r (fdb_index db)" and hin: "h \<in> set (r # fdb_index db)"
    using assms(1,3,4) by (auto elim!: fork_invE dest: head_inv_in)
  obtain n where n: "n \<in> set (fdb_index db)" "hs_id n = i"
    using assms(2,3) tree_inv_distinct [OF tree]
    by (auto simp: advance_root_def advance_root_outcome_def get_block_def find_block_Some split: option.splits)
  with assms(2) advance_root_spec [OF assms(3) tree assms(4) hin n(1)] show thesis
    by (intro that [of n]) (auto split: if_splits)
qed

text \<open>
  C2: the fork database implements a tree of block ids: adding a block adds an edge, removing a
  block removes the edges to it and to all of its descendants, advancing the root keeps exactly
  the edges strictly below the new root, and validation leaves the tree alone.
\<close>

theorem fork_db_refines_tree:
  assumes "fork_inv db"
  shows "(\<forall>n db'. fork_add db n False = Inr db' \<longrightarrow> fork_abs db' = tree_add (fork_abs db) (prev n) (hs_id n)) \<and>
    (\<forall>i db'. fork_remove db i = Inr db' \<longrightarrow> fork_abs db' = tree_remove (fork_abs db) i) \<and>
    (\<forall>i db'. advance_root db i = Inr db' \<longrightarrow> fork_abs db' = tree_advance (fork_abs db) i) \<and>
    (\<forall>b db'. mark_valid db b = Inr db' \<longrightarrow> fork_abs db' = fork_abs db) \<and>
    fork_abs (rollback_head_to_root db) = fork_abs db"
proof (intro conjI allI impI)
  obtain r h where rh: "fdb_root db = Some r" "fdb_head db = Some h" "tree_inv r (fdb_index db)"
    using assms by (rule fork_invE)
  note forest = tree_inv_forest [OF rh(3)]
  fix i db'
  show "fork_abs db' = tree_remove (fork_abs db) i" if "fork_remove db i = Inr db'"
    using that by (auto simp: fork_remove_spec [OF forest rh(2)] fork_abs_def tree_remove_def
        edges_filter_id [where P = "\<lambda>j. (i, j) \<notin> X" for X] split: if_splits)
  show "fork_abs db' = tree_advance (fork_abs db) i" if "advance_root db i = Inr db'"
    using assms that rh(1,2)
    by (rule advance_rootE) (simp add: fork_abs_def tree_advance_def edges_filter_id [where P = "\<lambda>j. (i, j) \<in> X" for X])
next
  fix b db'
  show "fork_abs db' = fork_abs db" if "mark_valid db b = Inr db'"
  proof -
    have same: "edges (map (set_validated (hs_id b)) (fdb_index db)) = edges (fdb_index db)"
      by (rule edges_same_links) (simp add: set_validated_def prev_def)
    show ?thesis
    proof (cases "validated b")
      case True with that show ?thesis by (simp add: mark_valid_def)
    next
      case False
      with that show ?thesis by (rule mark_validE) (simp add: fork_abs_def same)
    qed
  qed
next
  have "edges (map (\<lambda>b. b\<lparr>validated := False\<rparr>) (fdb_index db)) = edges (fdb_index db)"
    by (rule edges_same_links) (simp add: prev_def)
  then show "fork_abs (rollback_head_to_root db) = fork_abs db"
    by (simp add: rollback_head_to_root_def fork_abs_def)
qed (rule fork_add_abs)

theorem fork_db_refines_tree_witness:
  "\<exists>db'. advance_root sample_fork_db (hs_id sample_a) = Inr db' \<and>
     fork_abs db' = tree_advance (fork_abs sample_fork_db) (hs_id sample_a)"
proof -
  have "is_ok (advance_root sample_fork_db (hs_id sample_a))" by code_simp
  then obtain db' where "advance_root sample_fork_db (hs_id sample_a) = Inr db'" by (auto simp: is_ok_iff)
  with fork_db_refines_tree [OF sample_fork_inv] show ?thesis by blast
qed

section \<open>Every operation keeps the invariant\<close>

lemma tree_inv_iff:
  "tree_inv r idx \<longleftrightarrow> distinct (map hs_id (r # idx)) \<and> (\<forall>b\<in>set idx. \<exists>p\<in>set (r # idx). is_parent p b)"
  by (auto simp: tree_inv_def list_all_iff list_ex_iff)

lemma head_inv_iff:
  "head_inv r h idx \<longleftrightarrow> (h = r \<or> h \<in> set idx \<and> validated h) \<and> (\<forall>b\<in>set idx. validated b \<longrightarrow> \<not> first_preferred b h)"
  by (auto simp: head_inv_def list_all_iff)

lemma fork_inv_Some:
  "fdb_root db = Some r \<Longrightarrow> fdb_head db = Some h \<Longrightarrow> fork_inv db \<longleftrightarrow> tree_inv r (fdb_index db) \<and> head_inv r h (fdb_index db)"
  by (simp add: fork_inv_def)

lemma fork_reset_inv: "fork_inv (fork_reset s)"
  by (simp add: fork_inv_def fork_reset_def Let_def tree_inv_def head_inv_def)

lemma fork_addE:
  assumes "fork_add db n ignore_duplicate = Inr db'" and "fdb_root db = Some r"
  obtains "db' = db" | c where "hs_id n \<notin> block_ids (fdb_index db)" "by_lib_begin (fdb_index db @ [n]) = Some c"
    "db' = db\<lparr>fdb_index := fdb_index db @ [n], fdb_head := (if validated c then Some c else fdb_head db)\<rparr>"
proof (cases "get_block db (hs_id n) = None")
  case True
  then have "hs_id n \<notin> block_ids (fdb_index db)" by (simp add: get_block_def find_block_None)
  moreover obtain c where c: "by_lib_begin (fdb_index db @ [n]) = Some c"
    using by_lib_begin_None [of "fdb_index db @ [n]"] by auto
  moreover have "db' = db\<lparr>fdb_index := fdb_index db @ [n], fdb_head := (if validated c then Some c else fdb_head db)\<rparr>"
    using assms True c
    by (cases db) (auto simp: fork_add_def fork_add_impl_def is_valid_def Let_def split: option.splits if_splits)
  ultimately show thesis by (rule that(2))
next
  case False
  with assms have "db' = db"
    by (auto simp: fork_add_def fork_add_impl_def split: option.splits if_splits)
  then show thesis by (rule that(1))
qed

lemma fork_add_inv:
  assumes inv: "fork_inv db" and root: "fdb_root db = Some r" and add: "fork_add db n ignore_duplicate = Inr db'"
    and p: "p \<in> set (r # fdb_index db)" "is_parent p n" and new: "hs_id n \<noteq> hs_id r"
  shows "fork_inv db'"
proof -
  obtain h where h: "fdb_head db = Some h" "tree_inv r (fdb_index db)" "head_inv r h (fdb_index db)"
    using inv root by (auto elim: fork_invE)
  from add root show ?thesis
  proof (cases rule: fork_addE)
    case 1 with inv show ?thesis by simp
  next
    case (2 c)
    note best = by_lib_begin_best [OF 2(2)]
    have "tree_inv r (fdb_index db @ [n])" using h(2) p new 2(1) by (auto simp: tree_inv_iff block_ids_def)
    moreover have "head_inv r (if validated c then c else h) (fdb_index db @ [n])"
      using best h(3) by (auto simp: head_inv_iff not_better_def)
    ultimately show ?thesis using root h(1) 2(3) by (auto simp: fork_inv_def)
  qed
qed

lemma fork_remove_inv:
  assumes inv: "fork_inv db" and rem: "fork_remove db i = Inr db'"
  shows "fork_inv db'"
proof -
  obtain r h where rh: "fdb_root db = Some r" "fdb_head db = Some h" "tree_inv r (fdb_index db)" "head_inv r h (fdb_index db)"
    using inv by (rule fork_invE)
  let ?E = "edges (fdb_index db)"
  let ?keep = "filter (\<lambda>b. (i, hs_id b) \<notin> ?E\<^sup>*) (fdb_index db)"
  have h: "(i, hs_id h) \<notin> ?E\<^sup>*" and db': "db' = db\<lparr>fdb_index := ?keep\<rparr>"
    using rem fork_remove_spec [OF tree_inv_forest [OF rh(3)] rh(2)] by (auto split: if_splits)
  have "\<exists>p\<in>set (r # ?keep). is_parent p b" if b: "b \<in> set ?keep" for b
  proof -
    obtain p where p: "p \<in> set (r # fdb_index db)" "is_parent p b" using rh(3) b by (auto simp: tree_inv_iff)
    have "(hs_id p, hs_id b) \<in> ?E" using b p(2) by (auto simp: edges_iff is_parent_def)
    then have "(i, hs_id p) \<notin> ?E\<^sup>*" using b by (auto intro: rtrancl_into_rtrancl)
    with p show ?thesis by auto
  qed
  then have "tree_inv r ?keep" using rh(3) by (auto simp: tree_inv_iff distinct_map_filter)
  moreover have "head_inv r h ?keep" using rh(4) h by (auto simp: head_inv_iff)
  ultimately show ?thesis using rh(1,2) by (simp add: db' fork_inv_def)
qed

lemma advance_root_inv:
  assumes inv: "fork_inv db" and adv: "advance_root db i = Inr db'"
  shows "fork_inv db'"
proof -
  obtain r h where rh: "fdb_root db = Some r" "fdb_head db = Some h" "tree_inv r (fdb_index db)" "head_inv r h (fdb_index db)"
    using inv by (rule fork_invE)
  let ?E = "edges (fdb_index db)"
  let ?keep = "filter (\<lambda>b. (i, hs_id b) \<in> ?E\<^sup>+) (fdb_index db)"
  from inv adv rh(1,2) obtain n where n: "n \<in> set (fdb_index db)" "hs_id n = i" "(i, hs_id h) \<in> ?E\<^sup>*"
    "db' = db\<lparr>fdb_index := ?keep, fdb_root := Some n\<rparr>"
    by (rule advance_rootE) (rule that)
  have tgt: "\<exists>b\<in>set (fdb_index db). hs_id b = y" if "(x, y) \<in> ?E\<^sup>+" for x y
    using that by (cases rule: tranclE) (auto simp: edges_iff)
  have "\<exists>p\<in>set (n # ?keep). is_parent p b" if b: "b \<in> set ?keep" for b
  proof -
    obtain p where p: "p \<in> set (r # fdb_index db)" "is_parent p b" using rh(3) b by (auto simp: tree_inv_iff)
    from b have "(i, hs_id b) \<in> ?E\<^sup>+" by simp
    then obtain w where w: "(i, w) \<in> ?E\<^sup>*" "(w, hs_id b) \<in> ?E" by (blast dest: tranclD2)
    have "w = hs_id p"
      using edges_parent_unique [OF tree_inv_forest [OF rh(3)] w(2)] b p(2) by (auto simp: edges_iff is_parent_def)
    with w(1) have "hs_id p = i \<or> (i, hs_id p) \<in> ?E\<^sup>+" by (auto simp: rtrancl_eq_or_trancl)
    then show ?thesis
    proof
      assume "hs_id p = i"
      then have "p = n" using tree_inv_unique [OF rh(3) p(1)] n by simp
      with p show ?thesis by simp
    next
      assume below: "(i, hs_id p) \<in> ?E\<^sup>+"
      then have "p \<noteq> r" using tgt tree_inv_root [OF rh(3)] by blast
      with p below show ?thesis by auto
    qed
  qed
  moreover have "hs_id n \<notin> hs_id ` set ?keep" using edges_acyclic [OF rh(3), of i] n(2) by auto
  ultimately have "tree_inv n ?keep" using tree_inv_distinct [OF rh(3)] by (simp add: tree_inv_iff distinct_map_filter)
  moreover have "head_inv n h ?keep"
  proof -
    from n(3) have "h = n \<or> h \<in> set ?keep \<and> validated h"
    proof (cases rule: rtranclE)
      case base
      then show ?thesis using tree_inv_unique [OF rh(3) head_inv_in [OF rh(4)]] n(1,2) by simp
    next
      case (step y)
      then have below: "(i, hs_id h) \<in> ?E\<^sup>+" by (auto intro: rtrancl_into_trancl1)
      then have "h \<noteq> r" using tgt tree_inv_root [OF rh(3)] by blast
      with rh(4) below show ?thesis by (auto simp: head_inv_iff)
    qed
    with rh(4) show ?thesis by (auto simp: head_inv_iff)
  qed
  ultimately show ?thesis using rh(2) by (simp add: n(4) fork_inv_def)
qed

lemma tree_inv_map:
  assumes "tree_inv r idx" and "\<And>b. hs_id (f b) = hs_id b \<and> prev (f b) = prev b \<and> block_num (f b) = block_num b"
  shows "tree_inv r (map f idx)"
proof -
  have par: "is_parent r b \<longleftrightarrow> is_parent r (f b)" "is_parent p b \<longleftrightarrow> is_parent (f p) (f b)" for p b
    using assms(2) by (simp_all add: is_parent_def)
  have "map hs_id (map f idx) = map hs_id idx" using assms(2) by simp
  moreover have "\<exists>p\<in>set (r # map f idx). is_parent p b" if "b \<in> set (map f idx)" for b
  proof -
    obtain b' where b': "b = f b'" "b' \<in> set idx" using \<open>b \<in> set (map f idx)\<close> by auto
    obtain p where "p \<in> set (r # idx)" "is_parent p b'" using assms(1) b'(2) by (rule tree_inv_parent)
    then show ?thesis using par b'(1) by auto
  qed
  ultimately show ?thesis using assms(1) unfolding tree_inv_iff by (simp only: list.map) blast
qed

lemma mark_valid_inv:
  assumes inv: "fork_inv db" and mv: "mark_valid db b = Inr db'"
  shows "fork_inv db'"
proof (cases "validated b")
  case True with inv mv show ?thesis by (simp add: mark_valid_def)
next
  case False
  obtain r h where rh: "fdb_root db = Some r" "fdb_head db = Some h" "tree_inv r (fdb_index db)" "head_inv r h (fdb_index db)"
    using inv by (rule fork_invE)
  let ?idx = "map (set_validated (hs_id b)) (fdb_index db)"
  from mv False obtain c h' where c: "fdb_head db = Some h'" "by_lib_begin ?idx = Some c" "get_block db (hs_id b) \<noteq> None"
    "db' = db\<lparr>fdb_index := ?idx, fdb_head := Some (if first_preferred c h' then c else h')\<rparr>"
    by (rule mark_validE) (rule that)
  have h': "h' = h" using c(1) rh(2) by simp
  note best = by_lib_begin_best [OF c(2)]
  obtain x where "x \<in> set (fdb_index db)" "hs_id x = hs_id b"
    using c(3) by (auto simp: get_block_def find_block_None block_ids_def)
  then have "set_validated (hs_id b) x \<in> set ?idx" "validated (set_validated (hs_id b) x)"
    by (auto simp: set_validated_def)
  then have cv: "validated c" using best by (auto simp: not_better_def)
  have same: "set_validated (hs_id b) h = h" if "validated h" using that by (cases h) (simp add: set_validated_def)
  have "h = r \<or> h \<in> set ?idx \<and> validated h"
    using rh(4) same by (metis head_inv_iff imageI list.set_map)
  moreover have "\<forall>x\<in>set ?idx. validated x \<longrightarrow> \<not> first_preferred x c"
    using best cv by (auto simp: not_better_def)
  ultimately have "head_inv r (if first_preferred c h then c else h) ?idx"
    unfolding head_inv_iff using best cv by (auto dest: first_preferred_trans)
  moreover have "tree_inv r ?idx" by (rule tree_inv_map [OF rh(3)]) (simp add: set_validated_def prev_def)
  ultimately show ?thesis using rh(1) by (auto simp: c(4) h' fork_inv_def split: if_splits)
qed

lemma rollback_inv:
  assumes "fork_inv db"
  shows "fork_inv (rollback_head_to_root db)"
proof -
  obtain r h where rh: "fdb_root db = Some r" "tree_inv r (fdb_index db)" using assms by (rule fork_invE)
  have "tree_inv r (map (\<lambda>b. b\<lparr>validated := False\<rparr>) (fdb_index db))"
    by (rule tree_inv_map [OF rh(2)]) (simp add: prev_def)
  with rh(1) show ?thesis by (auto simp: rollback_head_to_root_def fork_inv_def head_inv_iff)
qed

section \<open>Reachable databases\<close>

text \<open>Ids carry the block number, so a block above the root never has the id of the root.\<close>

definition ids_numbered :: "('k, 's) crypto \<Rightarrow> ('k, 's, 't, 'm) fork_db \<Rightarrow> bool" where
  "ids_numbered c db \<longleftrightarrow>
     list_all (\<lambda>b. num_from_id c (hs_id b) = block_num b) (fdb_index db) \<and>
     (case fdb_root db of None \<Rightarrow> False | Some r \<Rightarrow> num_from_id c (hs_id r) = block_num r)"

text \<open>
  A step of the database: a received block is added, a block is marked valid or removed with its
  descendants, the root advances, or the head rolls back.
\<close>

inductive fork_step :: "('k, 's) crypto \<Rightarrow> ('k, 's, 't, 'm, 'd) chain_ops \<Rightarrow> ('k, 's, 't, 'm) fork_db \<Rightarrow> ('k, 's, 't, 'm) fork_db \<Rightarrow> bool"
  for c ops where
  add: "create_block_state_future c ops db b = Inr n \<Longrightarrow> block_num n \<noteq> 0 \<Longrightarrow> fork_add db n ignore_duplicate = Inr db' \<Longrightarrow>
    fork_step c ops db db'"
| mark: "mark_valid db b = Inr db' \<Longrightarrow> fork_step c ops db db'"
| remove: "fork_remove db i = Inr db' \<Longrightarrow> fork_step c ops db db'"
| advance: "advance_root db i = Inr db' \<Longrightarrow> fork_step c ops db db'"
| rollback: "fork_step c ops db (rollback_head_to_root db)"

lemma block_state_next_fields:
  assumes "block_state_next c p b v skip = Inr n"
  shows "block_num n = block_num p + 1" "prev n = bh_previous b" "hs_id n = header_id c (signed_block_header.truncate b)"
proof -
  obtain s where s: "header_state_next c p (signed_block_header.truncate b) v skip = Inr s"
    "n = extend_header_state s (Some b) False []"
    using assms by (auto simp: block_state_next_def)
  obtain q where q: "header_next c p (bh_timestamp (signed_block_header.truncate b)) (bh_confirmed (signed_block_header.truncate b)) = Inr q"
    "finish_next c q (signed_block_header.truncate b) v skip = Inr s"
    using s(1) by (rule header_state_nextE)
  note fin = finish_next_commonE [OF finish_nextE(1) [OF q(2)]]
  have "block_num q = block_num p + 1" using q(1) by (rule header_nextE)
  then have "block_num s = block_num p + 1" using header_common_truncate_fields(1) [OF fin(1)] by simp
  then show "block_num n = block_num p + 1" "prev n = bh_previous b" "hs_id n = header_id c (signed_block_header.truncate b)"
    using fin(2,3)
    by (simp_all add: s(2) extend_header_state_def header_state.extend_def prev_def signed_block_header.truncate_def)
qed

lemma header_id_truncate: "header_id c (signed_block_header.truncate b) = header_id c b"
  by (simp add: header_id_def header_block_num_def block_header.truncate_def signed_block_header.truncate_def)

lemma add_step_inv:
  assumes inv: "fork_inv db" "ids_numbered c db" and rev: "\<And>x. endian_reverse_u32 c (endian_reverse_u32 c x) = x"
    and new: "create_block_state_future c ops db b = Inr n" and num: "block_num n \<noteq> 0"
    and add: "fork_add db n ignore_duplicate = Inr db'"
  shows "fork_inv db' \<and> ids_numbered c db'"
proof -
  obtain r h where rh: "fdb_root db = Some r" "tree_inv r (fdb_index db)" using inv(1) by (rule fork_invE)
  obtain p where p: "get_block_header db (bh_previous b) = Inr (Some p)"
    "block_state_next c (header_state.truncate p) b (check_protocol_features ops) False = Inr n"
    using new by (auto simp: create_block_state_future_def Let_def split: if_splits option.splits)
  note f = block_state_next_fields [OF p(2)]
  have pin: "p \<in> set (r # fdb_index db)" and pid: "hs_id p = bh_previous b"
    using p(1) rh tree_inv_distinct [OF rh(2)]
    by (auto simp: get_block_header_def find_block_Some split: if_splits)
  have pn: "block_num n = block_num p + 1" using f(1) by (simp add: header_state.truncate_def)
  have pnum: "num_from_id c (hs_id p) = block_num p" using inv(2) pin rh(1) by (auto simp: ids_numbered_def list_all_iff)
  have "unat (block_num n) = unat (block_num p) + 1"
    using num pn unat_minus_one [of "block_num n"] by (simp add: unat_gt_0)
  then have par: "is_parent p n" using f(2) pid by (simp add: is_parent_def)
  have nn: "num_from_id c (hs_id n) = block_num n"
    using num_from_header_id [of c b] rev pnum pid by (simp add: f(3) header_id_truncate pn header_block_num_def)
  have "unat (block_num r) < unat (block_num n)"
    using par pin block_num_above [OF rh(2), of p] by (auto simp: is_parent_def)
  then have "hs_id n \<noteq> hs_id r" using nn inv(2) rh(1) by (auto simp: ids_numbered_def)
  then have "fork_inv db'" by (rule fork_add_inv [OF inv(1) rh(1) add pin par])
  moreover from add rh(1) have "ids_numbered c db'"
    by (cases rule: fork_addE) (use inv(2) nn in \<open>auto simp: ids_numbered_def\<close>)
  ultimately show ?thesis by blast
qed

lemma fork_step_inv:
  assumes step: "fork_step c ops db db'" and inv: "fork_inv db" "ids_numbered c db"
    and rev: "\<And>x. endian_reverse_u32 c (endian_reverse_u32 c x) = x"
  shows "fork_inv db' \<and> ids_numbered c db'"
  using step
proof (cases rule: fork_step.cases)
  case (add b n ignore_duplicate)
  with add_step_inv [OF inv rev] show ?thesis by blast
next
  case (mark b)
  have "ids_numbered c db'"
  proof (cases "validated b")
    case True with mark inv show ?thesis by (simp add: mark_valid_def)
  next
    case False
    with mark show ?thesis
      by (rule mark_validE) (use inv(2) in \<open>auto simp: ids_numbered_def list_all_iff set_validated_def\<close>)
  qed
  with mark_valid_inv [OF inv(1) mark] show ?thesis by blast
next
  case (remove i)
  obtain r h where rh: "fdb_head db = Some h" "tree_inv r (fdb_index db)" using inv(1) by (rule fork_invE)
  have "ids_numbered c db'"
    using remove inv(2)
    by (auto simp: fork_remove_spec [OF tree_inv_forest [OF rh(2)] rh(1)] ids_numbered_def list_all_iff split: if_splits)
  with fork_remove_inv [OF inv(1) remove] show ?thesis by blast
next
  case (advance i)
  obtain r h where rh: "fdb_root db = Some r" "fdb_head db = Some h" using inv(1) by (rule fork_invE)
  from inv(1) advance rh have "ids_numbered c db'"
    by (rule advance_rootE) (use inv(2) in \<open>auto simp: ids_numbered_def list_all_iff split: option.splits\<close>)
  with advance_root_inv [OF inv(1) advance] show ?thesis by blast
next
  case rollback
  have "ids_numbered c (rollback_head_to_root db)"
    using inv(2) by (auto simp: ids_numbered_def rollback_head_to_root_def list_all_iff split: option.splits)
  with rollback_inv [OF inv(1)] rollback show ?thesis by simp
qed

text \<open>
  C7: every database reached from a root is well formed: its blocks form a tree below the root
  with consecutive numbers and distinct ids, and the head is the root or a validated block that no
  validated block is preferred to.
\<close>

theorem fork_db_wellformed:
  assumes "\<And>x. endian_reverse_u32 c (endian_reverse_u32 c x) = x" and "num_from_id c (hs_id s) = block_num s"
    and "(fork_step c ops)\<^sup>*\<^sup>* (fork_reset s) db"
  shows "fork_inv db"
proof -
  have "fork_inv db \<and> ids_numbered c db"
    using assms(3)
  proof (induction rule: rtranclp_induct)
    case base
    have "ids_numbered c (fork_reset s)"
      using assms(2) by (simp add: ids_numbered_def fork_reset_def extend_header_state_def header_state.extend_def Let_def)
    then show ?case using fork_reset_inv by blast
  next
    case (step db db')
    then show ?case using fork_step_inv assms(1) by blast
  qed
  then show ?thesis by simp
qed

definition sample_ops :: "(u32, u32, nat, nat, digest list) chain_ops" where
  "sample_ops = \<lparr>apply_block = (\<lambda>d b s. Inr (hs_id b # d)), db_undo = tl, db_commit = (\<lambda>d n. d),
     check_protocol_features = sample_validator\<rparr>"

definition identity_crypto :: "(u32, u32) crypto" where
  "identity_crypto = sample_crypto\<lparr>endian_reverse_u32 := (\<lambda>x. x)\<rparr>"

definition identity_state :: "(u32, u32) header_state" where
  "identity_state = sample_state\<lparr>hs_id := sample_digest 10 0\<rparr>"

definition identity_block :: "(u32, u32, nat) signed_block" where
  "identity_block = signed_block_header.extend (sample_header 24 1 0 101 (sample_digest 10 0)) (signed_block.fields [] [])"

theorem fork_db_wellformed_witness:
  "fork_inv (projr (fork_add (fork_reset identity_state)
     (projr (create_block_state_future identity_crypto sample_ops (fork_reset identity_state) identity_block)) False))"
proof (rule fork_db_wellformed [of identity_crypto identity_state sample_ops])
  show "endian_reverse_u32 identity_crypto (endian_reverse_u32 identity_crypto x) = x" for x
    by (simp add: identity_crypto_def sample_crypto_def)
  show "num_from_id identity_crypto (hs_id identity_state) = block_num identity_state" by code_simp
  have new: "is_ok (create_block_state_future identity_crypto sample_ops (fork_reset identity_state) identity_block)"
    by code_simp
  have "fork_step identity_crypto sample_ops (fork_reset identity_state)
     (projr (fork_add (fork_reset identity_state)
       (projr (create_block_state_future identity_crypto sample_ops (fork_reset identity_state) identity_block)) False))"
    by (rule fork_step.add [OF is_ok_projr [OF new] _ is_ok_projr]) code_simp+
  then show "(fork_step identity_crypto sample_ops)\<^sup>*\<^sup>* (fork_reset identity_state)
     (projr (fork_add (fork_reset identity_state)
       (projr (create_block_state_future identity_crypto sample_ops (fork_reset identity_state) identity_block)) False))"
    by (rule r_into_rtranclp)
qed

end
