(* ===== verification/Controller_Props.thy ===== *)
theory Controller_Props
  imports Fork_Props
begin

text \<open>
  Switching forks: a switch that succeeds ends at the new head, and one that fails because a block
  of the new branch does not apply ends at the old head with the old state.
\<close>

section \<open>Blocks up to their flags\<close>

text \<open>Marking blocks valid changes nothing but the flag; \<open>link\<close> is what the tree is made of.\<close>

definition link :: "('k, 's, 't, 'm) block_state \<Rightarrow> digest \<times> digest \<times> u32" where
  "link b = (hs_id b, prev b, block_num b)"

lemma link_eq: "link a = link b \<longleftrightarrow> hs_id a = hs_id b \<and> prev a = prev b \<and> block_num a = block_num b"
  by (simp add: link_def)

definition same_tree :: "('k, 's, 't, 'm) fork_db \<Rightarrow> ('k, 's, 't, 'm) fork_db \<Rightarrow> bool" where
  "same_tree db db' \<longleftrightarrow> fdb_root db' = fdb_root db \<and> map link (fdb_index db') = map link (fdb_index db)"

lemma edges_link: "edges idx = (\<lambda>(i, p, n). (p, i)) ` set (map link idx)"
  by (auto simp: edges_def link_def image_image)

lemma same_tree_edges: "same_tree db db' \<Longrightarrow> edges (fdb_index db') = edges (fdb_index db)"
  unfolding same_tree_def edges_link by (elim conjE) (simp only:)

lemma same_tree_member:
  assumes "same_tree db db'" and "b \<in> set (fdb_index db)"
  obtains b' where "b' \<in> set (fdb_index db')" "link b' = link b"
proof -
  have "link b \<in> set (map link (fdb_index db'))" using assms by (simp add: same_tree_def)
  with that show thesis by auto
qed

lemma same_tree_trans: "same_tree a b \<Longrightarrow> same_tree b c \<Longrightarrow> same_tree a c"
  by (simp add: same_tree_def)

lemma same_tree_refl: "same_tree a a"
  by (simp add: same_tree_def)

lemma mark_valid_same_tree:
  assumes "mark_valid db b = Inr db'"
  shows "same_tree db db'"
proof (cases "validated b")
  case True with assms show ?thesis by (simp add: mark_valid_def same_tree_refl)
next
  case False
  with assms show ?thesis
    by (rule mark_validE) (auto simp: same_tree_def link_def set_validated_def prev_def)
qed

text \<open>The head after marking a block is the old head or the block.\<close>

lemma marked_best:
  assumes "head_inv r h idx" and "by_lib_begin (map (set_validated i) idx) = Some c" and "i \<in> block_ids idx"
    and "first_preferred c h"
  shows "hs_id c = i"
proof (rule ccontr)
  assume "hs_id c \<noteq> i"
  note best = by_lib_begin_best [OF assms(2)]
  obtain x where x: "x \<in> set idx" "c = set_validated i x" using best by (auto simp del: by_lib_begin.simps)
  have cx: "c = x" using \<open>hs_id c \<noteq> i\<close> unfolding x(2) set_validated_def by (cases "hs_id x = i") simp_all
  obtain y where y: "y \<in> set idx" "hs_id y = i" using assms(3) by (auto simp: block_ids_def)
  have "not_better (set_validated i y) c" using best y(1) by simp
  then have "validated x" using y(2) unfolding cx by (simp add: not_better_def set_validated_def)
  then show False using assms(1,4) x(1) unfolding cx head_inv_iff by blast
qed

lemma mark_valid_head:
  assumes inv: "fork_inv db" and mv: "mark_valid db b = Inr db'" and h: "fdb_head db = Some h"
  shows "\<exists>h'. fdb_head db' = Some h' \<and> (hs_id h' = hs_id h \<or> hs_id h' = hs_id b)"
proof (cases "validated b")
  case True with mv h show ?thesis by (simp add: mark_valid_def)
next
  case False
  obtain r h1 where r: "fdb_head db = Some h1" "head_inv r h1 (fdb_index db)" using inv by (rule fork_invE)
  from mv False obtain c h' where c: "fdb_head db = Some h'"
    "by_lib_begin (map (set_validated (hs_id b)) (fdb_index db)) = Some c" "get_block db (hs_id b) \<noteq> None"
    "db' = db\<lparr>fdb_index := map (set_validated (hs_id b)) (fdb_index db), fdb_head := Some (if first_preferred c h' then c else h')\<rparr>"
    by (rule mark_validE) (rule that)
  have "hs_id b \<in> block_ids (fdb_index db)" using c(3) by (simp add: get_block_def find_block_None)
  from marked_best [OF r(2) c(2) this] show ?thesis using r(1) c(1) h by (simp add: c(4))
qed

lemma mark_valid_ok:
  assumes "fork_inv db" and "hs_id b \<in> block_ids (fdb_index db)"
  shows "\<exists>db'. mark_valid db b = Inr db'"
proof -
  obtain r h where h: "fdb_head db = Some h" using assms(1) by (rule fork_invE)
  have "fdb_index db \<noteq> []" using assms(2) by (auto simp: block_ids_def)
  then obtain c where "by_lib_begin (map (set_validated (hs_id b)) (fdb_index db)) = Some c"
    using by_lib_begin_None [of "map (set_validated (hs_id b)) (fdb_index db)"] by auto
  moreover have "get_block db (hs_id b) \<noteq> None" using assms(2) by (simp add: get_block_def find_block_None)
  ultimately show ?thesis using h by (simp add: mark_valid_def Let_def)
qed

section \<open>Popping blocks\<close>

definition known :: "('k, 's, 't, 'm) fork_db \<Rightarrow> ('k, 's, 't, 'm) block_state \<Rightarrow> bool" where
  "known db p \<longleftrightarrow> (\<exists>p'\<in>set (fdb_index db). link p' = link p) \<or> (\<exists>r. fdb_root db = Some r \<and> link r = link p)"

lemma pop_block_known:
  assumes "fdb_root (cs_fork_db st) = Some r" and "tree_inv r (fdb_index (cs_fork_db st))" and "known (cs_fork_db st) p"
    and "prev (cs_head st) = hs_id p"
  shows "\<exists>p'. link p' = link p \<and> pop_block ops st = (st\<lparr>cs_head := p', cs_db := db_undo ops (cs_db st)\<rparr>, Inr ())"
proof (cases "\<exists>p'\<in>set (fdb_index (cs_fork_db st)). link p' = link p")
  case True
  then obtain p' where p': "p' \<in> set (fdb_index (cs_fork_db st))" "link p' = link p" by blast
  then have "get_block (cs_fork_db st) (prev (cs_head st)) = Some p'"
    using assms(4) by (simp add: get_block_def find_block_Some tree_inv_distinct [OF assms(2)] link_eq)
  with p'(2) show ?thesis by (auto simp: pop_block_def)
next
  case False
  then have r: "link r = link p" using assms(1,3) by (auto simp: known_def)
  moreover have "hs_id r \<notin> block_ids (fdb_index (cs_fork_db st))" using assms(2) by (simp add: tree_inv_def block_ids_def)
  ultimately show ?thesis
    using assms(1,4) find_block_None [of "hs_id r" "fdb_index (cs_fork_db st)"]
    by (auto simp: pop_block_def get_block_def link_eq)
qed

lemma pop_blocks_branch:
  assumes "branch_to x bs a" and "\<forall>p\<in>set (tl (bs @ [a])). known (cs_fork_db st) p"
    and "fdb_root (cs_fork_db st) = Some r" and "tree_inv r (fdb_index (cs_fork_db st))" and "link (cs_head st) = link x"
  shows "\<exists>a'. link a' = link a \<and>
    pop_blocks ops (length bs) st = (st\<lparr>cs_head := a', cs_db := (db_undo ops ^^ length bs) (cs_db st)\<rparr>, Inr ())"
  using assms
proof (induction bs arbitrary: x st)
  case Nil
  then show ?case by auto
next
  case (Cons b bs)
  obtain p where p: "is_parent p x" "branch_to p bs a" using Cons.prems(1) by (auto simp: branch_to_Cons)
  have hd: "hd (bs @ [a]) = p" using p(2) by (simp add: branch_to_def)
  then have "known (cs_fork_db st) p" using Cons.prems(2) by (metis append_is_Nil_conv hd_in_set list.sel(3) append_Cons not_Cons_self2)
  moreover have "prev (cs_head st) = hs_id p" using Cons.prems(5) p(1) by (simp add: link_eq is_parent_def)
  ultimately obtain p' where p': "link p' = link p"
    "pop_block ops st = (st\<lparr>cs_head := p', cs_db := db_undo ops (cs_db st)\<rparr>, Inr ())"
    using pop_block_known [OF Cons.prems(3,4)] by blast
  have "\<forall>q\<in>set (tl (bs @ [a])). known (cs_fork_db st) q" using Cons.prems(2) by (cases bs) auto
  then obtain a' where "link a' = link a"
    "pop_blocks ops (length bs) (st\<lparr>cs_head := p', cs_db := db_undo ops (cs_db st)\<rparr>) =
       (st\<lparr>cs_head := a', cs_db := (db_undo ops ^^ length bs) (db_undo ops (cs_db st))\<rparr>, Inr ())"
    using Cons.IH [OF p(2), of "st\<lparr>cs_head := p', cs_db := db_undo ops (cs_db st)\<rparr>"] Cons.prems(3,4) p'(1) by auto
  with p'(2) show ?case by (auto simp: funpow_swap1)
qed

section \<open>Applying a branch\<close>

fun apply_all :: "('k, 's, 't, 'm, 'd) chain_ops \<Rightarrow> ('k, 's, 't, 'm) block_state list \<Rightarrow> 'd \<Rightarrow> 'd res" where
  "apply_all ops [] d = Inr d"
| "apply_all ops (b # bs) d = bind_res (apply_block ops d b block_validated) (apply_all ops bs)"

lemma reapply_blocks_all:
  assumes "apply_all ops bs (cs_db st) = Inr d"
  shows "reapply_blocks ops bs st = (st\<lparr>cs_db := d, cs_head := (if bs = [] then cs_head st else last bs)\<rparr>, Inr ())"
  using assms
proof (induction bs arbitrary: st)
  case (Cons b bs)
  then obtain d1 where "apply_block ops (cs_db st) b block_validated = Inr d1" "apply_all ops bs d1 = Inr d" by auto
  with Cons.IH [of "st\<lparr>cs_db := d1, cs_head := b\<rparr>"] show ?case by simp
qed simp

lemma undo_apply_all:
  assumes "\<forall>d b s d'. s \<noteq> irreversible \<longrightarrow> apply_block ops d b s = Inr d' \<longrightarrow> db_undo ops d' = d" and "apply_all ops bs d = Inr d'"
  shows "(db_undo ops ^^ length bs) d' = d"
  using assms(2)
proof (induction bs arbitrary: d)
  case (Cons b bs)
  then obtain d1 where "apply_block ops d b block_validated = Inr d1" "apply_all ops bs d1 = Inr d'" by auto
  with Cons.IH [of d1] assms(1) show ?case by auto
qed simp

lemma rtrancl_depth:
  assumes "tree_inv r idx" and "b \<in> set (r # idx)" and "c \<in> set (r # idx)" and "(hs_id b, hs_id c) \<in> (edges idx)\<^sup>*"
  shows "b = c \<or> depth r b < depth r c"
proof (cases "hs_id b = hs_id c")
  case True then show ?thesis using tree_inv_unique [OF assms(1-3)] by blast
next
  case False
  then have "(hs_id b, hs_id c) \<in> (edges idx)\<^sup>+" using assms(4) by (simp add: rtrancl_eq_or_trancl)
  from edges_trancl_depth [OF assms(1) this] obtain p q where
    "p \<in> set (r # idx)" "q \<in> set idx" "hs_id p = hs_id b" "hs_id q = hs_id c" "depth r p < depth r q" by blast
  then show ?thesis using tree_inv_unique [OF assms(1), of p b] tree_inv_unique [OF assms(1), of q c] assms(2,3) by auto
qed

lemma branch_to_snoc: "branch_to y (xs @ [b]) x \<longleftrightarrow> branch_to y xs b \<and> is_parent x b"
  by (induction xs arbitrary: y) (auto simp: branch_to_Cons)

lemma branch_depth:
  assumes "tree_inv r idx" and "branch_to x bs a" and "set bs \<subseteq> set idx" and "a \<in> set (r # idx)"
  shows "depth r a \<le> depth r x \<and> (\<forall>z\<in>set bs. depth r a < depth r z \<and> depth r z \<le> depth r x) \<and> (bs \<noteq> [] \<longrightarrow> x = hd bs)"
  using assms(2,3)
proof (induction bs arbitrary: x)
  case (Cons b bs)
  obtain p where p: "b = x" "is_parent p x" "branch_to p bs a" using Cons.prems(1) by (auto simp: branch_to_Cons)
  have "hd (bs @ [a]) = p" using p(3) by (simp add: branch_to_def)
  then have "p \<in> set (r # idx)" using Cons.prems(2) assms(4) by (cases bs) auto
  then have "depth r x = Suc (depth r p)" by (rule depth_parent [OF assms(1) _ p(2)])
  with Cons.IH [OF p(3)] Cons.prems(2) p(1) show ?case by auto
qed simp

text \<open>
  What a switch works with: the tree, the common ancestor, the blocks applied on top of it and the
  head; and with an undo that restores, the state at the ancestor.
\<close>

definition switch_base :: "('k, 's, 't, 'm) fork_db \<Rightarrow> digest \<Rightarrow> ('k, 's, 't, 'm) block_state \<Rightarrow>
    ('k, 's, 't, 'm) block_state list \<Rightarrow> ('k, 's, 't, 'm) block_state \<Rightarrow> ('k, 's, 't, 'm, 'd) chain_state \<Rightarrow> bool" where
  "switch_base db0 h0 a applied x st \<longleftrightarrow>
     same_tree db0 (cs_fork_db st) \<and> fork_inv (cs_fork_db st) \<and>
     (\<exists>h. fdb_head (cs_fork_db st) = Some h \<and> (hs_id h = h0 \<or> hs_id h \<in> hs_id ` set applied)) \<and>
     link (cs_head st) = link x \<and> branch_to x (rev applied) a \<and> set applied \<subseteq> set (fdb_index db0)"

definition switch_state :: "('k, 's, 't, 'm, 'd) chain_ops \<Rightarrow> ('k, 's, 't, 'm) fork_db \<Rightarrow> digest \<Rightarrow> ('k, 's, 't, 'm) block_state \<Rightarrow> 'd \<Rightarrow>
    ('k, 's, 't, 'm) block_state list \<Rightarrow> ('k, 's, 't, 'm) block_state \<Rightarrow> ('k, 's, 't, 'm, 'd) chain_state \<Rightarrow> bool" where
  "switch_state ops db0 h0 a d applied x st \<longleftrightarrow>
     switch_base db0 h0 a applied x st \<and> (db_undo ops ^^ length applied) (cs_db st) = d"

lemma same_tree_known:
  assumes "same_tree db0 db" and "fdb_root db0 = Some r" and "p \<in> set (r # fdb_index db0)"
  shows "known db p"
  using assms by (auto simp: known_def same_tree_def elim: same_tree_member [OF assms(1)])

lemma removed_known:
  assumes tree: "tree_inv r (fdb_index db0)" and root: "fdb_root db0 = Some r" and same: "same_tree db0 db"
    and b: "b \<in> set (fdb_index db0)" and p: "p \<in> set (r # fdb_index db0)" "depth r p < depth r b"
    and h: "fdb_head db = Some h" and rem: "fork_remove db (hs_id b) = Inr db'" and forest: "forest (fdb_index db)"
  shows "known db' p"
proof -
  have db': "db' = db\<lparr>fdb_index := filter (\<lambda>c. (hs_id b, hs_id c) \<notin> (edges (fdb_index db0))\<^sup>*) (fdb_index db)\<rparr>"
    using rem fork_remove_spec [OF forest h] by (auto simp: same_tree_edges [OF same] split: if_splits)
  have "(hs_id b, hs_id p) \<notin> (edges (fdb_index db0))\<^sup>*"
    using rtrancl_depth [OF tree _ p(1), of b] b p(2) by auto
  with same_tree_known [OF same root p(1)] show ?thesis by (auto simp: known_def db' link_eq)
qed

lemma revert_pops:
  assumes tree: "tree_inv r (fdb_index db0)" and root: "fdb_root db0 = Some r" and a: "a \<in> set (r # fdb_index db0)"
    and st: "switch_base db0 h0 a applied x st"
    and b: "b \<in> set (fdb_index db0)" "is_parent x b" "(hs_id b, h0) \<notin> (edges (fdb_index db0))\<^sup>*"
  obtains db' a' where "fork_remove (cs_fork_db st) (hs_id b) = Inr db'" and "link a' = link a"
    and "pop_blocks ops (length applied) (st\<lparr>cs_fork_db := db'\<rparr>) =
      (st\<lparr>cs_fork_db := db', cs_head := a', cs_db := (db_undo ops ^^ length applied) (cs_db st)\<rparr>, Inr ())"
proof -
  let ?db = "cs_fork_db st"
  obtain h where h: "fdb_head ?db = Some h" "hs_id h = h0 \<or> hs_id h \<in> hs_id ` set applied"
    using st by (auto simp: switch_base_def)
  have same: "same_tree db0 ?db" and inv: "fork_inv ?db" and hx: "link (cs_head st) = link x"
    and br: "branch_to x (rev applied) a" and sub: "set applied \<subseteq> set (fdb_index db0)" using st by (auto simp: switch_base_def)
  have root': "fdb_root ?db = Some r" using same root by (simp add: same_tree_def)
  have forest: "forest (fdb_index ?db)" using inv by (rule fork_invE) (rule tree_inv_forest)
  have dx: "depth r a \<le> depth r x" "\<forall>z\<in>set applied. depth r z \<le> depth r x"
    using branch_depth [OF tree br _ a] sub by auto
  have xin: "x \<in> set (r # fdb_index db0)" using br sub a by (cases "rev applied") (auto simp: branch_to_Cons)
  have db: "depth r b = Suc (depth r x)" by (rule depth_parent [OF tree xin b(2)])
  have "(hs_id b, hs_id h) \<notin> (edges (fdb_index ?db))\<^sup>*"
  proof (cases "hs_id h = h0")
    case True with b(3) same_tree_edges [OF same] show ?thesis by simp
  next
    case False
    then obtain z where z: "z \<in> set applied" "hs_id h = hs_id z" using h(2) by auto
    have "z \<noteq> b" "\<not> depth r b < depth r z" using dx(2) db z(1) by auto
    then show ?thesis using rtrancl_depth [OF tree _ _, of b z] b(1) z sub same_tree_edges [OF same] by auto
  qed
  then obtain db' where rem: "fork_remove ?db (hs_id b) = Inr db'" using fork_remove_spec [OF forest h(1)] by auto
  have "known db' p" if "p \<in> set (tl (rev applied @ [a]))" for p
  proof -
    have "p \<in> set applied \<or> p = a" using that by (cases "rev applied") auto
    then have "p \<in> set (r # fdb_index db0)" "depth r p < depth r b" using dx db sub a by auto
    then show ?thesis using removed_known [OF tree root same b(1) _ _ h(1) rem forest] by blast
  qed
  moreover have "fdb_root db' = Some r" "tree_inv r (fdb_index db')"
  proof -
    show "fdb_root db' = Some r" using rem root' fork_remove_spec [OF forest h(1)] by (auto split: if_splits)
    then show "tree_inv r (fdb_index db')" using fork_remove_inv [OF inv rem] by (auto elim!: fork_invE)
  qed
  ultimately obtain a' where a': "link a' = link a"
    "pop_blocks ops (length applied) (st\<lparr>cs_fork_db := db'\<rparr>) = (st\<lparr>cs_fork_db := db', cs_head := a',
       cs_db := (db_undo ops ^^ length applied) (cs_db st)\<rparr>, Inr ())"
    using pop_blocks_branch [OF br, of "st\<lparr>cs_fork_db := db'\<rparr>" r ops] hx by auto
  show thesis by (rule that [OF rem a'])
qed

lemma revert_restores:
  assumes tree: "tree_inv r (fdb_index db0)" and root: "fdb_root db0 = Some r" and a: "a \<in> set (r # fdb_index db0)"
    and st: "switch_state ops db0 h0 a d applied x st"
    and b: "b \<in> set (fdb_index db0)" "is_parent x b" "(hs_id b, h0) \<notin> (edges (fdb_index db0))\<^sup>*"
    and second: "second \<noteq> []" "hs_id (hd second) = h0" "prev (last second) = hs_id a"
      "apply_all ops (rev second) d = Inr D"
    and out: "revert_switch ops e (hs_id b) (length applied) second st = (st', res)"
  shows "hs_id (cs_head st') = h0 \<and> cs_db st' = D \<and> res = Inl e"
proof -
  have base: "switch_base db0 h0 a applied x st" and un: "(db_undo ops ^^ length applied) (cs_db st) = d"
    using st by (simp_all add: switch_state_def)
  obtain db' a' where rem: "fork_remove (cs_fork_db st) (hs_id b) = Inr db'" and a': "link a' = link a"
    "pop_blocks ops (length applied) (st\<lparr>cs_fork_db := db'\<rparr>) = (st\<lparr>cs_fork_db := db', cs_head := a', cs_db := d\<rparr>, Inr ())"
    using revert_pops [OF tree root a base b, of ops] un by metis
  have "revert_switch ops e (hs_id b) (length applied) second st =
      (st\<lparr>cs_fork_db := db', cs_head := hd second, cs_db := D\<rparr>, Inl e)"
    using rem a' second reapply_blocks_all [of ops "rev second" "st\<lparr>cs_fork_db := db', cs_head := a', cs_db := d\<rparr>" D]
    by (simp add: revert_switch_def remove_block_def link_eq last_rev)
  with out second(2) show ?thesis by auto
qed

lemma apply_and_mark_base:
  assumes st: "switch_base db0 h0 a applied x st" and b: "b \<in> set (fdb_index db0)" "is_parent x b"
    and ok: "apply_block ops (cs_db st) b s = Inr d1"
  obtains st' where "apply_and_mark ops b s st = (st', Inr ())" and "switch_base db0 h0 a (applied @ [b]) b st'"
    and "cs_db st' = d1"
proof -
  let ?db = "cs_fork_db st"
  obtain h where h: "fdb_head ?db = Some h" "hs_id h = h0 \<or> hs_id h \<in> hs_id ` set applied"
    using st by (auto simp: switch_base_def)
  have same: "same_tree db0 ?db" and inv: "fork_inv ?db" using st by (auto simp: switch_base_def)
  obtain b' where "b' \<in> set (fdb_index ?db)" "link b' = link b" using same b(1) by (rule same_tree_member)
  then have "hs_id b \<in> block_ids (fdb_index ?db)" by (auto simp: block_ids_def link_eq intro: rev_image_eqI)
  then obtain db' where db': "mark_valid ?db b = Inr db'" using mark_valid_ok [OF inv] by blast
  define st' where "st' = st\<lparr>cs_db := d1, cs_fork_db := db', cs_head := b\<lparr>validated := True\<rparr>\<rparr>"
  obtain h' where h': "fdb_head db' = Some h'" "hs_id h' = hs_id h \<or> hs_id h' = hs_id b"
    using mark_valid_head [OF inv db' h(1)] by blast
  have "same_tree db0 db'" using same mark_valid_same_tree [OF db'] by (rule same_tree_trans)
  moreover have "branch_to b (rev (applied @ [b])) a" using st b(2) by (auto simp: switch_base_def branch_to_Cons)
  ultimately have "switch_base db0 h0 a (applied @ [b]) b st'"
    using st h h' mark_valid_inv [OF inv db'] b(1) by (auto simp: switch_base_def st'_def link_def prev_def)
  then show thesis by (intro that [of st']) (use ok db' in \<open>auto simp: apply_and_mark_def st'_def\<close>)
qed

lemma apply_and_mark_step:
  assumes undo: "\<forall>d b s d'. s \<noteq> irreversible \<longrightarrow> apply_block ops d b s = Inr d' \<longrightarrow> db_undo ops d' = d"
    and st: "switch_state ops db0 h0 a d applied x st" and b: "b \<in> set (fdb_index db0)" "is_parent x b"
    and s: "s \<noteq> irreversible" and out: "apply_and_mark ops b s st = (st', res)"
  shows "(res = Inr () \<and> switch_state ops db0 h0 a d (applied @ [b]) b st') \<or> (\<exists>e. res = Inl e \<and> st' = st)"
proof (cases "apply_block ops (cs_db st) b s")
  case (Inl e) with out show ?thesis by (auto simp: apply_and_mark_def)
next
  case (Inr d1)
  have base: "switch_base db0 h0 a applied x st" and un: "(db_undo ops ^^ length applied) (cs_db st) = d"
    using st by (simp_all add: switch_state_def)
  obtain st1 where "apply_and_mark ops b s st = (st1, Inr ())" "switch_base db0 h0 a (applied @ [b]) b st1" "cs_db st1 = d1"
    using apply_and_mark_base [OF base b Inr] by blast
  moreover have "db_undo ops d1 = cs_db st" using undo s Inr by blast
  ultimately show ?thesis using un out by (auto simp: switch_state_def funpow_swap1)
qed

lemma apply_branch_outcome:
  assumes tree: "tree_inv r (fdb_index db0)" and root: "fdb_root db0 = Some r" and a: "a \<in> set (r # fdb_index db0)"
    and undo: "\<forall>d b s d'. s \<noteq> irreversible \<longrightarrow> apply_block ops d b s = Inr d' \<longrightarrow> db_undo ops d' = d"
    and second: "second \<noteq> []" "hs_id (hd second) = h0" "prev (last second) = hs_id a"
      "apply_all ops (rev second) d = Inr D"
    and bs: "set bs \<subseteq> set (fdb_index db0)" "\<forall>b\<in>set bs. (hs_id b, h0) \<notin> (edges (fdb_index db0))\<^sup>*"
    and st: "switch_state ops db0 h0 a d applied x st" and br: "branch_to y (rev bs) x"
    and out: "apply_branch ops bs (length applied) second st = (st', res)"
  shows "(res = Inr () \<and> hs_id (cs_head st') = hs_id y) \<or>
    (\<exists>e. res = Inl e \<and> hs_id (cs_head st') = h0 \<and> cs_db st' = D)"
  using bs st br out
proof (induction bs arbitrary: applied x st)
  case Nil
  then show ?case by (auto simp: switch_state_def switch_base_def link_eq)
next
  case (Cons b bs)
  have b: "b \<in> set (fdb_index db0)" "is_parent x b" "branch_to y (rev bs) b"
    using Cons.prems(1,4) by (auto simp: branch_to_snoc)
  obtain st1 r1 where r1: "apply_and_mark ops b (if is_valid b then block_validated else complete) st = (st1, r1)" by fastforce
  have "(if is_valid b then block_validated else complete) \<noteq> irreversible" by simp
  from apply_and_mark_step [OF undo Cons.prems(3) b(1,2) this r1] show ?case
  proof (elim disjE exE conjE)
    assume ok: "r1 = Inr ()" "switch_state ops db0 h0 a d (applied @ [b]) b st1"
    have "apply_branch ops bs (length (applied @ [b])) second st1 = (st', res)" using Cons.prems(5) r1 ok(1) by simp
    from Cons.IH [OF _ _ ok(2) b(3) this] Cons.prems(1,2) show ?thesis by simp
  next
    fix e
    assume "r1 = Inl e" "st1 = st"
    then have "revert_switch ops e (hs_id b) (length applied) second st = (st', res)" using Cons.prems(5) r1 by simp
    from revert_restores [OF tree root a Cons.prems(3) b(1,2) _ second this] Cons.prems(2) show ?thesis by simp
  qed
qed

lemma below_branch:
  assumes "tree_inv r idx" and "branch_to x bs a" and "set bs \<subseteq> set idx" and "(i, hs_id x) \<in> (edges idx)\<^sup>*"
  shows "i \<in> hs_id ` set bs \<or> (i, hs_id a) \<in> (edges idx)\<^sup>*"
  using assms(2-4)
proof (induction bs arbitrary: x)
  case (Cons b bs)
  obtain p where p: "b = x" "is_parent p x" "branch_to p bs a" using Cons.prems(1) by (auto simp: branch_to_Cons)
  from Cons.prems(3) show ?case
  proof (cases rule: rtranclE)
    case base with p(1) show ?thesis by simp
  next
    case (step y)
    have "(hs_id p, hs_id x) \<in> edges idx" using p Cons.prems(2) by (auto simp: edges_iff is_parent_def)
    then have "y = hs_id p" using edges_parent_unique [OF tree_inv_forest [OF assms(1)] step(2)] by blast
    with Cons.IH [OF p(3)] step(1) Cons.prems(2) show ?thesis by auto
  qed
qed simp

lemma branches_apart:
  assumes "tree_inv r idx" and "branch_to x xs a" and "set xs \<subseteq> set idx" and "a \<in> set (r # idx)"
    and "u \<in> set idx" and "u \<notin> set xs" and "depth r a < depth r u"
  shows "(hs_id u, hs_id x) \<notin> (edges idx)\<^sup>*"
proof
  assume "(hs_id u, hs_id x) \<in> (edges idx)\<^sup>*"
  from below_branch [OF assms(1-3) this] show False
  proof
    assume "hs_id u \<in> hs_id ` set xs"
    then obtain v where "v \<in> set xs" "hs_id v = hs_id u" by force
    then show False using tree_inv_unique [OF assms(1), of v u] assms(3,5,6) by auto
  next
    assume "(hs_id u, hs_id a) \<in> (edges idx)\<^sup>*"
    then show False using rtrancl_depth [OF assms(1) _ assms(4), of u] assms(5,7) by auto
  qed
qed

text \<open>
  C4: switching to another branch either ends at the new head, or, when a block of the new branch
  does not apply, ends at the old head with the state database as it was.  Undoing restores the
  state before the last applied block, and the blocks of the old branch apply again.
\<close>

theorem switch_forks_all_or_nothing:
  assumes undo: "\<forall>d b s d'. s \<noteq> irreversible \<longrightarrow> apply_block ops d b s = Inr d' \<longrightarrow> db_undo ops d' = d"
    and inv: "fork_inv (cs_fork_db st)" and head: "fdb_head (cs_fork_db st) = Some (cs_head st)"
    and new: "new_head \<in> set (fdb_index (cs_fork_db st))"
    and fetch: "fetch_branch_from (cs_fork_db st) (hs_id new_head) (hs_id (cs_head st)) = Inr (first, second)"
    and second: "second \<noteq> []" "apply_all ops (rev second) d = Inr (cs_db st)"
    and out: "switch_forks ops new_head s st = (st', res)"
  shows "(res = Inr () \<and> hs_id (cs_head st') = hs_id new_head) \<or>
    (\<exists>e. res = Inl e \<and> hs_id (cs_head st') = hs_id (cs_head st) \<and> cs_db st' = cs_db st)"
proof -
  let ?db = "cs_fork_db st" and ?h = "cs_head st"
  obtain r h where r: "fdb_root ?db = Some r" "fdb_head ?db = Some h" "tree_inv r (fdb_index ?db)"
    "head_inv r h (fdb_index ?db)" using inv by (rule fork_invE)
  have hin: "?h \<in> set (r # fdb_index ?db)" using head r(2) head_inv_in [OF r(4)] by simp
  obtain a where a: "a \<in> set (r # fdb_index ?db)" "branch_to new_head first a" "branch_to ?h second a"
    "set first \<union> set second \<subseteq> set (fdb_index ?db)" "set first \<inter> set second = {}"
    using fetch_branch_from_ok [OF r(1,3) _ hin, of new_head] new fetch by auto
  obtain s1 p where "second = ?h # s1" "is_parent p ?h" using a(3) second(1) by (cases second) (auto simp: branch_to_Cons)
  then have hd: "hs_id (hd second) = hs_id ?h" by simp
  have last: "prev (last second) = hs_id a"
    using a(3) second(1) by (cases second rule: rev_cases) (auto simp: branch_to_snoc is_parent_def)
  have apart: "(hs_id b, hs_id x) \<notin> (edges (fdb_index ?db))\<^sup>*"
    if "branch_to x xs a" "set xs \<subseteq> set (fdb_index ?db)" "b \<in> set bs" "branch_to y bs a" "set bs \<subseteq> set (fdb_index ?db)"
      "set xs \<inter> set bs = {}" for b bs x xs y
    using branches_apart [OF r(3) that(1,2) a(1), of b] branch_depth [OF r(3) that(4,5) a(1)] that(3,5,6) by auto
  have "(hs_id ?h, hs_id new_head) \<notin> (edges (fdb_index ?db))\<^sup>*"
    using apart [OF a(2) _ _ a(3), of ?h] a(4,5) \<open>second = ?h # s1\<close> by auto
  moreover have "(prev new_head, hs_id new_head) \<in> edges (fdb_index ?db)" using new by (auto simp: edges_iff)
  ultimately have ne: "prev new_head \<noteq> hs_id ?h" "hs_id new_head \<noteq> hs_id ?h" by auto
  have tl: "\<forall>p\<in>set (tl (second @ [a])). known ?db p"
  proof
    fix p
    assume "p \<in> set (tl (second @ [a]))"
    then have "p \<in> set second \<or> p = a" by (cases second) auto
    then show "known ?db p" using a(1,4) same_tree_known [OF same_tree_refl r(1)] by auto
  qed
  have d: "(db_undo ops ^^ length second) (cs_db st) = d" using undo_apply_all [OF undo second(2)] by simp
  obtain a' where a': "link a' = link a"
    "pop_blocks ops (length second) st = (st\<lparr>cs_head := a', cs_db := d\<rparr>, Inr ())"
    using pop_blocks_branch [OF a(3) tl r(1,3), of ops] d by auto
  define st1 where "st1 = st\<lparr>cs_head := a', cs_db := d\<rparr>"
  have run: "apply_branch ops (rev first) 0 second st1 = (st', res)"
    using out ne fetch second(1) a' last by (simp add: switch_forks_def st1_def link_eq)
  have start: "switch_state ops ?db (hs_id ?h) a d [] a st1"
    using inv head a'(1) by (simp add: switch_state_def switch_base_def st1_def same_tree_refl)
  have "\<forall>b\<in>set (rev first). (hs_id b, hs_id ?h) \<notin> (edges (fdb_index ?db))\<^sup>*"
    using apart [OF a(3) _ _ a(2)] a(4,5) by auto
  then show ?thesis
    using apply_branch_outcome [OF r(3,1) a(1) undo second(1) hd last second(2) _ _ start, of "rev first" new_head st' res]
      a(2,4) run by simp
qed

definition failing_ops :: "(u32, u32, nat, nat, digest list) chain_ops" where
  "failing_ops = sample_ops\<lparr>apply_block := (\<lambda>d b s. if validated b then Inr (hs_id b # d) else Inl block_validate_exception)\<rparr>"

definition sample_chain :: "(u32, u32, nat, nat, digest list) chain_state" where
  "sample_chain = \<lparr>cs_fork_db = sample_fork_db, cs_head = sample_c, cs_db = [hs_id sample_c, hs_id sample_a], cs_log = []\<rparr>"

theorem switch_forks_all_or_nothing_witness:
  "\<exists>st' res. switch_forks failing_ops sample_b complete sample_chain = (st', res) \<and>
    ((res = Inr () \<and> hs_id (cs_head st') = hs_id sample_b) \<or>
     (\<exists>e. res = Inl e \<and> hs_id (cs_head st') = hs_id (cs_head sample_chain) \<and> cs_db st' = cs_db sample_chain))"
proof -
  obtain st' res where out: "switch_forks failing_ops sample_b complete sample_chain = (st', res)" by fastforce
  have "(res = Inr () \<and> hs_id (cs_head st') = hs_id sample_b) \<or>
     (\<exists>e. res = Inl e \<and> hs_id (cs_head st') = hs_id (cs_head sample_chain) \<and> cs_db st' = cs_db sample_chain)"
  proof (rule switch_forks_all_or_nothing [OF _ _ _ _ _ _ _ out])
    show "\<forall>d b s d'. s \<noteq> irreversible \<longrightarrow> apply_block failing_ops d b s = Inr d' \<longrightarrow> db_undo failing_ops d' = d"
      by (auto simp: failing_ops_def sample_ops_def)
    show "fork_inv (cs_fork_db sample_chain)" "fdb_head (cs_fork_db sample_chain) = Some (cs_head sample_chain)"
      "sample_b \<in> set (fdb_index (cs_fork_db sample_chain))"
      using sample_fork_inv by (simp_all add: sample_chain_def sample_fork_db_def)
    show "fetch_branch_from (cs_fork_db sample_chain) (hs_id sample_b) (hs_id (cs_head sample_chain)) =
        Inr ([sample_b], [sample_c, sample_a])"
      by code_simp
    show "[sample_c, sample_a] \<noteq> []" by simp
    show "apply_all failing_ops (rev [sample_c, sample_a]) [] = Inr (cs_db sample_chain)" by code_simp
  qed
  with out show ?thesis by blast
qed

text \<open>Whether the blocks of a branch apply, each with the status that the switch gives it.\<close>

fun branch_applies :: "('k, 's, 't, 'm, 'd) chain_ops \<Rightarrow> ('k, 's, 't, 'm) block_state list \<Rightarrow> 'd \<Rightarrow> bool" where
  "branch_applies ops [] d = True"
| "branch_applies ops (b # bs) d =
     (case apply_block ops d b (if is_valid b then block_validated else complete) of
        Inl e \<Rightarrow> False
      | Inr d' \<Rightarrow> branch_applies ops bs d')"

lemma apply_branch_on_head:
  assumes tree: "tree_inv r (fdb_index db0)" and root: "fdb_root db0 = Some r" and a: "a \<in> set (r # fdb_index db0)"
    and bs: "set bs \<subseteq> set (fdb_index db0)" "\<forall>b\<in>set bs. (hs_id b, h0) \<notin> (edges (fdb_index db0))\<^sup>*"
    and st: "switch_base db0 h0 a applied x st" and br: "branch_to y (rev bs) x"
    and out: "apply_branch ops bs (length applied) [] st = (st', res)"
  shows "if branch_applies ops bs (cs_db st) then res = Inr () \<and> hs_id (cs_head st') = hs_id y else res = Inl undefined_behaviour"
  using bs st br out
proof (induction bs arbitrary: applied x st)
  case Nil
  then show ?case by (auto simp: switch_base_def link_eq)
next
  case (Cons b bs)
  have b: "b \<in> set (fdb_index db0)" "is_parent x b" "branch_to y (rev bs) b"
    using Cons.prems(1,4) by (auto simp: branch_to_snoc)
  show ?case
  proof (cases "apply_block ops (cs_db st) b (if is_valid b then block_validated else complete)")
    case (Inl e)
    have "(hs_id b, h0) \<notin> (edges (fdb_index db0))\<^sup>*" using Cons.prems(2) by simp
    from revert_pops [OF tree root a Cons.prems(3) b(1,2) this, of ops] obtain db' a' where
      "fork_remove (cs_fork_db st) (hs_id b) = Inr db'"
      "pop_blocks ops (length applied) (st\<lparr>cs_fork_db := db'\<rparr>) =
        (st\<lparr>cs_fork_db := db', cs_head := a', cs_db := (db_undo ops ^^ length applied) (cs_db st)\<rparr>, Inr ())" by blast
    with Inl Cons.prems(5) show ?thesis by (simp add: apply_and_mark_def revert_switch_def remove_block_def)
  next
    case (Inr d1)
    obtain st1 where st1: "apply_and_mark ops b (if is_valid b then block_validated else complete) st = (st1, Inr ())"
      "switch_base db0 h0 a (applied @ [b]) b st1" "cs_db st1 = d1"
      using apply_and_mark_base [OF Cons.prems(3) b(1,2) Inr] by blast
    have "apply_branch ops bs (length (applied @ [b])) [] st1 = (st', res)" using Cons.prems(5) st1(1) by simp
    from Cons.IH [OF _ _ st1(2) b(3) this] Cons.prems(1,2) Inr st1(3) show ?thesis by simp
  qed
qed

text \<open>
  C39: let the head be an ancestor of the new head, but neither its parent nor the new head itself, so
  that the old branch is empty.  When every block of the new branch applies, the switch ends at the new
  head; when some block of it does not apply, the code takes the last element of an empty vector.
\<close>

theorem revert_of_empty_branch_undefined:
  assumes inv: "fork_inv (cs_fork_db st)" and head: "fdb_head (cs_fork_db st) = Some (cs_head st)"
    and new: "new_head \<in> set (fdb_index (cs_fork_db st))"
    and fetch: "fetch_branch_from (cs_fork_db st) (hs_id new_head) (hs_id (cs_head st)) = Inr (first, [])"
    and ne: "prev new_head \<noteq> hs_id (cs_head st)" "hs_id new_head \<noteq> hs_id (cs_head st)"
    and out: "switch_forks ops new_head s st = (st', res)"
  shows "if branch_applies ops (rev first) (cs_db st) then res = Inr () \<and> hs_id (cs_head st') = hs_id new_head
    else res = Inl undefined_behaviour"
proof -
  let ?db = "cs_fork_db st" and ?h = "cs_head st"
  obtain r h where r: "fdb_root ?db = Some r" "fdb_head ?db = Some h" "tree_inv r (fdb_index ?db)"
    "head_inv r h (fdb_index ?db)" using inv by (rule fork_invE)
  have hin: "?h \<in> set (r # fdb_index ?db)" using head r(2) head_inv_in [OF r(4)] by simp
  obtain a where a: "branch_to new_head first a" "branch_to ?h [] a" "set first \<subseteq> set (fdb_index ?db)"
    using fetch_branch_from_ok [OF r(1,3) _ hin, of new_head] new fetch by auto
  then have h: "branch_to new_head first ?h" by simp
  have below: "\<forall>b\<in>set (rev first). (hs_id b, hs_id ?h) \<notin> (edges (fdb_index ?db))\<^sup>*"
    using branch_depth [OF r(3) h a(3) hin] rtrancl_depth [OF r(3) _ hin] a(3) by fastforce
  have base: "switch_base ?db (hs_id ?h) ?h [] ?h st" using inv head by (simp add: switch_base_def same_tree_refl)
  have "apply_branch ops (rev first) (length []) [] st = (st', res)" using out ne fetch by (simp add: switch_forks_def)
  from apply_branch_on_head [OF r(3,1) hin _ below base _ this, of new_head] h a(3) show ?thesis by simp
qed

definition sample_behind :: "(u32, u32, nat, nat, digest list) chain_state" where
  "sample_behind = \<lparr>cs_fork_db = \<lparr>fdb_index = [sample_a\<lparr>validated := False\<rparr>, sample_c\<lparr>validated := False\<rparr>],
       fdb_root = Some sample_root, fdb_head = Some sample_root\<rparr>,
     cs_head = sample_root, cs_db = [], cs_log = []\<rparr>"

theorem revert_of_empty_branch_undefined_witness:
  "snd (switch_forks failing_ops (sample_c\<lparr>validated := False\<rparr>) complete sample_behind) = Inl undefined_behaviour"
proof -
  let ?c = "sample_c\<lparr>validated := False\<rparr>" and ?a = "sample_a\<lparr>validated := False\<rparr>"
  obtain st' res where out: "switch_forks failing_ops ?c complete sample_behind = (st', res)" by fastforce
  have "fork_inv (cs_fork_db sample_behind)" by code_simp
  moreover have "fdb_head (cs_fork_db sample_behind) = Some (cs_head sample_behind)" "?c \<in> set (fdb_index (cs_fork_db sample_behind))"
    by (simp_all add: sample_behind_def)
  moreover have "fetch_branch_from (cs_fork_db sample_behind) (hs_id ?c) (hs_id (cs_head sample_behind)) = Inr ([?c, ?a], [])"
    by code_simp
  moreover have "prev ?c \<noteq> hs_id (cs_head sample_behind)" "hs_id ?c \<noteq> hs_id (cs_head sample_behind)" by code_simp+
  moreover have "\<not> branch_applies failing_ops (rev [?c, ?a]) (cs_db sample_behind)" by code_simp
  ultimately have "res = Inl undefined_behaviour"
    using revert_of_empty_branch_undefined [of sample_behind ?c "[?c, ?a]" failing_ops complete st' res] out by simp
  with out show ?thesis by simp
qed

section \<open>Irreversible blocks\<close>

lemma log_blocks_reversible:
  assumes "\<forall>b\<in>set bs. block b \<noteq> None"
  shows "log_blocks ops False bs i st =
    (st\<lparr>cs_log := cs_log st @ map (the \<circ> block) bs, cs_db := fold (\<lambda>b d. db_commit ops d (block_num b)) bs (cs_db st)\<rparr>,
     (if bs = [] then i else hs_id (last bs)), Inr ())"
  using assms by (induction bs arbitrary: i st) auto

lemma branch_below:
  assumes "branch_to x bs a" and "set bs \<subseteq> set idx" and "b \<in> set bs"
  shows "(hs_id b, hs_id x) \<in> (edges idx)\<^sup>*"
  using assms
proof (induction bs arbitrary: x)
  case (Cons c bs)
  obtain p where p: "c = x" "is_parent p x" "branch_to p bs a" using Cons.prems(1) by (auto simp: branch_to_Cons)
  have "(hs_id p, hs_id x) \<in> edges idx" using p Cons.prems(2) by (auto simp: edges_iff is_parent_def)
  with Cons.IH [OF p(3)] Cons.prems(2,3) p(1) show ?case by (auto intro: rtrancl_into_rtrancl)
qed simp

lemma branch_validated:
  assumes "branch_to x bs a" and "set bs \<subseteq> set idx" and "validated x"
    and "\<forall>b\<in>set idx. \<forall>p\<in>set idx. validated b \<and> is_parent p b \<longrightarrow> validated p"
  shows "\<forall>b\<in>set bs. validated b"
  using assms(1-3)
proof (induction bs arbitrary: x)
  case (Cons c bs)
  obtain p where p: "c = x" "is_parent p x" "branch_to p bs a" using Cons.prems(1) by (auto simp: branch_to_Cons)
  have "bs \<noteq> [] \<longrightarrow> p \<in> set bs" using p(3) by (cases bs) (auto simp: branch_to_Cons)
  then have "bs \<noteq> [] \<longrightarrow> validated p" using assms(4) Cons.prems p by auto
  then show ?case using Cons.IH [OF p(3)] Cons.prems p(1) by (cases bs) auto
qed simp

text \<open>
  C26: the blocks of the head branch up to its last irreversible block are appended to the block
  log, oldest first, and the last of them becomes the root of the fork database.
\<close>

theorem log_irreversible_appends:
  assumes inv: "fork_inv (cs_fork_db st)" and root: "fdb_root (cs_fork_db st) = Some r"
    and head: "fdb_head (cs_fork_db st) = Some h" "h \<in> set (fdb_index (cs_fork_db st))"
    and blocks: "\<forall>b\<in>set (fdb_index (cs_fork_db st)). block b \<noteq> None"
    and closed: "\<forall>b\<in>set (fdb_index (cs_fork_db st)). \<forall>p\<in>set (fdb_index (cs_fork_db st)).
      validated b \<and> is_parent p b \<longrightarrow> validated p"
    and log: "cs_log st \<noteq> []" "hs_id r = header_id c (last (cs_log st))"
      "header_block_num c (last (cs_log st)) < dpos_irreversible_blocknum h"
  shows "\<exists>bs irr st'. branch_to h bs r \<and> irr = filter (\<lambda>b. block_num b \<le> dpos_irreversible_blocknum h) bs \<and>
    log_irreversible c ops False first_block_num st = (st', Inr ()) \<and>
    cs_log st' = cs_log st @ map (the \<circ> block) (rev irr) \<and> fdb_root (cs_fork_db st') = Some (hd (irr @ [r]))"
proof -
  let ?db = "cs_fork_db st"
  have tree: "tree_inv r (fdb_index ?db)" and hinv: "head_inv r h (fdb_index ?db)"
    using inv root head(1) by (auto simp: fork_inv_Some)
  have "h \<noteq> r" using tree_inv_root [OF tree head(2)] by auto
  then have vh: "validated h" using hinv by (auto simp: head_inv_iff)
  have get: "get_block ?db (hs_id h) = Some h"
    using head(2) by (simp add: get_block_def find_block_Some tree_inv_distinct [OF tree])
  have "depth r h \<le> fork_fuel ?db" using depth_le_length [OF tree] head(2) by (simp add: fork_fuel_def)
  from ancestors_ok [OF tree head(2) this, of 0] obtain bs where bs: "ancestors (fork_fuel ?db) ?db (Some h) = Inr bs"
    "branch_to h bs r" "set bs \<subseteq> set (fdb_index ?db)" by blast
  define irr where "irr = filter (\<lambda>b. block_num b \<le> dpos_irreversible_blocknum h) bs"
  have sub: "set irr \<subseteq> set bs" by (auto simp: irr_def)
  have fetch: "fetch_branch ?db (hs_id h) (dpos_irreversible_blocknum h) = Inr irr"
    using bs(1) get by (simp add: fetch_branch_def irr_def)
  define st1 where "st1 = st\<lparr>cs_log := cs_log st @ map (the \<circ> block) (rev irr),
    cs_db := fold (\<lambda>b d. db_commit ops d (block_num b)) (rev irr) (cs_db st)\<rparr>"
  have logged: "log_blocks ops False (rev irr) (hs_id r) st = (st1, hs_id (hd (irr @ [r])), Inr ())"
    using log_blocks_reversible [of "rev irr" ops "hs_id r" st] blocks sub bs(3) by (cases irr) (auto simp: st1_def)
  have run: "log_irreversible c ops False first_block_num st = advance_to (hs_id (hd (irr @ [r]))) st1"
    using root head(1) log(1,2) log(3) [unfolded not_le [symmetric]] fetch logged by (simp add: log_irreversible_def Let_def)
  have "\<exists>st'. advance_to (hs_id (hd (irr @ [r]))) st1 = (st', Inr ()) \<and> cs_log st' = cs_log st1 \<and>
      fdb_root (cs_fork_db st') = Some (hd (irr @ [r]))"
  proof (cases irr)
    case Nil
    then show ?thesis using root by (simp add: advance_to_def st1_def)
  next
    case (Cons n rest)
    then have n: "n \<in> set bs" "n \<in> set (fdb_index ?db)" using sub bs(3) by auto
    have "validated n" using branch_validated [OF bs(2,3) vh closed] n(1) by blast
    moreover have "(hs_id n, hs_id h) \<in> (edges (fdb_index ?db))\<^sup>*" by (rule branch_below [OF bs(2,3) n(1)])
    ultimately obtain db' where "advance_root_outcome ?db (hs_id n) = (db', Inr ())" "fdb_root db' = Some n"
      using advance_root_spec [OF root tree head(1) _ n(2)] head(2) by (auto simp: advance_root_def returned_Inr_iff)
    moreover have "hs_id r \<noteq> hs_id n" using tree_inv_root [OF tree n(2)] by simp
    ultimately show ?thesis using root Cons by (simp add: advance_to_def st1_def)
  qed
  then show ?thesis using bs(2) run irr_def by (auto simp: st1_def)
qed

definition logged_root :: sample_block where
  "logged_root = sample_root\<lparr>hs_id := header_id identity_crypto identity_block, block_num := 11\<rparr>"

definition logged_head :: sample_block where
  "logged_head = (sample_block (sample_digest 77 0) (hs_id logged_root) 12 True)
     \<lparr>block := Some identity_block, dpos_irreversible_blocknum := 12\<rparr>"

definition logged_chain :: "(u32, u32, nat, nat, digest list) chain_state" where
  "logged_chain = \<lparr>cs_fork_db = \<lparr>fdb_index = [logged_head], fdb_root = Some logged_root, fdb_head = Some logged_head\<rparr>,
     cs_head = logged_head, cs_db = [], cs_log = [identity_block]\<rparr>"

theorem log_irreversible_appends_witness:
  "\<exists>bs irr st'. branch_to logged_head bs logged_root \<and>
    irr = filter (\<lambda>b. block_num b \<le> dpos_irreversible_blocknum logged_head) bs \<and>
    log_irreversible identity_crypto sample_ops False 1 logged_chain = (st', Inr ()) \<and>
    cs_log st' = cs_log logged_chain @ map (the \<circ> block) (rev irr) \<and>
    fdb_root (cs_fork_db st') = Some (hd (irr @ [logged_root]))"
proof (rule log_irreversible_appends)
  show "fork_inv (cs_fork_db logged_chain)" by code_simp
  show "header_block_num identity_crypto (last (cs_log logged_chain)) < dpos_irreversible_blocknum logged_head" by code_simp
  show "hs_id logged_root = header_id identity_crypto (last (cs_log logged_chain))"
    by (simp add: logged_root_def logged_chain_def)
qed (simp_all add: logged_chain_def logged_head_def is_parent_def)

end
