(* ===== verification/Contract_Tables.thy ===== *)
theory Contract_Tables
  imports Apply_Context "HOL-Library.Product_Lexorder"
begin

text \<open>
  The tables of the contracts, as an action sees them (\<^verbatim>\<open>libraries/chain/apply_context.cpp\<close>,
  \<^verbatim>\<open>include/eosio/chain/apply_context.hpp\<close>, \<^verbatim>\<open>contract_table_objects.hpp\<close>): the rows, the cache
  that turns rows into the integer iterators a contract holds, the calls \<open>db_*_i64\<close> on the primary
  table and those of \<open>generic_index\<close> on a secondary one.

  A pointer to a row is the identifier chainbase gave the row.  A read through a pointer whose row
  is gone is \<open>undefined_behaviour\<close>.  Iterators are C++ \<open>int\<close>s; a cache holds less than $2^{31}$
  entries (the precondition the source states), so no wrap-around is written for them.  The key of the
  secondary index is any linearly ordered type: \<open>u64\<close>, \<open>u128\<close> and pairs of \<open>u128\<close> in
  lexicographic order are the integer instances of the source.
\<close>

section \<open>Rows\<close>

record table_id_object =
  ti_id :: nat
  ti_code :: u64
  ti_scope :: u64
  ti_table :: u64
  ti_payer :: u64
  ti_count :: u32

record key_value_object =
  kv_id :: nat
  kv_t_id :: nat
  kv_primary_key :: u64
  kv_payer :: u64
  kv_value :: "u8 list"

record 's index_object =
  ix_id :: nat
  ix_t_id :: nat
  ix_primary_key :: u64
  ix_payer :: u64
  ix_secondary_key :: 's

definition by_code_scope_table :: "table_id_object \<Rightarrow> u64 \<times> u64 \<times> u64" where
  "by_code_scope_table t = (ti_code t, ti_scope t, ti_table t)"

definition by_scope_primary :: "key_value_object \<Rightarrow> nat \<times> u64" where
  "by_scope_primary o' = (kv_t_id o', kv_primary_key o')"

definition by_primary :: "'s index_object \<Rightarrow> nat \<times> u64" where
  "by_primary o' = (ix_t_id o', ix_primary_key o')"

definition by_secondary :: "'s index_object \<Rightarrow> nat \<times> 's \<times> u64" where
  "by_secondary o' = (ix_t_id o', ix_secondary_key o', ix_primary_key o')"

definition billable_table_id_object :: int where
  "billable_table_id_object = int (billable_align (44 + 2 * 32))"

definition billable_key_value_object :: int where
  "billable_key_value_object = int (billable_align (32 + 8 + 4 + 2 * 32))"

definition billable_index64_object :: int where
  "billable_index64_object = int (billable_align (24 + 8 + 3 * 32))"

definition billable_index128_object :: int where
  "billable_index128_object = int (billable_align (24 + 16 + 3 * 32))"

definition billable_index256_object :: int where
  "billable_index256_object = int (billable_align (24 + 32 + 3 * 32))"

text \<open>What the code shared by both kinds of table reads of a row.\<close>

record 'r row_view =
  row_id :: "'r \<Rightarrow> nat"
  row_table :: "'r \<Rightarrow> nat"
  row_primary :: "'r \<Rightarrow> u64"

definition kv_view :: "key_value_object row_view" where
  "kv_view = \<lparr>row_id = kv_id, row_table = kv_t_id, row_primary = kv_primary_key\<rparr>"

definition ix_view :: "'s index_object row_view" where
  "ix_view = \<lparr>row_id = ix_id, row_table = ix_t_id, row_primary = ix_primary_key\<rparr>"

text \<open>The three object tables, each with the identifier chainbase gives the next row.\<close>

record 's table_db =
  next_table :: nat
  tables :: "table_id_object list"
  next_key_value :: nat
  key_values :: "key_value_object list"
  next_index :: nat
  index_rows :: "'s index_object list"

section \<open>Ordered indices\<close>

text \<open>
  An ordered unique index is the sorted list of the rows.  \<open>idx_next\<close> and \<open>idx_prev\<close> are
  \<open>++iterator_to(obj)\<close> and \<open>--iterator_to(obj)\<close>, \<open>None\<close> at the end and at the beginning;
  \<open>table_last\<close> is the row before \<open>upper_bound(tab->id)\<close>, a bound on the first component of the key.
\<close>

definition lower_bound :: "('r \<Rightarrow> 'k::linorder) \<Rightarrow> 'k \<Rightarrow> 'r list \<Rightarrow> 'r option" where
  "lower_bound key k t = find (\<lambda>r. k \<le> key r) (sort_key key t)"

definition upper_bound :: "('r \<Rightarrow> 'k::linorder) \<Rightarrow> 'k \<Rightarrow> 'r list \<Rightarrow> 'r option" where
  "upper_bound key k t = find (\<lambda>r. k < key r) (sort_key key t)"

definition idx_next :: "('r \<Rightarrow> 'k::linorder) \<Rightarrow> 'r \<Rightarrow> 'r list \<Rightarrow> 'r option" where
  "idx_next key r t =
     (case dropWhile (\<lambda>x. key x \<noteq> key r) (sort_key key t) of _ # x # _ \<Rightarrow> Some x | _ \<Rightarrow> None)"

definition last_option :: "'r list \<Rightarrow> 'r option" where
  "last_option xs = (if xs = [] then None else Some (last xs))"

definition idx_prev :: "('r \<Rightarrow> 'k::linorder) \<Rightarrow> 'r \<Rightarrow> 'r list \<Rightarrow> 'r option" where
  "idx_prev key r t = last_option (takeWhile (\<lambda>x. key x \<noteq> key r) (sort_key key t))"

definition table_last :: "'r row_view \<Rightarrow> ('r \<Rightarrow> 'k::linorder) \<Rightarrow> nat \<Rightarrow> 'r list \<Rightarrow> 'r option" where
  "table_last v key i t = last_option (takeWhile (\<lambda>x. \<not> i < row_table v x) (sort_key key t))"

section \<open>The iterator cache\<close>

record iterator_cache =
  table_cache :: "nat \<rightharpoonup> nat \<times> int"
  end_iterator_to_table :: "nat list"
  iterator_to_object :: "nat option list"
  object_to_iterator :: "nat \<rightharpoonup> int"

definition empty_cache :: iterator_cache where
  "empty_cache = \<lparr>table_cache = Map.empty, end_iterator_to_table = [], iterator_to_object = [],
     object_to_iterator = Map.empty\<rparr>"

text \<open>The negation of the least \<open>int\<close> is undefined; the source makes it a precondition.\<close>

definition end_iterator_to_index :: "int \<Rightarrow> nat res" where
  "end_iterator_to_index ei = (if ei = - (2 ^ 31) then Inl undefined_behaviour else Inr (nat (- ei - 2)))"

definition index_to_end_iterator :: "nat \<Rightarrow> int" where
  "index_to_end_iterator indx = - (int indx + 2)"

definition cache_table :: "iterator_cache \<Rightarrow> nat \<Rightarrow> iterator_cache \<times> int" where
  "cache_table c tobj =
     (case table_cache c tobj of
        Some (_, ei) \<Rightarrow> (c, ei)
      | None \<Rightarrow>
          (let ei = index_to_end_iterator (length (end_iterator_to_table c))
           in (c\<lparr>end_iterator_to_table := end_iterator_to_table c @ [tobj],
                table_cache := (table_cache c)(tobj \<mapsto> (tobj, ei))\<rparr>, ei)))"

text \<open>Reading a table through a pointer.\<close>

definition table_at :: "table_id_object list \<Rightarrow> nat \<Rightarrow> table_id_object res" where
  "table_at ts p = (case tbl_find ti_id p ts of None \<Rightarrow> Inl undefined_behaviour | Some t \<Rightarrow> Inr t)"

definition get_table :: "table_id_object list \<Rightarrow> iterator_cache \<Rightarrow> nat \<Rightarrow> table_id_object res" where
  "get_table ts c i =
     (case table_cache c i of None \<Rightarrow> Inl table_not_in_cache | Some (p, _) \<Rightarrow> table_at ts p)"

definition get_end_iterator_by_table_id :: "iterator_cache \<Rightarrow> nat \<Rightarrow> int res" where
  "get_end_iterator_by_table_id c i =
     (case table_cache c i of None \<Rightarrow> Inl table_not_in_cache | Some (_, ei) \<Rightarrow> Inr ei)"

definition find_table_by_end_iterator :: "iterator_cache \<Rightarrow> int \<Rightarrow> nat option res" where
  "find_table_by_end_iterator c ei =
     EOS_ASSERT (ei < - 1) invalid_table_iterator
       (bind_res (end_iterator_to_index ei) (\<lambda>indx.
          if indx \<ge> length (end_iterator_to_table c) then Inr None
          else Inr (Some (end_iterator_to_table c ! indx))))"

definition cache_get :: "'r row_view \<Rightarrow> 'r list \<Rightarrow> iterator_cache \<Rightarrow> int \<Rightarrow> 'r res" where
  "cache_get v rows c iterator =
     EOS_ASSERT (iterator \<noteq> - 1) invalid_table_iterator
     (EOS_ASSERT (iterator \<ge> 0) table_operation_not_permitted
     (EOS_ASSERT (nat iterator < length (iterator_to_object c)) invalid_table_iterator
       (case iterator_to_object c ! nat iterator of
          None \<Rightarrow> Inl table_operation_not_permitted
        | Some p \<Rightarrow>
            (case tbl_find (row_id v) p rows of None \<Rightarrow> Inl undefined_behaviour | Some r \<Rightarrow> Inr r))))"

definition cache_remove :: "iterator_cache \<Rightarrow> int \<Rightarrow> iterator_cache res" where
  "cache_remove c iterator =
     EOS_ASSERT (iterator \<noteq> - 1) invalid_table_iterator
     (EOS_ASSERT (iterator \<ge> 0) table_operation_not_permitted
     (EOS_ASSERT (nat iterator < length (iterator_to_object c)) invalid_table_iterator
       (case iterator_to_object c ! nat iterator of
          None \<Rightarrow> Inr c
        | Some p \<Rightarrow>
            Inr (c\<lparr>iterator_to_object := (iterator_to_object c)[nat iterator := None],
                   object_to_iterator := (object_to_iterator c)(p := None)\<rparr>))))"

definition cache_add :: "iterator_cache \<Rightarrow> nat \<Rightarrow> iterator_cache \<times> int" where
  "cache_add c p =
     (case object_to_iterator c p of
        Some i \<Rightarrow> (c, i)
      | None \<Rightarrow>
          (let i = int (length (iterator_to_object c))
           in (c\<lparr>iterator_to_object := iterator_to_object c @ [Some p],
                object_to_iterator := (object_to_iterator c)(p \<mapsto> i)\<rparr>, i)))"

section \<open>Moving through an index\<close>

text \<open>
  The bodies that the calls on the primary table and the two indices of \<open>generic_index\<close> share,
  for the index ordered by \<open>key\<close>.  \<open>primary\<close> is the out-parameter: its old value is returned where
  the source does not assign it.
\<close>

definition cursor_next :: "'r row_view \<Rightarrow> ('r \<Rightarrow> 'k::linorder) \<Rightarrow> 'r list \<Rightarrow> iterator_cache \<Rightarrow> int \<Rightarrow> u64 \<Rightarrow>
    (iterator_cache \<times> int \<times> u64) res" where
  "cursor_next v key rows c iterator primary =
     (if iterator < - 1 then Inr (c, - 1, primary)
      else bind_res (cache_get v rows c iterator) (\<lambda>obj.
        case idx_next key obj rows of
          None \<Rightarrow> bind_res (get_end_iterator_by_table_id c (row_table v obj)) (\<lambda>ei. Inr (c, ei, primary))
        | Some r \<Rightarrow>
            if row_table v r \<noteq> row_table v obj
            then bind_res (get_end_iterator_by_table_id c (row_table v obj)) (\<lambda>ei. Inr (c, ei, primary))
            else (let (c, i) = cache_add c (row_id v r) in Inr (c, i, row_primary v r))))"

definition cursor_previous :: "table_id_object list \<Rightarrow> 'r row_view \<Rightarrow> ('r \<Rightarrow> 'k::linorder) \<Rightarrow> 'r list \<Rightarrow>
    iterator_cache \<Rightarrow> int \<Rightarrow> u64 \<Rightarrow> (iterator_cache \<times> int \<times> u64) res" where
  "cursor_previous ts v key rows c iterator primary =
     (if iterator < - 1
      then bind_res (find_table_by_end_iterator c iterator) (\<lambda>tab.
        case tab of
          None \<Rightarrow> Inl invalid_table_iterator
        | Some p \<Rightarrow>
            bind_res (table_at ts p) (\<lambda>tab.
              case table_last v key (ti_id tab) rows of
                None \<Rightarrow> Inr (c, - 1, primary)
              | Some r \<Rightarrow>
                  if row_table v r \<noteq> ti_id tab then Inr (c, - 1, primary)
                  else (let (c, i) = cache_add c (row_id v r) in Inr (c, i, row_primary v r))))
      else bind_res (cache_get v rows c iterator) (\<lambda>obj.
        case idx_prev key obj rows of
          None \<Rightarrow> Inr (c, - 1, primary)
        | Some r \<Rightarrow>
            if row_table v r \<noteq> row_table v obj then Inr (c, - 1, primary)
            else (let (c, i) = cache_add c (row_id v r) in Inr (c, i, row_primary v r))))"

text \<open>
  A lookup in table \<open>tab\<close>: cache the table, then give the iterator of the row that was found, or the
  end iterator.  The row a bound gives may belong to a later table.
\<close>

definition cursor_at :: "'r row_view \<Rightarrow> iterator_cache \<Rightarrow> table_id_object \<Rightarrow> 'r option \<Rightarrow>
    iterator_cache \<times> int \<times> 'r option" where
  "cursor_at v c tab found =
     (let (c, table_end_itr) = cache_table c (ti_id tab)
      in case found of
           None \<Rightarrow> (c, table_end_itr, None)
         | Some r \<Rightarrow>
             if row_table v r \<noteq> ti_id tab then (c, table_end_itr, None)
             else (let (c, i) = cache_add c (row_id v r) in (c, i, Some r)))"

section \<open>The context of an action with its tables\<close>

record 's contract_ctx = ram_ctx +
  tdb :: "'s table_db"
  keyval_cache :: iterator_cache
  index_cache :: iterator_cache

definition find_table :: "'s contract_ctx \<Rightarrow> u64 \<Rightarrow> u64 \<Rightarrow> u64 \<Rightarrow> table_id_object option" where
  "find_table ctx code scope table = tbl_find by_code_scope_table (code, scope, table) (tables (tdb ctx))"

definition find_or_create_table :: "'d apply_info \<Rightarrow> 's contract_ctx \<Rightarrow> u64 \<Rightarrow> u64 \<Rightarrow> u64 \<Rightarrow> u64 \<Rightarrow>
    ('s contract_ctx \<times> table_id_object) res" where
  "find_or_create_table info ctx code scope table payer =
     (case find_table ctx code scope table of
        Some existing_tid \<Rightarrow> Inr (ctx, existing_tid)
      | None \<Rightarrow>
          bind_res (update_db_usage info ctx payer billable_table_id_object) (\<lambda>ctx.
            (let db = tdb ctx;
                 t = \<lparr>ti_id = next_table db, ti_code = code, ti_scope = scope, ti_table = table,
                      ti_payer = payer, ti_count = 0\<rparr>
             in bind_res (tbl_create by_code_scope_table t (tables db)) (\<lambda>ts.
                  Inr (ctx\<lparr>tdb := db\<lparr>next_table := next_table db + 1, tables := ts\<rparr>\<rparr>, t)))))"

definition remove_table :: "'d apply_info \<Rightarrow> 's contract_ctx \<Rightarrow> table_id_object \<Rightarrow> 's contract_ctx res" where
  "remove_table info ctx tid =
     bind_res (update_db_usage info ctx (ti_payer tid) (- billable_table_id_object)) (\<lambda>ctx.
       Inr (ctx\<lparr>tdb := (tdb ctx)\<lparr>tables := tbl_remove ti_id (ti_id tid) (tables (tdb ctx))\<rparr>\<rparr>))"

text \<open>\<open>++t.count\<close> and \<open>--t.count\<close>.\<close>

definition add_count :: "'s contract_ctx \<Rightarrow> nat \<Rightarrow> u32 \<Rightarrow> 's contract_ctx" where
  "add_count ctx i n =
     ctx\<lparr>tdb := (tdb ctx)\<lparr>tables := tbl_modify ti_id i (\<lambda>t. t\<lparr>ti_count := ti_count t + n\<rparr>) (tables (tdb ctx))\<rparr>\<rparr>"

section \<open>Calls on the primary table\<close>

definition db_store_i64_code :: "'d apply_info \<Rightarrow> 's contract_ctx \<Rightarrow> u64 \<Rightarrow> u64 \<Rightarrow> u64 \<Rightarrow> u64 \<Rightarrow> u64 \<Rightarrow> u8 list \<Rightarrow>
    ('s contract_ctx \<times> int) res" where
  "db_store_i64_code info ctx code scope table payer id' buffer =
     bind_res (find_or_create_table info ctx code scope table payer) (\<lambda>(ctx, tab).
     EOS_ASSERT (payer \<noteq> 0) invalid_table_payer
     (let db = tdb ctx;
          obj = \<lparr>kv_id = next_key_value db, kv_t_id = ti_id tab, kv_primary_key = id', kv_payer = payer,
                 kv_value = buffer\<rparr>
      in bind_res (tbl_create by_scope_primary obj (key_values db)) (\<lambda>rows.
         (let ctx = ctx\<lparr>tdb := db\<lparr>next_key_value := next_key_value db + 1, key_values := rows\<rparr>\<rparr>;
              ctx = add_count ctx (ti_id tab) 1;
              billable_size = int (length buffer) + billable_key_value_object
          in bind_res (update_db_usage info ctx payer billable_size) (\<lambda>ctx.
             (let (c, _) = cache_table (keyval_cache ctx) (ti_id tab);
                  (c, i) = cache_add c (kv_id obj)
              in Inr (ctx\<lparr>keyval_cache := c\<rparr>, i)))))))"

definition db_store_i64 :: "'d apply_info \<Rightarrow> 's contract_ctx \<Rightarrow> u64 \<Rightarrow> u64 \<Rightarrow> u64 \<Rightarrow> u64 \<Rightarrow> u8 list \<Rightarrow>
    ('s contract_ctx \<times> int) res" where
  "db_store_i64 info ctx scope table payer id' buffer =
     db_store_i64_code info ctx (receiver info) scope table payer id' buffer"

definition db_update_i64 :: "'d apply_info \<Rightarrow> 's contract_ctx \<Rightarrow> int \<Rightarrow> u64 \<Rightarrow> u8 list \<Rightarrow> 's contract_ctx res" where
  "db_update_i64 info ctx iterator payer buffer =
     bind_res (cache_get kv_view (key_values (tdb ctx)) (keyval_cache ctx) iterator) (\<lambda>obj.
     bind_res (get_table (tables (tdb ctx)) (keyval_cache ctx) (kv_t_id obj)) (\<lambda>table_obj.
     EOS_ASSERT (ti_code table_obj = receiver info) table_access_violation
     (let old_size = int (length (kv_value obj)) + billable_key_value_object;
          new_size = int (length buffer) + billable_key_value_object;
          payer = (if payer = 0 then kv_payer obj else payer)
      in bind_res
           (if kv_payer obj \<noteq> payer
            then bind_res (update_db_usage info ctx (kv_payer obj) (- old_size)) (\<lambda>ctx.
                   update_db_usage info ctx payer new_size)
            else if old_size \<noteq> new_size then update_db_usage info ctx (kv_payer obj) (new_size - old_size)
            else Inr ctx)
           (\<lambda>ctx. Inr (ctx\<lparr>tdb := (tdb ctx)\<lparr>key_values :=
              tbl_modify kv_id (kv_id obj) (\<lambda>o'. o'\<lparr>kv_value := buffer, kv_payer := payer\<rparr>)
                (key_values (tdb ctx))\<rparr>\<rparr>)))))"

definition db_remove_i64 :: "'d apply_info \<Rightarrow> 's contract_ctx \<Rightarrow> int \<Rightarrow> 's contract_ctx res" where
  "db_remove_i64 info ctx iterator =
     bind_res (cache_get kv_view (key_values (tdb ctx)) (keyval_cache ctx) iterator) (\<lambda>obj.
     bind_res (get_table (tables (tdb ctx)) (keyval_cache ctx) (kv_t_id obj)) (\<lambda>table_obj.
     EOS_ASSERT (ti_code table_obj = receiver info) table_access_violation
     (bind_res (update_db_usage info ctx (kv_payer obj)
          (- (int (length (kv_value obj)) + billable_key_value_object))) (\<lambda>ctx.
      (let ctx = add_count ctx (ti_id table_obj) (- 1);
           table_obj = table_obj\<lparr>ti_count := ti_count table_obj - 1\<rparr>;
           ctx = ctx\<lparr>tdb := (tdb ctx)\<lparr>key_values := tbl_remove kv_id (kv_id obj) (key_values (tdb ctx))\<rparr>\<rparr>
       in bind_res (if ti_count table_obj = 0 then remove_table info ctx table_obj else Inr ctx) (\<lambda>ctx.
          bind_res (cache_remove (keyval_cache ctx) iterator) (\<lambda>c.
            Inr (ctx\<lparr>keyval_cache := c\<rparr>))))))))"

text \<open>The result is the value returned and the bytes copied to the buffer of \<open>buffer_size\<close> bytes.\<close>

definition db_get_i64 :: "'s contract_ctx \<Rightarrow> int \<Rightarrow> nat \<Rightarrow> (nat \<times> u8 list) res" where
  "db_get_i64 ctx iterator buffer_size =
     bind_res (cache_get kv_view (key_values (tdb ctx)) (keyval_cache ctx) iterator) (\<lambda>obj.
       (let s = length (kv_value obj)
        in if buffer_size = 0 then Inr (s, [])
           else (let copy_size = min buffer_size s in Inr (copy_size, take copy_size (kv_value obj)))))"

definition db_next_i64 :: "'s contract_ctx \<Rightarrow> int \<Rightarrow> u64 \<Rightarrow> ('s contract_ctx \<times> int \<times> u64) res" where
  "db_next_i64 ctx iterator primary =
     bind_res (cursor_next kv_view by_scope_primary (key_values (tdb ctx)) (keyval_cache ctx) iterator primary)
       (\<lambda>(c, i, primary). Inr (ctx\<lparr>keyval_cache := c\<rparr>, i, primary))"

definition db_previous_i64 :: "'s contract_ctx \<Rightarrow> int \<Rightarrow> u64 \<Rightarrow> ('s contract_ctx \<times> int \<times> u64) res" where
  "db_previous_i64 ctx iterator primary =
     bind_res (cursor_previous (tables (tdb ctx)) kv_view by_scope_primary (key_values (tdb ctx))
         (keyval_cache ctx) iterator primary)
       (\<lambda>(c, i, primary). Inr (ctx\<lparr>keyval_cache := c\<rparr>, i, primary))"

definition db_find_i64 :: "'s contract_ctx \<Rightarrow> u64 \<Rightarrow> u64 \<Rightarrow> u64 \<Rightarrow> u64 \<Rightarrow> 's contract_ctx \<times> int" where
  "db_find_i64 ctx code scope table id' =
     (case find_table ctx code scope table of
        None \<Rightarrow> (ctx, - 1)
      | Some tab \<Rightarrow>
          (let (c, i, _) = cursor_at kv_view (keyval_cache ctx) tab
             (tbl_find by_scope_primary (ti_id tab, id') (key_values (tdb ctx)))
           in (ctx\<lparr>keyval_cache := c\<rparr>, i)))"

definition db_lowerbound_i64 :: "'s contract_ctx \<Rightarrow> u64 \<Rightarrow> u64 \<Rightarrow> u64 \<Rightarrow> u64 \<Rightarrow> 's contract_ctx \<times> int" where
  "db_lowerbound_i64 ctx code scope table id' =
     (case find_table ctx code scope table of
        None \<Rightarrow> (ctx, - 1)
      | Some tab \<Rightarrow>
          (let (c, i, _) = cursor_at kv_view (keyval_cache ctx) tab
             (lower_bound by_scope_primary (ti_id tab, id') (key_values (tdb ctx)))
           in (ctx\<lparr>keyval_cache := c\<rparr>, i)))"

definition db_upperbound_i64 :: "'s contract_ctx \<Rightarrow> u64 \<Rightarrow> u64 \<Rightarrow> u64 \<Rightarrow> u64 \<Rightarrow> 's contract_ctx \<times> int" where
  "db_upperbound_i64 ctx code scope table id' =
     (case find_table ctx code scope table of
        None \<Rightarrow> (ctx, - 1)
      | Some tab \<Rightarrow>
          (let (c, i, _) = cursor_at kv_view (keyval_cache ctx) tab
             (upper_bound by_scope_primary (ti_id tab, id') (key_values (tdb ctx)))
           in (ctx\<lparr>keyval_cache := c\<rparr>, i)))"

definition db_end_i64 :: "'s contract_ctx \<Rightarrow> u64 \<Rightarrow> u64 \<Rightarrow> u64 \<Rightarrow> 's contract_ctx \<times> int" where
  "db_end_i64 ctx code scope table =
     (case find_table ctx code scope table of
        None \<Rightarrow> (ctx, - 1)
      | Some tab \<Rightarrow>
          (let (c, i) = cache_table (keyval_cache ctx) (ti_id tab) in (ctx\<lparr>keyval_cache := c\<rparr>, i)))"

section \<open>Calls on a secondary index\<close>

text \<open>
  The methods of \<open>generic_index\<close>; \<open>billing_size\<close> is \<open>billable_size_v\<close> of its row type.  A find by
  the key alone gives the first row with the key, as Boost's ordered index does.
\<close>

definition idx_store :: "int \<Rightarrow> 'd apply_info \<Rightarrow> 's contract_ctx \<Rightarrow> u64 \<Rightarrow> u64 \<Rightarrow> u64 \<Rightarrow> u64 \<Rightarrow> 's \<Rightarrow>
    ('s contract_ctx \<times> int) res" where
  "idx_store billing_size info ctx scope table payer id' value =
     EOS_ASSERT (payer \<noteq> 0) invalid_table_payer
     (bind_res (find_or_create_table info ctx (receiver info) scope table payer) (\<lambda>(ctx, tab).
     (let db = tdb ctx;
          obj = \<lparr>ix_id = next_index db, ix_t_id = ti_id tab, ix_primary_key = id', ix_payer = payer,
                 ix_secondary_key = value\<rparr>
      in bind_res (tbl_create by_primary obj (index_rows db)) (\<lambda>rows.
         (let ctx = ctx\<lparr>tdb := db\<lparr>next_index := next_index db + 1, index_rows := rows\<rparr>\<rparr>;
              ctx = add_count ctx (ti_id tab) 1
          in bind_res (update_db_usage info ctx payer billing_size) (\<lambda>ctx.
             (let (c, _) = cache_table (index_cache ctx) (ti_id tab);
                  (c, i) = cache_add c (ix_id obj)
              in Inr (ctx\<lparr>index_cache := c\<rparr>, i))))))))"

definition idx_remove :: "int \<Rightarrow> 'd apply_info \<Rightarrow> 's contract_ctx \<Rightarrow> int \<Rightarrow> 's contract_ctx res" where
  "idx_remove billing_size info ctx iterator =
     bind_res (cache_get ix_view (index_rows (tdb ctx)) (index_cache ctx) iterator) (\<lambda>obj.
     bind_res (update_db_usage info ctx (ix_payer obj) (- billing_size)) (\<lambda>ctx.
     bind_res (get_table (tables (tdb ctx)) (index_cache ctx) (ix_t_id obj)) (\<lambda>table_obj.
     EOS_ASSERT (ti_code table_obj = receiver info) table_access_violation
     (let ctx = add_count ctx (ti_id table_obj) (- 1);
          table_obj = table_obj\<lparr>ti_count := ti_count table_obj - 1\<rparr>;
          ctx = ctx\<lparr>tdb := (tdb ctx)\<lparr>index_rows := tbl_remove ix_id (ix_id obj) (index_rows (tdb ctx))\<rparr>\<rparr>
      in bind_res (if ti_count table_obj = 0 then remove_table info ctx table_obj else Inr ctx) (\<lambda>ctx.
         bind_res (cache_remove (index_cache ctx) iterator) (\<lambda>c.
           Inr (ctx\<lparr>index_cache := c\<rparr>)))))))"

definition idx_update :: "int \<Rightarrow> 'd apply_info \<Rightarrow> 's contract_ctx \<Rightarrow> int \<Rightarrow> u64 \<Rightarrow> 's \<Rightarrow> 's contract_ctx res" where
  "idx_update billing_size info ctx iterator payer secondary =
     bind_res (cache_get ix_view (index_rows (tdb ctx)) (index_cache ctx) iterator) (\<lambda>obj.
     bind_res (get_table (tables (tdb ctx)) (index_cache ctx) (ix_t_id obj)) (\<lambda>table_obj.
     EOS_ASSERT (ti_code table_obj = receiver info) table_access_violation
     (let payer = (if payer = 0 then ix_payer obj else payer)
      in bind_res
           (if ix_payer obj \<noteq> payer
            then bind_res (update_db_usage info ctx (ix_payer obj) (- billing_size)) (\<lambda>ctx.
                   update_db_usage info ctx payer billing_size)
            else Inr ctx)
           (\<lambda>ctx. Inr (ctx\<lparr>tdb := (tdb ctx)\<lparr>index_rows :=
              tbl_modify ix_id (ix_id obj) (\<lambda>o'. o'\<lparr>ix_secondary_key := secondary, ix_payer := payer\<rparr>)
                (index_rows (tdb ctx))\<rparr>\<rparr>)))))"

text \<open>
  The lookups return the row's keys in the out-parameters \<open>secondary\<close> and \<open>primary\<close>, which keep their
  values when no row of the table is found.
\<close>

definition idx_lookup :: "'s contract_ctx \<Rightarrow> u64 \<Rightarrow> u64 \<Rightarrow> u64 \<Rightarrow>
    (nat \<Rightarrow> 's index_object option) \<Rightarrow> 's contract_ctx \<times> int \<times> 's index_object option" where
  "idx_lookup ctx code scope table look =
     (case find_table ctx code scope table of
        None \<Rightarrow> (ctx, - 1, None)
      | Some tab \<Rightarrow>
          (let (c, i, r) = cursor_at ix_view (index_cache ctx) tab (look (ti_id tab))
           in (ctx\<lparr>index_cache := c\<rparr>, i, r)))"

definition idx_find_secondary :: "('s::linorder) contract_ctx \<Rightarrow> u64 \<Rightarrow> u64 \<Rightarrow> u64 \<Rightarrow> 's \<Rightarrow> u64 \<Rightarrow>
    's contract_ctx \<times> int \<times> u64" where
  "idx_find_secondary ctx code scope table secondary primary =
     (let (ctx, i, r) = idx_lookup ctx code scope table (\<lambda>t_id.
            find (\<lambda>o'. ix_t_id o' = t_id \<and> ix_secondary_key o' = secondary) (sort_key by_secondary (index_rows (tdb ctx))))
      in (ctx, i, case r of None \<Rightarrow> primary | Some o' \<Rightarrow> ix_primary_key o'))"

definition idx_lowerbound_secondary :: "('s::linorder) contract_ctx \<Rightarrow> u64 \<Rightarrow> u64 \<Rightarrow> u64 \<Rightarrow> 's \<Rightarrow> u64 \<Rightarrow>
    's contract_ctx \<times> int \<times> 's \<times> u64" where
  "idx_lowerbound_secondary ctx code scope table secondary primary =
     (let (ctx, i, r) = idx_lookup ctx code scope table (\<lambda>t_id.
            find (\<lambda>o'. (t_id, secondary) \<le> (ix_t_id o', ix_secondary_key o')) (sort_key by_secondary (index_rows (tdb ctx))))
      in (ctx, i, case r of None \<Rightarrow> (secondary, primary) | Some o' \<Rightarrow> (ix_secondary_key o', ix_primary_key o')))"

definition idx_upperbound_secondary :: "('s::linorder) contract_ctx \<Rightarrow> u64 \<Rightarrow> u64 \<Rightarrow> u64 \<Rightarrow> 's \<Rightarrow> u64 \<Rightarrow>
    's contract_ctx \<times> int \<times> 's \<times> u64" where
  "idx_upperbound_secondary ctx code scope table secondary primary =
     (let (ctx, i, r) = idx_lookup ctx code scope table (\<lambda>t_id.
            find (\<lambda>o'. (t_id, secondary) < (ix_t_id o', ix_secondary_key o')) (sort_key by_secondary (index_rows (tdb ctx))))
      in (ctx, i, case r of None \<Rightarrow> (secondary, primary) | Some o' \<Rightarrow> (ix_secondary_key o', ix_primary_key o')))"

definition idx_end_secondary :: "'s contract_ctx \<Rightarrow> u64 \<Rightarrow> u64 \<Rightarrow> u64 \<Rightarrow> 's contract_ctx \<times> int" where
  "idx_end_secondary ctx code scope table =
     (case find_table ctx code scope table of
        None \<Rightarrow> (ctx, - 1)
      | Some tab \<Rightarrow>
          (let (c, i) = cache_table (index_cache ctx) (ti_id tab) in (ctx\<lparr>index_cache := c\<rparr>, i)))"

definition idx_next_secondary :: "('s::linorder) contract_ctx \<Rightarrow> int \<Rightarrow> u64 \<Rightarrow> ('s contract_ctx \<times> int \<times> u64) res" where
  "idx_next_secondary ctx iterator primary =
     bind_res (cursor_next ix_view by_secondary (index_rows (tdb ctx)) (index_cache ctx) iterator primary)
       (\<lambda>(c, i, primary). Inr (ctx\<lparr>index_cache := c\<rparr>, i, primary))"

definition idx_previous_secondary :: "('s::linorder) contract_ctx \<Rightarrow> int \<Rightarrow> u64 \<Rightarrow> ('s contract_ctx \<times> int \<times> u64) res" where
  "idx_previous_secondary ctx iterator primary =
     bind_res (cursor_previous (tables (tdb ctx)) ix_view by_secondary (index_rows (tdb ctx))
         (index_cache ctx) iterator primary)
       (\<lambda>(c, i, primary). Inr (ctx\<lparr>index_cache := c\<rparr>, i, primary))"

definition idx_find_primary :: "'s contract_ctx \<Rightarrow> u64 \<Rightarrow> u64 \<Rightarrow> u64 \<Rightarrow> 's \<Rightarrow> u64 \<Rightarrow> 's contract_ctx \<times> int \<times> 's" where
  "idx_find_primary ctx code scope table secondary primary =
     (let (ctx, i, r) = idx_lookup ctx code scope table (\<lambda>t_id.
            tbl_find by_primary (t_id, primary) (index_rows (tdb ctx)))
      in (ctx, i, case r of None \<Rightarrow> secondary | Some o' \<Rightarrow> ix_secondary_key o'))"

definition idx_lowerbound_primary :: "'s contract_ctx \<Rightarrow> u64 \<Rightarrow> u64 \<Rightarrow> u64 \<Rightarrow> u64 \<Rightarrow> 's contract_ctx \<times> int" where
  "idx_lowerbound_primary ctx code scope table primary =
     (let (ctx, i, _) = idx_lookup ctx code scope table (\<lambda>t_id.
            lower_bound by_primary (t_id, primary) (index_rows (tdb ctx)))
      in (ctx, i))"

definition idx_upperbound_primary :: "'s contract_ctx \<Rightarrow> u64 \<Rightarrow> u64 \<Rightarrow> u64 \<Rightarrow> u64 \<Rightarrow> 's contract_ctx \<times> int" where
  "idx_upperbound_primary ctx code scope table primary =
     (let (ctx, i, _) = idx_lookup ctx code scope table (\<lambda>t_id.
            upper_bound by_primary (t_id, primary) (index_rows (tdb ctx)))
      in (ctx, i))"

definition idx_next_primary :: "'s contract_ctx \<Rightarrow> int \<Rightarrow> u64 \<Rightarrow> ('s contract_ctx \<times> int \<times> u64) res" where
  "idx_next_primary ctx iterator primary =
     bind_res (cursor_next ix_view by_primary (index_rows (tdb ctx)) (index_cache ctx) iterator primary)
       (\<lambda>(c, i, primary). Inr (ctx\<lparr>index_cache := c\<rparr>, i, primary))"

definition idx_previous_primary :: "'s contract_ctx \<Rightarrow> int \<Rightarrow> u64 \<Rightarrow> ('s contract_ctx \<times> int \<times> u64) res" where
  "idx_previous_primary ctx iterator primary =
     bind_res (cursor_previous (tables (tdb ctx)) ix_view by_primary (index_rows (tdb ctx))
         (index_cache ctx) iterator primary)
       (\<lambda>(c, i, primary). Inr (ctx\<lparr>index_cache := c\<rparr>, i, primary))"

definition idx_get :: "'s contract_ctx \<Rightarrow> int \<Rightarrow> (u64 \<times> 's) res" where
  "idx_get ctx iterator =
     bind_res (cache_get ix_view (index_rows (tdb ctx)) (index_cache ctx) iterator) (\<lambda>obj.
       Inr (ix_primary_key obj, ix_secondary_key obj))"

end
