(* ===== verification/Contract_Order.thy ===== *)
theory Contract_Order
  imports Contract_Tables
begin

text \<open>
  What the calls rely on of an ordered index.  The contract \<open>ordered_store\<close> extends the one of a
  table with the moves of an iterator and the two bounds, each characterised by the order of the
  keys; tables with unique keys and the sorted view satisfy it.
\<close>

section \<open>The contract of an ordered index\<close>

locale ordered_store = keyed_store find create modify remove key wf
  for find :: "'k::linorder \<Rightarrow> 's \<Rightarrow> 'r option" and create modify remove key wf +
  fixes rows :: "'s \<Rightarrow> 'r set" and succ_of prev_of :: "'r \<Rightarrow> 's \<Rightarrow> 'r option"
    and lower upper :: "'k \<Rightarrow> 's \<Rightarrow> 'r option"
  assumes find_rows: "wf s \<Longrightarrow> find k s = Some r \<longleftrightarrow> r \<in> rows s \<and> key r = k"
    and succ_Some: "wf s \<Longrightarrow> r \<in> rows s \<Longrightarrow>
      succ_of r s = Some x \<longleftrightarrow> x \<in> rows s \<and> key r < key x \<and> (\<forall>y\<in>rows s. key r < key y \<longrightarrow> key x \<le> key y)"
    and succ_None: "wf s \<Longrightarrow> r \<in> rows s \<Longrightarrow> succ_of r s = None \<longleftrightarrow> (\<forall>y\<in>rows s. key y \<le> key r)"
    and prev_Some: "wf s \<Longrightarrow> r \<in> rows s \<Longrightarrow>
      prev_of r s = Some x \<longleftrightarrow> x \<in> rows s \<and> key x < key r \<and> (\<forall>y\<in>rows s. key y < key r \<longrightarrow> key y \<le> key x)"
    and prev_None: "wf s \<Longrightarrow> r \<in> rows s \<Longrightarrow> prev_of r s = None \<longleftrightarrow> (\<forall>y\<in>rows s. key r \<le> key y)"
    and lower_Some: "wf s \<Longrightarrow>
      lower k s = Some x \<longleftrightarrow> x \<in> rows s \<and> k \<le> key x \<and> (\<forall>y\<in>rows s. k \<le> key y \<longrightarrow> key x \<le> key y)"
    and lower_None: "lower k s = None \<longleftrightarrow> (\<forall>y\<in>rows s. key y < k)"
    and upper_Some: "wf s \<Longrightarrow>
      upper k s = Some x \<longleftrightarrow> x \<in> rows s \<and> k < key x \<and> (\<forall>y\<in>rows s. k < key y \<longrightarrow> key x \<le> key y)"
    and upper_None: "upper k s = None \<longleftrightarrow> (\<forall>y\<in>rows s. key y \<le> k)"
begin

lemma rows_inj: "wf s \<Longrightarrow> x \<in> rows s \<Longrightarrow> y \<in> rows s \<Longrightarrow> key x = key y \<Longrightarrow> x = y"
  by (metis find_rows option.inject)

lemma prev_succ:
  assumes wf: "wf s" and r: "r \<in> rows s" and n: "succ_of r s = Some x"
  shows "prev_of x s = Some r"
proof -
  have x: "x \<in> rows s" "key r < key x" "\<forall>y\<in>rows s. key r < key y \<longrightarrow> key x \<le> key y"
    using n succ_Some [OF wf r] by auto
  have "key y \<le> key r" if "y \<in> rows s" "key y < key x" for y
    using x(3) that by (meson leD not_less)
  then show ?thesis using prev_Some [OF wf x(1)] r x(2) by blast
qed

lemma succ_prev:
  assumes wf: "wf s" and r: "r \<in> rows s" and p: "prev_of r s = Some x"
  shows "succ_of x s = Some r"
proof -
  have x: "x \<in> rows s" "key x < key r" "\<forall>y\<in>rows s. key y < key r \<longrightarrow> key y \<le> key x"
    using p prev_Some [OF wf r] by auto
  have "key r \<le> key y" if "y \<in> rows s" "key x < key y" for y
    using x(3) that by (meson leD not_less)
  then show ?thesis using succ_Some [OF wf x(1)] r x(2) by blast
qed

lemma succ_upper: "wf s \<Longrightarrow> r \<in> rows s \<Longrightarrow> succ_of r s = upper (key r) s"
  by (cases "succ_of r s") (auto simp: succ_None upper_None [symmetric] succ_Some upper_Some [symmetric]
      dest: sym)

end

section \<open>Sorted views\<close>

lemma find_sorted_least:
  assumes "sorted (map key xs)" and up: "\<And>x y. P x \<Longrightarrow> key x \<le> key y \<Longrightarrow> P y"
    and "distinct (map key xs)"
  shows "find P xs = Some x \<longleftrightarrow> x \<in> set xs \<and> P x \<and> (\<forall>y\<in>set xs. P y \<longrightarrow> key x \<le> key y)"
  using assms(1,3)
proof (induction xs)
  case (Cons a xs)
  show ?case
  proof (cases "P a")
    case True
    then show ?thesis using Cons.prems by (auto simp: image_iff) (metis order_antisym)
  next
    case False
    then show ?thesis using Cons by auto
  qed
qed simp

lemma last_option_None [simp]: "last_option xs = None \<longleftrightarrow> xs = []"
  by (simp add: last_option_def)

lemma last_takeWhile_greatest:
  assumes "sorted (map key xs)" and down: "\<And>x y. P y \<Longrightarrow> key x \<le> key y \<Longrightarrow> P x"
    and "distinct (map key xs)"
  shows "last_option (takeWhile P xs) = Some x \<longleftrightarrow> x \<in> set xs \<and> P x \<and> (\<forall>y\<in>set xs. P y \<longrightarrow> key y \<le> key x)"
  using assms(1,3)
proof (induction xs)
  case (Cons a xs)
  have a: "\<forall>y\<in>set xs. key a < key y" using Cons.prems by (auto simp: image_iff less_le)
  show ?case
  proof (cases "P a")
    case True
    have "last_option (a # takeWhile P xs) =
        (case last_option (takeWhile P xs) of None \<Rightarrow> Some a | Some z \<Rightarrow> Some z)"
      by (simp add: last_option_def)
    moreover have "last_option (takeWhile P xs) = None \<longleftrightarrow> (\<forall>y\<in>set xs. \<not> P y)"
    proof -
      have "takeWhile P xs = [] \<longleftrightarrow> (\<forall>y\<in>set xs. \<not> P y)"
        using Cons.prems down by (cases xs) auto
      then show ?thesis by simp
    qed
    ultimately show ?thesis using Cons True a
      by (cases "last_option (takeWhile P xs)") (auto simp: less_le_not_le)
  next
    case False
    then have "\<forall>y\<in>set xs. \<not> P y" using a down less_imp_le by metis
    with False show ?thesis by (auto simp: last_option_def)
  qed
qed (simp add: last_option_def)

lemma takeWhile_neq_key:
  assumes "sorted (map key xs)" and "distinct (map key xs)" and "r \<in> set xs"
  shows "takeWhile (\<lambda>x. key x \<noteq> key r) xs = takeWhile (\<lambda>x. key x < key r) xs"
  using assms
proof (induction xs)
  case (Cons a xs)
  then show ?case by (cases "a = r") (auto simp: less_le image_iff)
qed simp

lemma dropWhile_neq_key:
  assumes "sorted (map key xs)" and "distinct (map key xs)" and "r \<in> set xs"
  shows "(case dropWhile (\<lambda>x. key x \<noteq> key r) xs of _ # x # _ \<Rightarrow> Some x | _ \<Rightarrow> None) = find (\<lambda>x. key r < key x) xs"
  using assms
proof (induction xs)
  case (Cons a xs)
  show ?case
  proof (cases "key a = key r")
    case True
    with Cons.prems have "\<forall>y\<in>set xs. key r < key y" by (auto simp: image_iff less_le)
    with True show ?thesis by (cases xs) auto
  next
    case False
    with Cons.prems have "r \<in> set xs" "key a \<le> key r" by auto
    with False Cons show ?thesis by auto
  qed
qed simp

lemma sort_key_view:
  "tbl_unique key t \<Longrightarrow> sorted (map key (sort_key key t))"
  "tbl_unique key t \<Longrightarrow> distinct (map key (sort_key key t))"
  by (simp_all add: tbl_unique_def distinct_map inj_on_def)

lemma idx_next_upper: "tbl_unique key t \<Longrightarrow> r \<in> set t \<Longrightarrow> idx_next key r t = upper_bound key (key r) t"
  unfolding idx_next_def upper_bound_def
  by (rule dropWhile_neq_key) (simp_all add: sort_key_view)

lemma idx_prev_less:
  "tbl_unique key t \<Longrightarrow> r \<in> set t \<Longrightarrow>
     idx_prev key r t = last_option (takeWhile (\<lambda>x. key x < key r) (sort_key key t))"
  unfolding idx_prev_def by (subst takeWhile_neq_key) (simp_all add: sort_key_view)

lemma find_None_iff_set: "find P xs = None \<longleftrightarrow> (\<forall>x\<in>set xs. \<not> P x)"
  by (auto simp: find_None_iff)

lemma upper_bound_Some_iff:
  "tbl_unique key t \<Longrightarrow> upper_bound key k t = Some x \<longleftrightarrow>
     x \<in> set t \<and> k < key x \<and> (\<forall>y\<in>set t. k < key y \<longrightarrow> key x \<le> key y)"
  unfolding upper_bound_def by (subst find_sorted_least [where key = key]) (auto simp: sort_key_view)

lemma lower_bound_Some_iff:
  "tbl_unique key t \<Longrightarrow> lower_bound key k t = Some x \<longleftrightarrow>
     x \<in> set t \<and> k \<le> key x \<and> (\<forall>y\<in>set t. k \<le> key y \<longrightarrow> key x \<le> key y)"
  unfolding lower_bound_def by (subst find_sorted_least [where key = key]) (auto simp: sort_key_view)

lemma bound_None_iff:
  "upper_bound key k t = None \<longleftrightarrow> (\<forall>y\<in>set t. key y \<le> k)"
  "lower_bound key k t = None \<longleftrightarrow> (\<forall>y\<in>set t. key y < k)"
  by (auto simp: upper_bound_def lower_bound_def find_None_iff_set not_less not_le)

lemma idx_prev_Some_iff:
  "tbl_unique key t \<Longrightarrow> r \<in> set t \<Longrightarrow> idx_prev key r t = Some x \<longleftrightarrow>
     x \<in> set t \<and> key x < key r \<and> (\<forall>y\<in>set t. key y < key r \<longrightarrow> key y \<le> key x)"
  by (subst idx_prev_less, assumption, assumption, subst last_takeWhile_greatest [where key = key])
     (auto simp: sort_key_view)

lemma idx_prev_None_iff:
  assumes "tbl_unique key t" and "r \<in> set t"
  shows "idx_prev key r t = None \<longleftrightarrow> (\<forall>y\<in>set t. key r \<le> key y)"
proof -
  have "takeWhile (\<lambda>x. key x < key r) (sort_key key t) = [] \<longleftrightarrow> (\<forall>y\<in>set (sort_key key t). key r \<le> key y)"
    using sort_key_view(1) [OF assms(1)] by (cases "sort_key key t") (auto simp: not_less)
  then show ?thesis using assms by (simp add: idx_prev_less)
qed

interpretation ordered_table: ordered_store "tbl_find key" "tbl_create key" "tbl_modify key" "tbl_remove key"
  key "tbl_unique key" set "idx_next key" "idx_prev key" "lower_bound key" "upper_bound key"
  for key :: "'r \<Rightarrow> 'k::linorder"
  by unfold_locales
    (simp_all add: tbl_find_Some_iff idx_next_upper upper_bound_Some_iff lower_bound_Some_iff
      bound_None_iff idx_prev_Some_iff idx_prev_None_iff)

text \<open>The last row of a table, in an index whose key begins with the table.\<close>

lemma table_last_Some_iff:
  assumes "tbl_unique key t" and "\<And>x y. key x \<le> key y \<Longrightarrow> row_table v x \<le> row_table v y"
  shows "table_last v key i t = Some x \<longleftrightarrow>
     x \<in> set t \<and> row_table v x \<le> i \<and> (\<forall>y\<in>set t. row_table v y \<le> i \<longrightarrow> key y \<le> key x)"
  unfolding table_last_def
  by (subst last_takeWhile_greatest [where key = key])
     (use assms in \<open>auto simp: sort_key_view not_less dest: order_trans\<close>)

lemma table_last_None_iff:
  assumes "tbl_unique key t" and "\<And>x y. key x \<le> key y \<Longrightarrow> row_table v x \<le> row_table v y"
  shows "table_last v key i t = None \<longleftrightarrow> (\<forall>y\<in>set t. i < row_table v y)"
proof -
  have "takeWhile (\<lambda>x. \<not> i < row_table v x) (sort_key key t) = [] \<longleftrightarrow> (\<forall>y\<in>set (sort_key key t). i < row_table v y)"
    using sort_key_view(1) [OF assms(1)] assms(2)
    by (cases "sort_key key t") (auto dest: less_le_trans)
  then show ?thesis by (simp add: table_last_def)
qed

end
