(* ===== verification/Contract_Inv.thy ===== *)
theory Contract_Inv
  imports Contract_Order
begin

text \<open>
  The invariant of the contract tables: unique keys, identifiers below the next one, every row in a
  table that exists, the count of a table equal to the number of its rows and never zero, and a
  cache whose iterators and rows correspond one to one, with the table of every cached row cached.
\<close>

section \<open>The cache\<close>

definition cache_inv :: "nat \<Rightarrow> 'r row_view \<Rightarrow> 'r list \<Rightarrow> iterator_cache \<Rightarrow> bool" where
  "cache_inv nt v rows c \<longleftrightarrow>
     (\<forall>i p e. table_cache c i = Some (p, e) \<longleftrightarrow>
        p = i \<and> (\<exists>n < length (end_iterator_to_table c). end_iterator_to_table c ! n = i \<and> e = index_to_end_iterator n)) \<and>
     (\<forall>i \<in> set (end_iterator_to_table c). i < nt) \<and>
     (\<forall>p i. object_to_iterator c p = Some i \<longleftrightarrow>
        0 \<le> i \<and> nat i < length (iterator_to_object c) \<and> iterator_to_object c ! nat i = Some p) \<and>
     (\<forall>p. Some p \<in> set (iterator_to_object c) \<longrightarrow>
        (\<exists>r \<in> set rows. row_id v r = p \<and> table_cache c (row_table v r) \<noteq> None))"

lemma cache_invI:
  assumes "\<And>i p e. table_cache c i = Some (p, e) \<longleftrightarrow>
        p = i \<and> (\<exists>n < length (end_iterator_to_table c). end_iterator_to_table c ! n = i \<and> e = index_to_end_iterator n)"
    and "\<And>i. i \<in> set (end_iterator_to_table c) \<Longrightarrow> i < nt"
    and "\<And>p i. object_to_iterator c p = Some i \<longleftrightarrow>
        0 \<le> i \<and> nat i < length (iterator_to_object c) \<and> iterator_to_object c ! nat i = Some p"
    and "\<And>p. Some p \<in> set (iterator_to_object c) \<Longrightarrow>
        \<exists>r \<in> set rows. row_id v r = p \<and> table_cache c (row_table v r) \<noteq> None"
  shows "cache_inv nt v rows c"
  unfolding cache_inv_def using assms by blast

lemma cache_inv_table:
  "cache_inv nt v rows c \<Longrightarrow> table_cache c i = Some (p, e) \<longleftrightarrow>
     p = i \<and> (\<exists>n < length (end_iterator_to_table c). end_iterator_to_table c ! n = i \<and> e = index_to_end_iterator n)"
  unfolding cache_inv_def by blast

lemma cache_inv_next: "cache_inv nt v rows c \<Longrightarrow> i \<in> set (end_iterator_to_table c) \<Longrightarrow> i < nt"
  unfolding cache_inv_def by blast

lemma cache_inv_tableD:
  assumes "cache_inv nt v rows c" and "table_cache c i = Some (p, e)"
  shows "p = i" and "i < nt" and "e < - 1"
proof -
  obtain n where "p = i" "n < length (end_iterator_to_table c)" "end_iterator_to_table c ! n = i"
      "e = index_to_end_iterator n"
    using assms by (auto simp: cache_inv_table)
  then show "p = i" "i < nt" "e < - 1"
    using cache_inv_next [OF assms(1), of i] nth_mem by (auto simp: index_to_end_iterator_def)
qed

lemma cache_inv_endD:
  "cache_inv nt v rows c \<Longrightarrow> n < length (end_iterator_to_table c) \<Longrightarrow>
     table_cache c (end_iterator_to_table c ! n) = Some (end_iterator_to_table c ! n, index_to_end_iterator n)"
  unfolding cache_inv_def by blast

lemma cache_inv_objD:
  "cache_inv nt v rows c \<Longrightarrow> object_to_iterator c p = Some i \<longleftrightarrow>
     0 \<le> i \<and> nat i < length (iterator_to_object c) \<and> iterator_to_object c ! nat i = Some p"
  unfolding cache_inv_def by blast

lemma cache_inv_liveD:
  "cache_inv nt v rows c \<Longrightarrow> Some p \<in> set (iterator_to_object c) \<Longrightarrow>
     \<exists>r \<in> set rows. row_id v r = p \<and> table_cache c (row_table v r) \<noteq> None"
  unfolding cache_inv_def by blast

lemma cache_inv_empty: "cache_inv nt v rows empty_cache"
  by (simp add: cache_inv_def empty_cache_def)

lemma ex_nth_snoc:
  "(\<exists>n < length (xs @ [x]). P n ((xs @ [x]) ! n)) \<longleftrightarrow> (\<exists>n < length xs. P n (xs ! n)) \<or> P (length xs) x"
proof -
  have "(\<exists>n < Suc m. Q n) \<longleftrightarrow> (\<exists>n < m. Q n) \<or> Q m" for m and Q :: "nat \<Rightarrow> bool"
    by (metis less_Suc_eq)
  moreover have "(\<exists>n < length xs. P n ((xs @ [x]) ! n)) \<longleftrightarrow> (\<exists>n < length xs. P n (xs ! n))"
    by (simp add: nth_append cong: conj_cong)
  ultimately show ?thesis by simp
qed

lemma cache_table_inv:
  assumes inv: "cache_inv nt v rows c" and i: "i < nt" and c': "cache_table c i = (c', e)"
  shows "cache_inv nt v rows c'" and "table_cache c' i = Some (i, e)" and "e < - 1"
    and "object_to_iterator c' = object_to_iterator c" and "iterator_to_object c' = iterator_to_object c"
    and "\<And>j x. table_cache c j = Some x \<Longrightarrow> table_cache c' j = Some x"
proof -
  show "cache_inv nt v rows c'"
  proof (cases "table_cache c i")
    case None
    let ?es = "end_iterator_to_table c"
    have es: "end_iterator_to_table c' = ?es @ [i]"
      and tc: "table_cache c' = (table_cache c)(i \<mapsto> (i, index_to_end_iterator (length ?es)))"
      and oc: "object_to_iterator c' = object_to_iterator c" "iterator_to_object c' = iterator_to_object c"
      using c' None by (auto simp: cache_table_def Let_def)
    have new: "i \<noteq> ?es ! n" if "n < length ?es" for n
      using cache_inv_endD [OF inv that] None by auto
    show ?thesis
    proof (rule cache_invI)
      show "table_cache c' j = Some (p, x) \<longleftrightarrow> p = j \<and>
        (\<exists>n < length (end_iterator_to_table c'). end_iterator_to_table c' ! n = j \<and> x = index_to_end_iterator n)" for j p x
        unfolding es tc ex_nth_snoc [where P = "\<lambda>n y. y = j \<and> x = index_to_end_iterator n"]
        using cache_inv_table [OF inv, of j p x] new by auto
      show "j < nt" if "j \<in> set (end_iterator_to_table c')" for j
        using that cache_inv_next [OF inv] i by (auto simp: es)
      show "\<exists>r \<in> set rows. row_id v r = p \<and> table_cache c' (row_table v r) \<noteq> None"
        if "Some p \<in> set (iterator_to_object c')" for p
        using cache_inv_liveD [OF inv that [unfolded oc]] by (auto simp: tc)
    qed (simp add: oc cache_inv_objD [OF inv])
  qed (use inv c' in \<open>auto simp: cache_table_def\<close>)
  show t: "table_cache c' i = Some (i, e)"
    using c' cache_inv_tableD [OF inv] by (auto simp: cache_table_def Let_def split: option.splits)
  show "e < - 1" using cache_inv_tableD [OF \<open>cache_inv nt v rows c'\<close> t] by simp
qed (use c' in \<open>auto simp: cache_table_def Let_def split: option.splits\<close>)

lemma cache_add_inv:
  assumes inv: "cache_inv nt v rows c" and r: "r \<in> set rows" "table_cache c (row_table v r) \<noteq> None"
    and c': "cache_add c (row_id v r) = (c', i)"
  shows "cache_inv nt v rows c'" and "object_to_iterator c' (row_id v r) = Some i"
    and "table_cache c' = table_cache c" and "end_iterator_to_table c' = end_iterator_to_table c"
    and "\<And>p j. object_to_iterator c p = Some j \<Longrightarrow> object_to_iterator c' p = Some j"
proof -
  show "cache_inv nt v rows c'"
  proof (cases "object_to_iterator c (row_id v r)")
    case None
    have fresh: "Some (row_id v r) \<noteq> iterator_to_object c ! n" if "n < length (iterator_to_object c)" for n
      using cache_inv_objD [OF inv, of "row_id v r" "int n"] None that by auto
    have "(object_to_iterator c') p = Some j \<longleftrightarrow>
        0 \<le> j \<and> nat j < length (iterator_to_object c') \<and> iterator_to_object c' ! nat j = Some p" for p j
      using None c' cache_inv_objD [OF inv, of p j] fresh [of "nat j"]
      by (auto simp: cache_add_def Let_def nth_append less_Suc_eq nat_eq_iff2 split: if_splits)
    moreover have "\<exists>q \<in> set rows. row_id v q = p \<and> table_cache c' (row_table v q) \<noteq> None"
      if "Some p \<in> set (iterator_to_object c')" for p
    proof (cases "p = row_id v r")
      case True
      with r show ?thesis using None c' by (intro bexI [of _ r]) (auto simp: cache_add_def Let_def)
    next
      case False
      then show ?thesis using that None c' cache_inv_liveD [OF inv, of p] by (auto simp: cache_add_def Let_def)
    qed
    moreover have "table_cache c' = table_cache c" "end_iterator_to_table c' = end_iterator_to_table c"
      using None c' by (auto simp: cache_add_def Let_def)
    ultimately show ?thesis
      by (intro cache_invI) (simp_all add: cache_inv_table [OF inv] cache_inv_next [OF inv])
  qed (use inv c' in \<open>auto simp: cache_add_def\<close>)
qed (use c' in \<open>auto simp: cache_add_def Let_def split: option.splits\<close>)

lemma cache_inv_mono:
  assumes inv: "cache_inv nt v rows c" and nt: "nt \<le> nt'"
    and rows: "\<And>r. r \<in> set rows \<Longrightarrow> \<exists>r' \<in> set rows'. row_id v r' = row_id v r \<and> row_table v r' = row_table v r"
  shows "cache_inv nt' v rows' c"
proof (rule cache_invI)
  show "i < nt'" if "i \<in> set (end_iterator_to_table c)" for i
    using cache_inv_next [OF inv that] nt by simp
  show "\<exists>r \<in> set rows'. row_id v r = p \<and> table_cache c (row_table v r) \<noteq> None"
    if "Some p \<in> set (iterator_to_object c)" for p
  proof -
    obtain r where "r \<in> set rows" "row_id v r = p" "table_cache c (row_table v r) \<noteq> None"
      using cache_inv_liveD [OF inv \<open>Some p \<in> _\<close>] by blast
    then show ?thesis using rows [of r] by metis
  qed
qed (rule cache_inv_table [OF inv], rule cache_inv_objD [OF inv])

lemma cache_getD:
  assumes inv: "cache_inv nt v rows c" and u: "tbl_unique (row_id v) rows" and g: "cache_get v rows c i = Inr r"
  shows "r \<in> set rows" and "object_to_iterator c (row_id v r) = Some i" and "0 \<le> i"
    and "table_cache c (row_table v r) \<noteq> None"
proof -
  obtain p where p: "0 \<le> i" "nat i < length (iterator_to_object c)" "iterator_to_object c ! nat i = Some p"
      "tbl_find (row_id v) p rows = Some r"
    using g by (auto simp: cache_get_def split: if_splits option.splits)
  have r: "r \<in> set rows" "row_id v r = p" using tbl_find_SomeD [OF p(4)] by auto
  then show "r \<in> set rows" "0 \<le> i" using p by auto
  show "object_to_iterator c (row_id v r) = Some i" using cache_inv_objD [OF inv] p r by simp
  obtain r' where r': "r' \<in> set rows" "row_id v r' = p" "table_cache c (row_table v r') \<noteq> None"
    using cache_inv_liveD [OF inv, of p] p by (metis nth_mem)
  have "r' = r" using r r' tbl_find_Some_iff [OF u] by (metis option.inject)
  with r' show "table_cache c (row_table v r) \<noteq> None" by simp
qed

lemma cache_get_obj:
  assumes "cache_inv nt v rows c" and "tbl_unique (row_id v) rows" and "r \<in> set rows"
    and "object_to_iterator c (row_id v r) = Some i"
  shows "cache_get v rows c i = Inr r" and "0 \<le> i"
proof -
  have "tbl_find (row_id v) (row_id v r) rows = Some r" using assms(2,3) by (simp add: tbl_find_Some_iff)
  then show "cache_get v rows c i = Inr r"
    using cache_inv_objD [OF assms(1), of "row_id v r" i] assms(4) by (auto simp: cache_get_def)
  show "0 \<le> i" using cache_inv_objD [OF assms(1), of "row_id v r" i] assms(4) by simp
qed

text \<open>The errors \<open>cache_get\<close> can give are the documented ones.\<close>

lemma cache_get_error:
  assumes "cache_inv nt v rows c" and "cache_get v rows c i = Inl e"
  shows "e = invalid_table_iterator \<or> e = table_operation_not_permitted"
proof (rule ccontr)
  assume *: "\<not> ?thesis"
  then obtain p where p: "0 \<le> i" "nat i < length (iterator_to_object c)" "iterator_to_object c ! nat i = Some p"
      "tbl_find (row_id v) p rows = None"
    using assms(2) by (auto simp: cache_get_def split: if_splits option.splits)
  then have "Some p \<in> set (iterator_to_object c)" by (metis nth_mem)
  then show False using cache_inv_liveD [OF assms(1)] p(4) by (auto simp: tbl_find_None_iff)
qed

lemma cache_remove_inv:
  assumes inv: "cache_inv nt v rows c" and u: "tbl_unique (row_id v) rows" and g: "cache_get v rows c i = Inr r"
  obtains c' where "cache_remove c i = Inr c'" and "cache_inv nt v (tbl_remove (row_id v) (row_id v r) rows) c'"
    and "table_cache c' = table_cache c" and "object_to_iterator c' = (object_to_iterator c)(row_id v r := None)"
proof -
  note get = cache_getD [OF inv u g]
  have i: "0 \<le> i" "nat i < length (iterator_to_object c)" "iterator_to_object c ! nat i = Some (row_id v r)"
    using cache_inv_objD [OF inv] get(2) by auto
  define c' where "c' = c\<lparr>iterator_to_object := (iterator_to_object c)[nat i := None],
      object_to_iterator := (object_to_iterator c)(row_id v r := None)\<rparr>"
  have rem: "cache_remove c i = Inr c'" using i by (auto simp: cache_remove_def c'_def)
  have obj: "object_to_iterator c' p = Some j \<longleftrightarrow>
      0 \<le> j \<and> nat j < length (iterator_to_object c') \<and> iterator_to_object c' ! nat j = Some p" for p j
    using cache_inv_objD [OF inv, of p j] cache_inv_objD [OF inv, of "row_id v r" j] get(2) i
    by (cases "j = i") (auto simp: c'_def nth_list_update)
  have live: "\<exists>q \<in> set (tbl_remove (row_id v) (row_id v r) rows). row_id v q = p \<and> table_cache c' (row_table v q) \<noteq> None"
    if p: "Some p \<in> set (iterator_to_object c')" for p
  proof -
    obtain n where n: "n < length (iterator_to_object c')" "iterator_to_object c' ! n = Some p"
      using p by (metis in_set_conv_nth)
    then have "object_to_iterator c' p = Some (int n)" using obj by simp
    then have "p \<noteq> row_id v r" "object_to_iterator c p = Some (int n)" by (auto simp: c'_def split: if_splits)
    moreover from this(2) have "Some p \<in> set (iterator_to_object c)"
      using cache_inv_objD [OF inv, of p "int n"] by (metis nth_mem)
    ultimately show ?thesis
      using cache_inv_liveD [OF inv, of p] by (auto simp: c'_def tbl_remove_def)
  qed
  have "cache_inv nt v (tbl_remove (row_id v) (row_id v r) rows) c'"
    by (rule cache_invI)
      (use obj live cache_inv_table [OF inv] cache_inv_next [OF inv] in \<open>simp_all add: c'_def\<close>)
  with rem show ?thesis by (rule that) (simp_all add: c'_def)
qed

section \<open>Tables and rows\<close>

definition tables_wf :: "nat \<Rightarrow> table_id_object list \<Rightarrow> bool" where
  "tables_wf nt ts \<longleftrightarrow> tbl_unique ti_id ts \<and> tbl_unique by_code_scope_table ts \<and> (\<forall>t \<in> set ts. ti_id t < nt)"

definition rows_wf :: "'r row_view \<Rightarrow> ('r \<Rightarrow> 'k) \<Rightarrow> nat \<Rightarrow> table_id_object list \<Rightarrow> 'r list \<Rightarrow> bool" where
  "rows_wf v key next ts rows \<longleftrightarrow> tbl_unique (row_id v) rows \<and> tbl_unique key rows \<and>
     (\<forall>r \<in> set rows. row_id v r < next \<and> row_table v r \<in> ti_id ` set ts)"

text \<open>The number of rows of table \<open>i\<close>, and the counts of all tables but those in \<open>E\<close> are positive.\<close>

definition rows_in :: "'s table_db \<Rightarrow> nat \<Rightarrow> nat" where
  "rows_in db i = length (filter (\<lambda>r. kv_t_id r = i) (key_values db)) +
     length (filter (\<lambda>r. ix_t_id r = i) (index_rows db))"

definition counts_wf :: "nat set \<Rightarrow> table_id_object list \<Rightarrow> (nat \<Rightarrow> nat) \<Rightarrow> bool" where
  "counts_wf E ts n \<longleftrightarrow> (\<forall>t \<in> set ts. unat (ti_count t) = n (ti_id t) \<and> (ti_id t \<in> E \<or> 0 < n (ti_id t)))"

definition buffer_fits :: "u8 list \<Rightarrow> bool" where
  "buffer_fits b \<longleftrightarrow> int (length b) < 2 ^ 32"

definition db_wf :: "nat set \<Rightarrow> 's table_db \<Rightarrow> bool" where
  "db_wf E db \<longleftrightarrow> tables_wf (next_table db) (tables db) \<and>
     rows_wf kv_view by_scope_primary (next_key_value db) (tables db) (key_values db) \<and>
     rows_wf ix_view by_primary (next_index db) (tables db) (index_rows db) \<and>
     counts_wf E (tables db) (rows_in db) \<and> (\<forall>r \<in> set (key_values db). buffer_fits (kv_value r))"

lemma row_views [simp]:
  "row_id kv_view = kv_id" "row_table kv_view = kv_t_id" "row_primary kv_view = kv_primary_key"
  "row_id ix_view = ix_id" "row_table ix_view = ix_t_id" "row_primary ix_view = ix_primary_key"
  by (simp_all add: kv_view_def ix_view_def)

lemma tables_wf_find:
  "tables_wf nt ts \<Longrightarrow> tbl_find ti_id i ts = Some t \<longleftrightarrow> t \<in> set ts \<and> ti_id t = i"
  "tables_wf nt ts \<Longrightarrow> tbl_find by_code_scope_table k ts = Some t \<longleftrightarrow> t \<in> set ts \<and> by_code_scope_table t = k"
  by (simp_all add: tables_wf_def tbl_find_Some_iff)

lemma tables_wf_inj: "tables_wf nt ts \<Longrightarrow> t \<in> set ts \<Longrightarrow> t' \<in> set ts \<Longrightarrow> ti_id t = ti_id t' \<Longrightarrow> t = t'"
  by (metis tables_wf_find(1) option.inject)

lemma tables_wf_snoc:
  "tables_wf nt ts \<Longrightarrow> ti_id t = nt \<Longrightarrow> tbl_find by_code_scope_table (by_code_scope_table t) ts = None \<Longrightarrow>
     tables_wf (Suc nt) (ts @ [t])"
  by (auto simp: tables_wf_def tbl_unique_snoc tbl_find_None_iff)

lemma tables_wf_remove: "tables_wf nt ts \<Longrightarrow> tables_wf nt (tbl_remove ti_id i ts)"
  by (auto simp: tables_wf_def tbl_unique_def tbl_remove_def distinct_map_filter)

text \<open>A change of the count keeps the keys of the tables.\<close>

definition count_changed :: "nat \<Rightarrow> u32 \<Rightarrow> table_id_object list \<Rightarrow> table_id_object list" where
  "count_changed i n ts = tbl_modify ti_id i (\<lambda>t. t\<lparr>ti_count := ti_count t + n\<rparr>) ts"

lemma count_changed_keys [simp]:
  "map ti_id (count_changed i n ts) = map ti_id ts"
  "map by_code_scope_table (count_changed i n ts) = map by_code_scope_table ts"
  "ti_id ` set (count_changed i n ts) = ti_id ` set ts"
proof -
  show ids: "map ti_id (count_changed i n ts) = map ti_id ts" by (simp add: count_changed_def tbl_modify_def)
  show "map by_code_scope_table (count_changed i n ts) = map by_code_scope_table ts"
    by (simp add: count_changed_def tbl_modify_def by_code_scope_table_def)
  show "ti_id ` set (count_changed i n ts) = ti_id ` set ts"
    using arg_cong [OF ids, of set] by (simp only: set_map)
qed

lemma tables_wf_count [simp]: "tables_wf nt (count_changed i n ts) \<longleftrightarrow> tables_wf nt ts"
proof -
  have "(\<forall>t \<in> set (count_changed i n ts). ti_id t < nt) \<longleftrightarrow> (\<forall>j \<in> ti_id ` set (count_changed i n ts). j < nt)"
    by blast
  then show ?thesis by (simp add: tables_wf_def tbl_unique_def)
qed

lemma rows_wf_count [simp]: "rows_wf v key next (count_changed i n ts) rows \<longleftrightarrow> rows_wf v key next ts rows"
  by (simp add: rows_wf_def)

lemma counts_wf_add:
  assumes "counts_wf {i} ts n" and "n i + 1 < 2 ^ 32"
  shows "counts_wf {} (count_changed i 1 ts) (n(i := n i + 1))"
proof -
  have "unat (ti_count t + 1) = n i + 1" if "t \<in> set ts" "ti_id t = i" for t
    using assms that by (auto simp: counts_wf_def unat_word_ariths)
  then show ?thesis using assms(1) by (auto simp: counts_wf_def count_changed_def tbl_modify_def)
qed

lemma counts_wf_sub:
  assumes "counts_wf {} ts n"
  shows "counts_wf {i} (count_changed i (- 1) ts) (n(i := n i - 1))"
proof -
  have "unat (ti_count t - 1) = n i - 1" if "t \<in> set ts" "ti_id t = i" for t
    using assms that by (auto simp: counts_wf_def unat_sub_exact word_le_nat_alt)
  then show ?thesis using assms by (auto simp: counts_wf_def count_changed_def tbl_modify_def)
qed

lemma counts_wf_remove: "counts_wf {i} ts n \<Longrightarrow> counts_wf {} (tbl_remove ti_id i ts) n"
  by (auto simp: counts_wf_def tbl_remove_def)

lemma rows_wf_find:
  "rows_wf v key next ts rows \<Longrightarrow> tbl_find (row_id v) p rows = Some r \<longleftrightarrow> r \<in> set rows \<and> row_id v r = p"
  "rows_wf v key next ts rows \<Longrightarrow> tbl_find key k rows = Some r \<longleftrightarrow> r \<in> set rows \<and> key r = k"
  by (simp_all add: rows_wf_def tbl_find_Some_iff)

lemma rows_wf_live: "rows_wf v key next ts rows \<Longrightarrow> r \<in> set rows \<Longrightarrow> row_table v r \<in> ti_id ` set ts"
  by (simp add: rows_wf_def)

lemma rows_wf_snoc:
  "rows_wf v key next ts rows \<Longrightarrow> row_id v r = next \<Longrightarrow> tbl_find key (key r) rows = None \<Longrightarrow>
     row_table v r \<in> ti_id ` set ts \<Longrightarrow> rows_wf v key (Suc next) ts (rows @ [r])"
  by (auto simp: rows_wf_def tbl_unique_snoc tbl_find_None_iff)

lemma rows_wf_remove: "rows_wf v key next ts rows \<Longrightarrow> rows_wf v key next ts (tbl_remove (row_id v) p rows)"
  by (auto simp: rows_wf_def tbl_unique_def tbl_remove_def distinct_map_filter)

lemma rows_wf_modify:
  assumes "rows_wf v key next ts rows" and f: "\<And>r. row_id v (f r) = row_id v r \<and> row_table v (f r) = row_table v r \<and> key (f r) = key r"
  shows "rows_wf v key next ts (tbl_modify (row_id v) p f rows)"
proof -
  have "map (row_id v) (tbl_modify (row_id v) p f rows) = map (row_id v) rows"
    "map key (tbl_modify (row_id v) p f rows) = map key rows"
    using f by (auto simp: tbl_modify_def)
  moreover have "row_id v r < next \<and> row_table v r \<in> ti_id ` set ts" if "r \<in> set (tbl_modify (row_id v) p f rows)" for r
    using that assms(1) f by (auto simp: tbl_modify_def rows_wf_def)
  ultimately show ?thesis using assms(1) by (simp add: rows_wf_def tbl_unique_def)
qed

lemma rows_wf_tables:
  "rows_wf v key next ts rows \<Longrightarrow> (\<And>r. r \<in> set rows \<Longrightarrow> row_table v r \<in> ti_id ` set ts \<Longrightarrow> row_table v r \<in> ti_id ` set ts') \<Longrightarrow>
     rows_wf v key next ts' rows"
  by (simp add: rows_wf_def)

lemma rows_wf_more_tables: "rows_wf v key next ts rows \<Longrightarrow> rows_wf v key next (ts @ [t]) rows"
  by (erule rows_wf_tables) simp

lemma rows_in_zero:
  "rows_in db i = 0 \<longleftrightarrow> (\<forall>r \<in> set (key_values db). kv_t_id r \<noteq> i) \<and> (\<forall>r \<in> set (index_rows db). ix_t_id r \<noteq> i)"
  by (simp add: rows_in_def filter_empty_conv)

lemma rows_in_tables [simp]:
  "rows_in (db\<lparr>tables := ts\<rparr>) = rows_in db" "rows_in (db\<lparr>next_table := n\<rparr>) = rows_in db"
  by (simp_all add: rows_in_def fun_eq_iff)

lemma length_filter_remove:
  assumes "tbl_unique key t" and "r \<in> set t"
  shows "length (filter P (tbl_remove key (key r) t)) = length (filter P t) - (if P r then 1 else 0)"
proof -
  obtain us vs where "t = us @ r # vs" "tbl_remove key (key r) t = us @ vs"
    using tbl_row_split [OF assms] by metis
  then show ?thesis by simp
qed

lemma length_filter_modify:
  "(\<And>r. P (f r) = P r) \<Longrightarrow> length (filter P (tbl_modify key k f t)) = length (filter P t)"
  by (induction t) (auto simp: tbl_modify_def)

section \<open>The invariant of a context\<close>

definition contract_inv :: "'s contract_ctx \<Rightarrow> bool" where
  "contract_inv ctx \<longleftrightarrow> db_wf {} (tdb ctx) \<and>
     cache_inv (next_table (tdb ctx)) kv_view (key_values (tdb ctx)) (keyval_cache ctx) \<and>
     cache_inv (next_table (tdb ctx)) ix_view (index_rows (tdb ctx)) (index_cache ctx)"

lemma update_db_usage_frame:
  assumes "update_db_usage info ctx a d = Inr ctx'"
  shows "tdb ctx' = tdb ctx" and "keyval_cache ctx' = keyval_cache ctx" and "index_cache ctx' = index_cache ctx"
  using assms by (auto simp: update_db_usage_def add_ram_usage_def trx_add_ram_usage_def)

lemma find_or_createE:
  assumes "find_or_create_table info ctx code scope table payer = Inr (ctx1, tab)"
  obtains (found) "find_table ctx code scope table = Some tab" and "ctx1 = ctx"
  | (created) ctx0 where "find_table ctx code scope table = None"
      and "update_db_usage info ctx payer billable_table_id_object = Inr ctx0"
      and "tab = \<lparr>ti_id = next_table (tdb ctx), ti_code = code, ti_scope = scope, ti_table = table,
              ti_payer = payer, ti_count = 0\<rparr>"
      and "ctx1 = ctx0\<lparr>tdb := (tdb ctx)\<lparr>next_table := next_table (tdb ctx) + 1, tables := tables (tdb ctx) @ [tab]\<rparr>\<rparr>"
      and "keyval_cache ctx0 = keyval_cache ctx" and "index_cache ctx0 = index_cache ctx"
proof (cases "find_table ctx code scope table")
  case None
  obtain ctx0 ts where u: "update_db_usage info ctx payer billable_table_id_object = Inr ctx0"
      "tbl_create by_code_scope_table tab (tables (tdb ctx0)) = Inr ts"
      "tab = \<lparr>ti_id = next_table (tdb ctx0), ti_code = code, ti_scope = scope, ti_table = table,
              ti_payer = payer, ti_count = 0\<rparr>"
      "ctx1 = ctx0\<lparr>tdb := (tdb ctx0)\<lparr>next_table := next_table (tdb ctx0) + 1, tables := ts\<rparr>\<rparr>"
    using assms [unfolded find_or_create_table_def None option.case bind_res_Inr_iff Let_def sum.inject prod.inject]
    by blast
  note frame = update_db_usage_frame [OF u(1)]
  have "ts = tables (tdb ctx) @ [tab]" using u(2) unfolding tbl_create_Inr_iff frame by blast
  show ?thesis
    by (rule created [OF None u(1) _ _ frame(2,3)]) (use u(3,4) frame \<open>ts = _\<close> in simp_all)
next
  case (Some t)
  show ?thesis
    using assms [unfolded find_or_create_table_def Some option.case sum.inject prod.inject] Some
    by (intro found) simp_all
qed

lemma db_wf_mono: "db_wf E db \<Longrightarrow> E \<subseteq> E' \<Longrightarrow> db_wf E' db"
  by (auto simp: db_wf_def counts_wf_def)

lemma db_wf_new_table:
  assumes wf: "db_wf {} db" and t: "ti_id t = next_table db" "ti_count t = 0"
    and new: "tbl_find by_code_scope_table (by_code_scope_table t) (tables db) = None"
  shows "db_wf {ti_id t} (db\<lparr>next_table := next_table db + 1, tables := tables db @ [t]\<rparr>)"
proof -
  have tw: "tables_wf (next_table db) (tables db)" using wf by (simp add: db_wf_def)
  have "next_table db \<notin> ti_id ` set (tables db)" using tw by (auto simp: tables_wf_def)
  then have "rows_in db (next_table db) = 0"
    using rows_wf_live [of kv_view _ _ "tables db" "key_values db"] rows_wf_live [of ix_view _ _ "tables db" "index_rows db"] wf
    unfolding rows_in_zero db_wf_def by (metis row_views(2,5))
  then have "counts_wf {ti_id t} (tables db @ [t]) (rows_in db)"
    using wf t by (auto simp: db_wf_def counts_wf_def)
  then show ?thesis
    using wf tables_wf_snoc [OF tw t(1) new] by (simp add: db_wf_def rows_wf_more_tables)
qed

lemma find_or_create_wf:
  assumes wf: "db_wf {} (tdb ctx)"
    and app: "find_or_create_table info ctx code scope table payer = Inr (ctx1, tab)"
  shows "db_wf {ti_id tab} (tdb ctx1)" and "tab \<in> set (tables (tdb ctx1))"
    and "by_code_scope_table tab = (code, scope, table)"
    and "key_values (tdb ctx1) = key_values (tdb ctx)" "next_key_value (tdb ctx1) = next_key_value (tdb ctx)"
    and "index_rows (tdb ctx1) = index_rows (tdb ctx)" "next_index (tdb ctx1) = next_index (tdb ctx)"
    and "keyval_cache ctx1 = keyval_cache ctx" "index_cache ctx1 = index_cache ctx"
    and "next_table (tdb ctx) \<le> next_table (tdb ctx1)" "ti_id tab < next_table (tdb ctx1)"
proof -
  have tw: "tables_wf (next_table (tdb ctx)) (tables (tdb ctx))" using wf by (simp add: db_wf_def)
  show "db_wf {ti_id tab} (tdb ctx1)" using app
  proof (cases rule: find_or_createE)
    case found
    then show ?thesis using db_wf_mono [OF wf] by simp
  next
    case (created ctx0)
    have "by_code_scope_table tab = (code, scope, table)" by (simp add: created(3) by_code_scope_table_def)
    then show ?thesis
      using db_wf_new_table [OF wf, of tab] created(1) by (simp add: created(3,4) find_table_def)
  qed
  show "by_code_scope_table tab = (code, scope, table)"
    using app by (cases rule: find_or_createE)
      (simp_all add: find_table_def by_code_scope_table_def tables_wf_find [OF tw])
  show "tab \<in> set (tables (tdb ctx1))"
    using app by (cases rule: find_or_createE) (simp_all add: find_table_def tables_wf_find [OF tw])
  show "ti_id tab < next_table (tdb ctx1)"
    using app by (cases rule: find_or_createE)
      (use tw in \<open>simp_all add: find_table_def tables_wf_find [OF tw], simp add: tables_wf_def\<close>)
qed (use app in \<open>cases rule: find_or_createE; simp\<close>)+

end
