(* ===== verification/Contract_Calls.thy ===== *)
theory Contract_Calls
  imports Contract_Inv
begin

text \<open>
  Every call on the contract tables keeps the invariant.  One case rule per call that changes rows
  names the charge it makes and the change of the tables; the calls that only read change nothing but
  the cache.
\<close>

section \<open>Changes of the tables\<close>

definition kv_stored :: "'s table_db \<Rightarrow> nat \<Rightarrow> u64 \<Rightarrow> u64 \<Rightarrow> u8 list \<Rightarrow> 's table_db" where
  "kv_stored db t_id payer pk buffer =
     db\<lparr>next_key_value := next_key_value db + 1,
        key_values := key_values db @ [\<lparr>kv_id = next_key_value db, kv_t_id = t_id, kv_primary_key = pk,
          kv_payer = payer, kv_value = buffer\<rparr>],
        tables := count_changed t_id 1 (tables db)\<rparr>"

definition ix_stored :: "'s table_db \<Rightarrow> nat \<Rightarrow> u64 \<Rightarrow> u64 \<Rightarrow> 's \<Rightarrow> 's table_db" where
  "ix_stored db t_id payer pk value =
     db\<lparr>next_index := next_index db + 1,
        index_rows := index_rows db @ [\<lparr>ix_id = next_index db, ix_t_id = t_id, ix_primary_key = pk,
          ix_payer = payer, ix_secondary_key = value\<rparr>],
        tables := count_changed t_id 1 (tables db)\<rparr>"

definition kv_removed :: "'s table_db \<Rightarrow> key_value_object \<Rightarrow> 's table_db" where
  "kv_removed db obj =
     db\<lparr>key_values := tbl_remove kv_id (kv_id obj) (key_values db),
        tables := count_changed (kv_t_id obj) (- 1) (tables db)\<rparr>"

definition ix_removed :: "'s table_db \<Rightarrow> 's index_object \<Rightarrow> 's table_db" where
  "ix_removed db obj =
     db\<lparr>index_rows := tbl_remove ix_id (ix_id obj) (index_rows db),
        tables := count_changed (ix_t_id obj) (- 1) (tables db)\<rparr>"

definition table_removed :: "'s table_db \<Rightarrow> nat \<Rightarrow> 's table_db" where
  "table_removed db i = db\<lparr>tables := tbl_remove ti_id i (tables db)\<rparr>"

lemma rows_in_changes:
  "rows_in (kv_stored db t payer pk b) = (rows_in db)(t := rows_in db t + 1)"
  "rows_in (ix_stored db t payer pk x) = (rows_in db)(t := rows_in db t + 1)"
  by (auto simp: rows_in_def kv_stored_def ix_stored_def fun_eq_iff)

lemma kv_stored_wf:
  assumes "db_wf {t} db" and "t \<in> ti_id ` set (tables db)" and "rows_in db t + 1 < 2 ^ 32"
    and "tbl_find by_scope_primary (t, pk) (key_values db) = None" and "buffer_fits b"
  shows "db_wf {} (kv_stored db t payer pk b)"
proof -
  have "counts_wf {} (tables (kv_stored db t payer pk b)) (rows_in (kv_stored db t payer pk b))"
    unfolding rows_in_changes using counts_wf_add [of t "tables db" "rows_in db"] assms
    by (simp add: kv_stored_def db_wf_def)
  moreover have "rows_wf kv_view by_scope_primary (next_key_value (kv_stored db t payer pk b))
      (tables (kv_stored db t payer pk b)) (key_values (kv_stored db t payer pk b))"
    using assms by (simp add: kv_stored_def db_wf_def) (rule rows_wf_snoc, simp_all add: by_scope_primary_def)
  ultimately show ?thesis using assms unfolding db_wf_def by (simp add: kv_stored_def)
qed

lemma ix_stored_wf:
  assumes "db_wf {t} db" and "t \<in> ti_id ` set (tables db)" and "rows_in db t + 1 < 2 ^ 32"
    and "tbl_find by_primary (t, pk) (index_rows db) = None"
  shows "db_wf {} (ix_stored db t payer pk x)"
proof -
  have "counts_wf {} (tables (ix_stored db t payer pk x)) (rows_in (ix_stored db t payer pk x))"
    unfolding rows_in_changes using counts_wf_add [of t "tables db" "rows_in db"] assms
    by (simp add: ix_stored_def db_wf_def)
  moreover have "rows_wf ix_view by_primary (next_index (ix_stored db t payer pk x))
      (tables (ix_stored db t payer pk x)) (index_rows (ix_stored db t payer pk x))"
    using assms by (simp add: ix_stored_def db_wf_def) (rule rows_wf_snoc, simp_all add: by_primary_def)
  ultimately show ?thesis using assms unfolding db_wf_def by (simp add: ix_stored_def)
qed

lemma kv_removed_wf:
  assumes wf: "db_wf {} db" and r: "obj \<in> set (key_values db)"
  shows "db_wf {kv_t_id obj} (kv_removed db obj)"
proof -
  have "tbl_unique kv_id (key_values db)" using wf by (simp add: db_wf_def rows_wf_def)
  note len = length_filter_remove [OF this r]
  obtain m where pos: "length (filter (\<lambda>r. kv_t_id r = kv_t_id obj) (key_values db)) = Suc m"
    using r by (cases "filter (\<lambda>r. kv_t_id r = kv_t_id obj) (key_values db)") (auto simp: filter_empty_conv)
  have "rows_in (kv_removed db obj) = (rows_in db)(kv_t_id obj := rows_in db (kv_t_id obj) - 1)"
    using pos by (auto simp: rows_in_def kv_removed_def len fun_eq_iff)
  then have "counts_wf {kv_t_id obj} (tables (kv_removed db obj)) (rows_in (kv_removed db obj))"
    using counts_wf_sub [of "tables db" "rows_in db" "kv_t_id obj"] wf by (simp add: kv_removed_def db_wf_def)
  moreover have "rows_wf kv_view by_scope_primary (next_key_value db) (tables db) (tbl_remove kv_id (kv_id obj) (key_values db))"
    using rows_wf_remove [of kv_view by_scope_primary _ "tables db" "key_values db"] wf by (simp add: db_wf_def)
  ultimately show ?thesis using wf unfolding db_wf_def by (simp add: kv_removed_def tbl_remove_def)
qed

lemma ix_removed_wf:
  assumes wf: "db_wf {} db" and r: "obj \<in> set (index_rows db)"
  shows "db_wf {ix_t_id obj} (ix_removed db obj)"
proof -
  have "tbl_unique ix_id (index_rows db)" using wf by (simp add: db_wf_def rows_wf_def)
  note len = length_filter_remove [OF this r]
  obtain m where pos: "length (filter (\<lambda>r. ix_t_id r = ix_t_id obj) (index_rows db)) = Suc m"
    using r by (cases "filter (\<lambda>r. ix_t_id r = ix_t_id obj) (index_rows db)") (auto simp: filter_empty_conv)
  have "rows_in (ix_removed db obj) = (rows_in db)(ix_t_id obj := rows_in db (ix_t_id obj) - 1)"
    using pos by (auto simp: rows_in_def ix_removed_def len fun_eq_iff)
  then have "counts_wf {ix_t_id obj} (tables (ix_removed db obj)) (rows_in (ix_removed db obj))"
    using counts_wf_sub [of "tables db" "rows_in db" "ix_t_id obj"] wf by (simp add: ix_removed_def db_wf_def)
  moreover have "rows_wf ix_view by_primary (next_index db) (tables db) (tbl_remove ix_id (ix_id obj) (index_rows db))"
    using rows_wf_remove [of ix_view by_primary _ "tables db" "index_rows db"] wf by (simp add: db_wf_def)
  ultimately show ?thesis using wf unfolding db_wf_def by (simp add: ix_removed_def)
qed

text \<open>A table whose count is zero has no rows and goes; one whose count is not zero is no exception.\<close>

lemma counted_wf:
  assumes wf: "db_wf {i} db" and t: "t \<in> set (tables db)" "ti_id t = i"
  shows "ti_count t \<noteq> 0 \<Longrightarrow> db_wf {} db" and "ti_count t = 0 \<Longrightarrow> db_wf {} (table_removed db i)"
proof -
  have n: "unat (ti_count t) = rows_in db i" using wf t by (auto simp: db_wf_def counts_wf_def)
  show "db_wf {} db" if "ti_count t \<noteq> 0"
  proof -
    have "0 < rows_in db i" using n that by (simp add: unat_gt_0 flip: n)
    then show ?thesis using wf by (auto simp: db_wf_def counts_wf_def)
  qed
  show "db_wf {} (table_removed db i)" if "ti_count t = 0"
  proof -
    have none: "\<forall>r \<in> set (key_values db). kv_t_id r \<noteq> i" "\<forall>r \<in> set (index_rows db). ix_t_id r \<noteq> i"
      using n that rows_in_zero [of db i] by auto
    have "rows_wf kv_view by_scope_primary (next_key_value db) (tbl_remove ti_id i (tables db)) (key_values db)"
      by (rule rows_wf_tables [where ts = "tables db"]) (use wf none in \<open>auto simp: db_wf_def tbl_remove_def\<close>)
    moreover have "rows_wf ix_view by_primary (next_index db) (tbl_remove ti_id i (tables db)) (index_rows db)"
      by (rule rows_wf_tables [where ts = "tables db"]) (use wf none in \<open>auto simp: db_wf_def tbl_remove_def\<close>)
    ultimately show ?thesis
      using wf counts_wf_remove [of i "tables db" "rows_in db"] tables_wf_remove [of "next_table db" "tables db" i]
      by (simp add: db_wf_def table_removed_def)
  qed
qed

section \<open>Case rules\<close>

lemma contract_invD:
  assumes "contract_inv ctx"
  shows "db_wf {} (tdb ctx)" and "tables_wf (next_table (tdb ctx)) (tables (tdb ctx))"
    and "rows_wf kv_view by_scope_primary (next_key_value (tdb ctx)) (tables (tdb ctx)) (key_values (tdb ctx))"
    and "rows_wf ix_view by_primary (next_index (tdb ctx)) (tables (tdb ctx)) (index_rows (tdb ctx))"
    and "cache_inv (next_table (tdb ctx)) kv_view (key_values (tdb ctx)) (keyval_cache ctx)"
    and "cache_inv (next_table (tdb ctx)) ix_view (index_rows (tdb ctx)) (index_cache ctx)"
    and "tbl_unique kv_id (key_values (tdb ctx))" and "tbl_unique ix_id (index_rows (tdb ctx))"
  using assms by (simp_all add: contract_inv_def db_wf_def rows_wf_def)

lemma get_tableD:
  assumes "cache_inv nt v rows c" and "get_table ts c i = Inr t"
  shows "t \<in> set ts" and "ti_id t = i"
proof -
  obtain p e where "table_cache c i = Some (p, e)" "tbl_find ti_id p ts = Some t"
    using assms(2) by (auto simp: get_table_def table_at_def split: option.splits prod.splits)
  then show "t \<in> set ts" "ti_id t = i"
    using cache_inv_tableD(1) [OF assms(1)] tbl_find_SomeD by fastforce+
qed

lemma db_storeE:
  assumes "db_store_i64_code info ctx code scope table payer id' buffer = Inr (ctx', i)"
  obtains ctx1 tab ctx2 where "find_or_create_table info ctx code scope table payer = Inr (ctx1, tab)" and "payer \<noteq> 0"
    and "tbl_find by_scope_primary (ti_id tab, id') (key_values (tdb ctx1)) = None"
    and "update_db_usage info (ctx1\<lparr>tdb := kv_stored (tdb ctx1) (ti_id tab) payer id' buffer\<rparr>) payer
           (int (length buffer) + billable_key_value_object) = Inr ctx2"
    and "cache_add (fst (cache_table (keyval_cache ctx1) (ti_id tab))) (next_key_value (tdb ctx1)) = (keyval_cache ctx', i)"
    and "ctx' = ctx2\<lparr>keyval_cache := keyval_cache ctx'\<rparr>"
proof -
  obtain ctx1 tab where fc: "find_or_create_table info ctx code scope table payer = Inr (ctx1, tab)"
    using assms unfolding db_store_i64_code_def bind_res_Inr_iff by auto
  let ?obj = "\<lparr>kv_id = next_key_value (tdb ctx1), kv_t_id = ti_id tab, kv_primary_key = id', kv_payer = payer, kv_value = buffer\<rparr>"
  let ?ctx = "\<lambda>rows. add_count (ctx1\<lparr>tdb := (tdb ctx1)\<lparr>next_key_value := next_key_value (tdb ctx1) + 1, key_values := rows\<rparr>\<rparr>) (ti_id tab) 1"
  obtain rows ctx2 where s: "payer \<noteq> 0" "tbl_create by_scope_primary ?obj (key_values (tdb ctx1)) = Inr rows"
      "update_db_usage info (?ctx rows) payer (int (length buffer) + billable_key_value_object) = Inr ctx2"
      "ctx' = ctx2\<lparr>keyval_cache := fst (cache_add (fst (cache_table (keyval_cache ctx2) (ti_id tab))) (next_key_value (tdb ctx1)))\<rparr>"
      "i = snd (cache_add (fst (cache_table (keyval_cache ctx2) (ti_id tab))) (next_key_value (tdb ctx1)))"
    using assms [unfolded db_store_i64_code_def fc bind_res_simps prod.case Let_def split_beta fst_conv snd_conv
        EOS_ASSERT_Inr_iff bind_res_Inr_iff sum.inject prod.inject key_value_object.simps]
    by (metis (no_types, lifting))
  have rows: "rows = key_values (tdb ctx1) @ [?obj]" "tbl_find by_scope_primary (ti_id tab, id') (key_values (tdb ctx1)) = None"
    using s(2) by (simp_all add: tbl_create_Inr_iff by_scope_primary_def)
  have ctx: "?ctx rows = ctx1\<lparr>tdb := kv_stored (tdb ctx1) (ti_id tab) payer id' buffer\<rparr>"
    by (simp add: add_count_def kv_stored_def count_changed_def rows(1))
  have "keyval_cache ctx2 = keyval_cache ctx1" using update_db_usage_frame(2) [OF s(3)] by (simp add: add_count_def)
  then show ?thesis
    by (intro that [OF fc s(1) rows(2) s(3) [unfolded ctx]]) (simp_all add: s(4,5))
qed

lemma db_updateE:
  assumes "db_update_i64 info ctx iterator payer buffer = Inr ctx'"
  obtains obj table_obj ctx1 payer' where "cache_get kv_view (key_values (tdb ctx)) (keyval_cache ctx) iterator = Inr obj"
    and "get_table (tables (tdb ctx)) (keyval_cache ctx) (kv_t_id obj) = Inr table_obj" and "ti_code table_obj = receiver info"
    and "payer' = (if payer = 0 then kv_payer obj else payer)"
    and "(if kv_payer obj \<noteq> payer'
          then bind_res (update_db_usage info ctx (kv_payer obj) (- (int (length (kv_value obj)) + billable_key_value_object)))
                 (\<lambda>ctx. update_db_usage info ctx payer' (int (length buffer) + billable_key_value_object))
          else if length (kv_value obj) \<noteq> length buffer
          then update_db_usage info ctx (kv_payer obj) (int (length buffer) - int (length (kv_value obj)))
          else Inr ctx) = Inr ctx1"
    and "ctx' = ctx1\<lparr>tdb := (tdb ctx1)\<lparr>key_values := tbl_modify kv_id (kv_id obj)
           (\<lambda>o'. o'\<lparr>kv_value := buffer, kv_payer := payer'\<rparr>) (key_values (tdb ctx1))\<rparr>\<rparr>"
proof -
  have sizes: "(int (length (b :: u8 list)) + billable_key_value_object \<noteq> int (length (b' :: u8 list)) + billable_key_value_object) =
      (length b \<noteq> length b')"
    "int (length b) + billable_key_value_object - (int (length b') + billable_key_value_object) = int (length b) - int (length b')" for b b'
    by simp_all
  show ?thesis
    using assms [unfolded db_update_i64_def bind_res_Inr_iff EOS_ASSERT_Inr_iff Let_def sum.inject sizes] that
    unfolding bind_res_Inr_iff by blast
qed

lemma remove_tableE:
  assumes "remove_table info ctx t = Inr ctx'"
  obtains ctx1 where "update_db_usage info ctx (ti_payer t) (- billable_table_id_object) = Inr ctx1"
    and "ctx' = ctx1\<lparr>tdb := table_removed (tdb ctx) (ti_id t)\<rparr>"
proof -
  obtain ctx1 where u: "update_db_usage info ctx (ti_payer t) (- billable_table_id_object) = Inr ctx1"
      "ctx' = ctx1\<lparr>tdb := (tdb ctx1)\<lparr>tables := tbl_remove ti_id (ti_id t) (tables (tdb ctx1))\<rparr>\<rparr>"
    using assms [unfolded remove_table_def bind_res_Inr_iff sum.inject] by blast
  show ?thesis
    by (rule that [OF u(1)]) (simp add: u(2) table_removed_def update_db_usage_frame(1) [OF u(1)])
qed

text \<open>The end of both removals: the table goes when its count has become zero.\<close>

definition drop_empty :: "'d apply_info \<Rightarrow> 's contract_ctx \<Rightarrow> table_id_object \<Rightarrow> 's contract_ctx res" where
  "drop_empty info ctx t = (if ti_count t - 1 = 0 then remove_table info ctx (t\<lparr>ti_count := ti_count t - 1\<rparr>) else Inr ctx)"

lemma count_update: "ti_count (t\<lparr>ti_count := n\<rparr>) = n"
  by simp

lemma db_removeE:
  assumes "db_remove_i64 info ctx iterator = Inr ctx'"
    and inv: "contract_inv ctx"
  obtains obj table_obj ctx1 ctx2 where "cache_get kv_view (key_values (tdb ctx)) (keyval_cache ctx) iterator = Inr obj"
    and "get_table (tables (tdb ctx)) (keyval_cache ctx) (kv_t_id obj) = Inr table_obj" and "ti_code table_obj = receiver info"
    and "update_db_usage info ctx (kv_payer obj) (- (int (length (kv_value obj)) + billable_key_value_object)) = Inr ctx1"
    and "drop_empty info (ctx1\<lparr>tdb := kv_removed (tdb ctx) obj\<rparr>) table_obj = Inr ctx2"
    and "cache_remove (keyval_cache ctx) iterator = Inr (keyval_cache ctx')"
    and "ctx' = ctx2\<lparr>keyval_cache := keyval_cache ctx'\<rparr>"
proof -
  obtain obj table_obj ctx1 ctx2 c where s: "cache_get kv_view (key_values (tdb ctx)) (keyval_cache ctx) iterator = Inr obj"
      "get_table (tables (tdb ctx)) (keyval_cache ctx) (kv_t_id obj) = Inr table_obj" "ti_code table_obj = receiver info"
      "update_db_usage info ctx (kv_payer obj) (- (int (length (kv_value obj)) + billable_key_value_object)) = Inr ctx1"
      "drop_empty info ((add_count ctx1 (ti_id table_obj) (- 1))\<lparr>tdb := (tdb (add_count ctx1 (ti_id table_obj) (- 1)))
         \<lparr>key_values := tbl_remove kv_id (kv_id obj) (key_values (tdb (add_count ctx1 (ti_id table_obj) (- 1))))\<rparr>\<rparr>) table_obj = Inr ctx2"
      "cache_remove (keyval_cache ctx2) iterator = Inr c" "ctx' = ctx2\<lparr>keyval_cache := c\<rparr>"
    using assms(1) [unfolded db_remove_i64_def bind_res_Inr_iff EOS_ASSERT_Inr_iff Let_def sum.inject count_update]
    unfolding drop_empty_def by blast
  note frame = update_db_usage_frame [OF s(4)]
  have "(add_count ctx1 (ti_id table_obj) (- 1))\<lparr>tdb := (tdb (add_count ctx1 (ti_id table_obj) (- 1)))
         \<lparr>key_values := tbl_remove kv_id (kv_id obj) (key_values (tdb (add_count ctx1 (ti_id table_obj) (- 1))))\<rparr>\<rparr> =
      ctx1\<lparr>tdb := kv_removed (tdb ctx) obj\<rparr>"
    by (simp add: add_count_def kv_removed_def count_changed_def frame get_tableD(2) [OF contract_invD(5) [OF inv] s(2)])
  note d = s(5) [unfolded this]
  have "keyval_cache ctx2 = keyval_cache ctx"
    using d frame(2) unfolding drop_empty_def
    by (auto elim!: remove_tableE dest!: update_db_usage_frame(2) split: if_splits)
  then show ?thesis
    by (intro that [OF s(1-4) d]) (use s(6,7) in simp_all)
qed

lemma idx_storeE:
  assumes "idx_store sz info ctx scope table payer id' value = Inr (ctx', i)"
  obtains ctx1 tab ctx2 where "find_or_create_table info ctx (receiver info) scope table payer = Inr (ctx1, tab)" and "payer \<noteq> 0"
    and "tbl_find by_primary (ti_id tab, id') (index_rows (tdb ctx1)) = None"
    and "update_db_usage info (ctx1\<lparr>tdb := ix_stored (tdb ctx1) (ti_id tab) payer id' value\<rparr>) payer sz = Inr ctx2"
    and "cache_add (fst (cache_table (index_cache ctx1) (ti_id tab))) (next_index (tdb ctx1)) = (index_cache ctx', i)"
    and "ctx' = ctx2\<lparr>index_cache := index_cache ctx'\<rparr>"
proof -
  obtain ctx1 tab where fc: "find_or_create_table info ctx (receiver info) scope table payer = Inr (ctx1, tab)"
    using assms unfolding idx_store_def bind_res_Inr_iff EOS_ASSERT_Inr_iff by auto
  let ?obj = "\<lparr>ix_id = next_index (tdb ctx1), ix_t_id = ti_id tab, ix_primary_key = id', ix_payer = payer, ix_secondary_key = value\<rparr>"
  let ?ctx = "\<lambda>rows. add_count (ctx1\<lparr>tdb := (tdb ctx1)\<lparr>next_index := next_index (tdb ctx1) + 1, index_rows := rows\<rparr>\<rparr>) (ti_id tab) 1"
  obtain rows ctx2 where s: "payer \<noteq> 0" "tbl_create by_primary ?obj (index_rows (tdb ctx1)) = Inr rows"
      "update_db_usage info (?ctx rows) payer sz = Inr ctx2"
      "ctx' = ctx2\<lparr>index_cache := fst (cache_add (fst (cache_table (index_cache ctx2) (ti_id tab))) (next_index (tdb ctx1)))\<rparr>"
      "i = snd (cache_add (fst (cache_table (index_cache ctx2) (ti_id tab))) (next_index (tdb ctx1)))"
    using assms [unfolded idx_store_def fc bind_res_simps prod.case Let_def split_beta fst_conv snd_conv
        EOS_ASSERT_Inr_iff bind_res_Inr_iff sum.inject prod.inject index_object.simps]
    by (metis (no_types, lifting))
  have rows: "rows = index_rows (tdb ctx1) @ [?obj]" "tbl_find by_primary (ti_id tab, id') (index_rows (tdb ctx1)) = None"
    using s(2) by (simp_all add: tbl_create_Inr_iff by_primary_def)
  have ctx: "?ctx rows = ctx1\<lparr>tdb := ix_stored (tdb ctx1) (ti_id tab) payer id' value\<rparr>"
    by (simp add: add_count_def ix_stored_def count_changed_def rows(1))
  have "index_cache ctx2 = index_cache ctx1" using update_db_usage_frame(3) [OF s(3)] by (simp add: add_count_def)
  then show ?thesis
    by (intro that [OF fc s(1) rows(2) s(3) [unfolded ctx]]) (simp_all add: s(4,5))
qed

lemma idx_updateE:
  assumes "idx_update sz info ctx iterator payer secondary = Inr ctx'"
  obtains obj table_obj ctx1 payer' where "cache_get ix_view (index_rows (tdb ctx)) (index_cache ctx) iterator = Inr obj"
    and "get_table (tables (tdb ctx)) (index_cache ctx) (ix_t_id obj) = Inr table_obj" and "ti_code table_obj = receiver info"
    and "payer' = (if payer = 0 then ix_payer obj else payer)"
    and "(if ix_payer obj \<noteq> payer'
          then bind_res (update_db_usage info ctx (ix_payer obj) (- sz)) (\<lambda>ctx. update_db_usage info ctx payer' sz)
          else Inr ctx) = Inr ctx1"
    and "ctx' = ctx1\<lparr>tdb := (tdb ctx1)\<lparr>index_rows := tbl_modify ix_id (ix_id obj)
           (\<lambda>o'. o'\<lparr>ix_secondary_key := secondary, ix_payer := payer'\<rparr>) (index_rows (tdb ctx1))\<rparr>\<rparr>"
  using assms [unfolded idx_update_def bind_res_Inr_iff EOS_ASSERT_Inr_iff Let_def sum.inject] that
  unfolding bind_res_Inr_iff by blast

lemma idx_removeE:
  assumes "idx_remove sz info ctx iterator = Inr ctx'"
    and inv: "contract_inv ctx"
  obtains obj table_obj ctx1 ctx2 where "cache_get ix_view (index_rows (tdb ctx)) (index_cache ctx) iterator = Inr obj"
    and "get_table (tables (tdb ctx)) (index_cache ctx) (ix_t_id obj) = Inr table_obj" and "ti_code table_obj = receiver info"
    and "update_db_usage info ctx (ix_payer obj) (- sz) = Inr ctx1"
    and "drop_empty info (ctx1\<lparr>tdb := ix_removed (tdb ctx) obj\<rparr>) table_obj = Inr ctx2"
    and "cache_remove (index_cache ctx) iterator = Inr (index_cache ctx')"
    and "ctx' = ctx2\<lparr>index_cache := index_cache ctx'\<rparr>"
proof -
  obtain obj table_obj ctx1 ctx2 c where s0: "cache_get ix_view (index_rows (tdb ctx)) (index_cache ctx) iterator = Inr obj"
      "update_db_usage info ctx (ix_payer obj) (- sz) = Inr ctx1"
      "get_table (tables (tdb ctx1)) (index_cache ctx1) (ix_t_id obj) = Inr table_obj" "ti_code table_obj = receiver info"
      "drop_empty info ((add_count ctx1 (ti_id table_obj) (- 1))\<lparr>tdb := (tdb (add_count ctx1 (ti_id table_obj) (- 1)))
         \<lparr>index_rows := tbl_remove ix_id (ix_id obj) (index_rows (tdb (add_count ctx1 (ti_id table_obj) (- 1))))\<rparr>\<rparr>) table_obj = Inr ctx2"
      "cache_remove (index_cache ctx2) iterator = Inr c" "ctx' = ctx2\<lparr>index_cache := c\<rparr>"
    using assms(1) [unfolded idx_remove_def bind_res_Inr_iff EOS_ASSERT_Inr_iff Let_def sum.inject count_update]
    unfolding drop_empty_def by blast
  note frame = update_db_usage_frame [OF s0(2)]
  note g = s0(3) [unfolded frame]
  have "(add_count ctx1 (ti_id table_obj) (- 1))\<lparr>tdb := (tdb (add_count ctx1 (ti_id table_obj) (- 1)))
         \<lparr>index_rows := tbl_remove ix_id (ix_id obj) (index_rows (tdb (add_count ctx1 (ti_id table_obj) (- 1))))\<rparr>\<rparr> =
      ctx1\<lparr>tdb := ix_removed (tdb ctx) obj\<rparr>"
    by (simp add: add_count_def ix_removed_def count_changed_def frame get_tableD(2) [OF contract_invD(6) [OF inv] g])
  note d = s0(5) [unfolded this]
  have "index_cache ctx2 = index_cache ctx"
    using d frame(3) unfolding drop_empty_def
    by (auto elim!: remove_tableE dest!: update_db_usage_frame(3) split: if_splits)
  then show ?thesis
    by (intro that [OF s0(1) g s0(4,2) d]) (use s0(6,7) in simp_all)
qed

section \<open>The calls keep the invariant\<close>

text \<open>The table of a row that was got from the cache is there.\<close>

lemma get_table_ok:
  assumes c: "cache_inv nt v rows c" and u: "rows_wf v key n ts rows" and g: "cache_get v rows c i = Inr r"
  obtains t where "get_table ts c (row_table v r) = Inr t" and "t \<in> set ts" and "ti_id t = row_table v r"
proof -
  have uni: "tbl_unique (row_id v) rows" using u by (simp add: rows_wf_def)
  note get = cache_getD [OF c uni g]
  obtain e where e: "table_cache c (row_table v r) = Some (row_table v r, e)"
    using get(4) cache_inv_tableD(1) [OF c] by fastforce
  have "tbl_find ti_id (row_table v r) ts \<noteq> None"
    using rows_wf_live [OF u get(1)] by (simp add: tbl_find_None_iff)
  with e obtain t where "get_table ts c (row_table v r) = Inr t"
    by (auto simp: get_table_def table_at_def)
  with get_tableD [OF c this] show ?thesis by (rule that [rotated]) 
qed

definition rows_total :: "'s table_db \<Rightarrow> nat" where
  "rows_total db = length (key_values db) + length (index_rows db)"

lemma rows_in_le_total: "rows_in db i \<le> rows_total db"
  by (simp add: rows_in_def rows_total_def add_mono)

lemma kv_store_inv:
  assumes inv: "contract_inv ctx" and app: "db_store_i64_code info ctx code scope table payer id' buffer = Inr (ctx', i)"
    and fits: "buffer_fits buffer" and room: "rows_total (tdb ctx) + 1 < 2 ^ 32"
  shows "contract_inv ctx'" and "object_to_iterator (keyval_cache ctx') (next_key_value (tdb ctx)) = Some i"
proof -
  note wf = contract_invD [OF inv]
  obtain ctx1 tab ctx2 where s: "find_or_create_table info ctx code scope table payer = Inr (ctx1, tab)"
      "tbl_find by_scope_primary (ti_id tab, id') (key_values (tdb ctx1)) = None"
      "update_db_usage info (ctx1\<lparr>tdb := kv_stored (tdb ctx1) (ti_id tab) payer id' buffer\<rparr>) payer
           (int (length buffer) + billable_key_value_object) = Inr ctx2"
      "cache_add (fst (cache_table (keyval_cache ctx1) (ti_id tab))) (next_key_value (tdb ctx1)) = (keyval_cache ctx', i)"
      "ctx' = ctx2\<lparr>keyval_cache := keyval_cache ctx'\<rparr>"
    using db_storeE [OF app] by metis
  note fc = find_or_create_wf [OF wf(1) s(1)]
  let ?db = "kv_stored (tdb ctx1) (ti_id tab) payer id' buffer"
  have "rows_in (tdb ctx1) (ti_id tab) + 1 < 2 ^ 32"
    using rows_in_le_total [of "tdb ctx1" "ti_id tab"] room by (simp add: rows_total_def fc)
  then have db: "db_wf {} ?db" using kv_stored_wf [OF fc(1) _ _ s(2) fits] fc(2) by simp
  note frame = update_db_usage_frame [OF s(3), simplified]
  obtain c e where ct: "cache_table (keyval_cache ctx1) (ti_id tab) = (c, e)" by (metis surj_pair)
  have kc: "cache_inv (next_table ?db) kv_view (key_values ?db) (keyval_cache ctx1)"
    unfolding fc(8) by (rule cache_inv_mono [OF wf(5)]) (auto simp: kv_stored_def fc)
  have lt: "ti_id tab < next_table ?db" using fc(11) by (simp add: kv_stored_def)
  note ci = cache_table_inv [OF kc lt ct]
  let ?r = "\<lparr>kv_id = next_key_value (tdb ctx1), kv_t_id = ti_id tab, kv_primary_key = id', kv_payer = payer, kv_value = buffer\<rparr>"
  have "?r \<in> set (key_values ?db)" "table_cache c (row_table kv_view ?r) \<noteq> None"
    using ci(2) by (simp_all add: kv_stored_def)
  note ca = cache_add_inv [OF ci(1) this, of "keyval_cache ctx'" i]
  have add: "cache_add c (row_id kv_view ?r) = (keyval_cache ctx', i)" using s(4) ct by simp
  have "cache_inv (next_table ?db) ix_view (index_rows ?db) (index_cache ctx)"
    by (rule cache_inv_mono [OF wf(6)]) (auto simp: kv_stored_def fc)
  moreover have "tdb ctx' = ?db" "index_cache ctx' = index_cache ctx"
    using arg_cong [OF s(5), of tdb] arg_cong [OF s(5), of index_cache] frame fc(9) by simp_all
  ultimately show "contract_inv ctx'" using db ca(1) [OF add] by (simp add: contract_inv_def)
  show "object_to_iterator (keyval_cache ctx') (next_key_value (tdb ctx)) = Some i"
    using ca(2) [OF add] fc(5) by simp
qed

lemma ix_store_inv:
  assumes inv: "contract_inv ctx" and app: "idx_store sz info ctx scope table payer id' value = Inr (ctx', i)"
    and room: "rows_total (tdb ctx) + 1 < 2 ^ 32"
  shows "contract_inv ctx'" and "object_to_iterator (index_cache ctx') (next_index (tdb ctx)) = Some i"
proof -
  note wf = contract_invD [OF inv]
  obtain ctx1 tab ctx2 where s: "find_or_create_table info ctx (receiver info) scope table payer = Inr (ctx1, tab)"
      "tbl_find by_primary (ti_id tab, id') (index_rows (tdb ctx1)) = None"
      "update_db_usage info (ctx1\<lparr>tdb := ix_stored (tdb ctx1) (ti_id tab) payer id' value\<rparr>) payer sz = Inr ctx2"
      "cache_add (fst (cache_table (index_cache ctx1) (ti_id tab))) (next_index (tdb ctx1)) = (index_cache ctx', i)"
      "ctx' = ctx2\<lparr>index_cache := index_cache ctx'\<rparr>"
    using idx_storeE [OF app] by metis
  note fc = find_or_create_wf [OF wf(1) s(1)]
  let ?db = "ix_stored (tdb ctx1) (ti_id tab) payer id' value"
  have "rows_in (tdb ctx1) (ti_id tab) + 1 < 2 ^ 32"
    using rows_in_le_total [of "tdb ctx1" "ti_id tab"] room by (simp add: rows_total_def fc)
  then have db: "db_wf {} ?db" using ix_stored_wf [OF fc(1) _ _ s(2)] fc(2) by simp
  note frame = update_db_usage_frame [OF s(3), simplified]
  obtain c e where ct: "cache_table (index_cache ctx1) (ti_id tab) = (c, e)" by (metis surj_pair)
  have kc: "cache_inv (next_table ?db) ix_view (index_rows ?db) (index_cache ctx1)"
    unfolding fc(9) by (rule cache_inv_mono [OF wf(6)]) (auto simp: ix_stored_def fc)
  have lt: "ti_id tab < next_table ?db" using fc(11) by (simp add: ix_stored_def)
  note ci = cache_table_inv [OF kc lt ct]
  let ?r = "\<lparr>ix_id = next_index (tdb ctx1), ix_t_id = ti_id tab, ix_primary_key = id', ix_payer = payer, ix_secondary_key = value\<rparr>"
  have "?r \<in> set (index_rows ?db)" "table_cache c (row_table ix_view ?r) \<noteq> None"
    using ci(2) by (simp_all add: ix_stored_def)
  note ca = cache_add_inv [OF ci(1) this, of "index_cache ctx'" i]
  have add: "cache_add c (row_id ix_view ?r) = (index_cache ctx', i)" using s(4) ct by simp
  have "cache_inv (next_table ?db) kv_view (key_values ?db) (keyval_cache ctx)"
    by (rule cache_inv_mono [OF wf(5)]) (auto simp: ix_stored_def fc)
  moreover have "tdb ctx' = ?db" "keyval_cache ctx' = keyval_cache ctx"
    using arg_cong [OF s(5), of tdb] arg_cong [OF s(5), of keyval_cache] frame fc(8) by simp_all
  ultimately show "contract_inv ctx'" using db ca(1) [OF add] by (simp add: contract_inv_def)
  show "object_to_iterator (index_cache ctx') (next_index (tdb ctx)) = Some i"
    using ca(2) [OF add] fc(7) by simp
qed

text \<open>A change of a row that keeps its keys, after charges.\<close>

lemma kv_modified_wf:
  assumes "db_wf E db" and "buffer_fits buffer"
  shows "db_wf E (db\<lparr>key_values := tbl_modify kv_id p (\<lambda>o'. o'\<lparr>kv_value := buffer, kv_payer := payer\<rparr>) (key_values db)\<rparr>)"
proof -
  have "rows_in (db\<lparr>key_values := tbl_modify kv_id p (\<lambda>o'. o'\<lparr>kv_value := buffer, kv_payer := payer\<rparr>) (key_values db)\<rparr>) = rows_in db"
    by (simp add: rows_in_def fun_eq_iff length_filter_modify)
  then show ?thesis
    using assms rows_wf_modify [of kv_view by_scope_primary _ "tables db" "key_values db"
        "\<lambda>o'. o'\<lparr>kv_value := buffer, kv_payer := payer\<rparr>" p]
    by (auto simp: db_wf_def by_scope_primary_def tbl_modify_def)
qed

lemma ix_modified_wf:
  assumes "db_wf E db"
  shows "db_wf E (db\<lparr>index_rows := tbl_modify ix_id p (\<lambda>o'. o'\<lparr>ix_secondary_key := x, ix_payer := payer\<rparr>) (index_rows db)\<rparr>)"
proof -
  have "rows_in (db\<lparr>index_rows := tbl_modify ix_id p (\<lambda>o'. o'\<lparr>ix_secondary_key := x, ix_payer := payer\<rparr>) (index_rows db)\<rparr>) = rows_in db"
    by (simp add: rows_in_def fun_eq_iff length_filter_modify)
  then show ?thesis
    using assms rows_wf_modify [of ix_view by_primary _ "tables db" "index_rows db"
        "\<lambda>o'. o'\<lparr>ix_secondary_key := x, ix_payer := payer\<rparr>" p]
    by (simp add: db_wf_def by_primary_def)
qed

lemma cache_inv_modify:
  assumes "cache_inv nt v rows c" and "\<And>r. row_id v (f r) = row_id v r \<and> row_table v (f r) = row_table v r"
  shows "cache_inv nt v (tbl_modify (row_id v) p f rows) c"
proof (rule cache_inv_mono [OF assms(1) order_refl])
  show "\<exists>r' \<in> set (tbl_modify (row_id v) p f rows). row_id v r' = row_id v r \<and> row_table v r' = row_table v r"
    if "r \<in> set rows" for r
    using that assms(2) by (intro bexI [of _ "if row_id v r = p then f r else r"]) (auto simp: tbl_modify_def)
qed

lemma move_frame:
  assumes "bind_res (update_db_usage info ctx a d) (\<lambda>ctx. update_db_usage info ctx b e) = Inr ctx1"
  shows "tdb ctx1 = tdb ctx \<and> keyval_cache ctx1 = keyval_cache ctx \<and> index_cache ctx1 = index_cache ctx"
proof -
  obtain ctx0 where c: "update_db_usage info ctx a d = Inr ctx0" "update_db_usage info ctx0 b e = Inr ctx1"
    using assms by auto
  show ?thesis using update_db_usage_frame [OF c(1)] update_db_usage_frame [OF c(2)] by simp
qed

lemma kv_update_inv:
  assumes inv: "contract_inv ctx" and app: "db_update_i64 info ctx iterator payer buffer = Inr ctx'"
    and fits: "buffer_fits buffer"
  shows "contract_inv ctx'"
  using app
proof (cases rule: db_updateE)
  case (1 obj table_obj ctx1 payer')
  have f: "tdb ctx1 = tdb ctx \<and> keyval_cache ctx1 = keyval_cache ctx \<and> index_cache ctx1 = index_cache ctx"
  proof (cases "kv_payer obj \<noteq> payer'")
    case True
    with 1(5) show ?thesis by (intro move_frame) simp
  next
    case False
    with 1(5) show ?thesis
      using update_db_usage_frame [of info ctx "kv_payer obj" _ ctx1] by (simp split: if_splits)
  qed
  have "cache_inv (next_table (tdb ctx)) kv_view (tbl_modify kv_id (kv_id obj)
      (\<lambda>o'. o'\<lparr>kv_value := buffer, kv_payer := payer'\<rparr>) (key_values (tdb ctx))) (keyval_cache ctx)"
    using cache_inv_modify [OF contract_invD(5) [OF inv]] by simp
  then show ?thesis
    using kv_modified_wf [OF contract_invD(1) [OF inv] fits] contract_invD(6) [OF inv] f
    by (simp add: 1(6) contract_inv_def)
qed

lemma ix_update_inv:
  assumes inv: "contract_inv ctx" and app: "idx_update sz info ctx iterator payer secondary = Inr ctx'"
  shows "contract_inv ctx'"
  using app
proof (cases rule: idx_updateE)
  case (1 obj table_obj ctx1 payer')
  have f: "tdb ctx1 = tdb ctx \<and> keyval_cache ctx1 = keyval_cache ctx \<and> index_cache ctx1 = index_cache ctx"
  proof (cases "ix_payer obj \<noteq> payer'")
    case True
    with 1(5) show ?thesis by (intro move_frame) simp
  qed (use 1(5) in simp)
  have "cache_inv (next_table (tdb ctx)) ix_view (tbl_modify ix_id (ix_id obj)
      (\<lambda>o'. o'\<lparr>ix_secondary_key := secondary, ix_payer := payer'\<rparr>) (index_rows (tdb ctx))) (index_cache ctx)"
    using cache_inv_modify [OF contract_invD(6) [OF inv]] by simp
  then show ?thesis
    using ix_modified_wf [OF contract_invD(1) [OF inv]] contract_invD(5) [OF inv] f
    by (simp add: 1(6) contract_inv_def)
qed

lemma drop_empty_wf:
  assumes wf: "db_wf {i} (tdb ctx)" and t': "t' \<in> set (tables (tdb ctx))" "ti_id t' = i" "ti_count t' = ti_count t - 1"
    and t: "ti_id t = i" and app: "drop_empty info ctx t = Inr ctx'"
  shows "db_wf {} (tdb ctx')" and "key_values (tdb ctx') = key_values (tdb ctx)" and "index_rows (tdb ctx') = index_rows (tdb ctx)"
    and "next_table (tdb ctx') = next_table (tdb ctx)" and "keyval_cache ctx' = keyval_cache ctx" and "index_cache ctx' = index_cache ctx"
proof -
  have "db_wf {} (tdb ctx') \<and> key_values (tdb ctx') = key_values (tdb ctx) \<and> index_rows (tdb ctx') = index_rows (tdb ctx) \<and>
    next_table (tdb ctx') = next_table (tdb ctx) \<and> keyval_cache ctx' = keyval_cache ctx \<and> index_cache ctx' = index_cache ctx"
  proof (cases "ti_count t - 1 = 0")
    case True
    then have rm: "remove_table info ctx (t\<lparr>ti_count := ti_count t - 1\<rparr>) = Inr ctx'"
      using app by (simp add: drop_empty_def)
    obtain ctx1 where c: "update_db_usage info ctx (ti_payer (t\<lparr>ti_count := ti_count t - 1\<rparr>)) (- billable_table_id_object) = Inr ctx1"
        "ctx' = ctx1\<lparr>tdb := table_removed (tdb ctx) (ti_id (t\<lparr>ti_count := ti_count t - 1\<rparr>))\<rparr>"
      by (rule remove_tableE [OF rm])
    then show ?thesis
      using counted_wf(2) [OF wf t'(1,2)] True t' t update_db_usage_frame [OF c(1)] by (simp add: table_removed_def)
  next
    case False
    then show ?thesis using counted_wf(1) [OF wf t'(1,2)] t' app by (simp add: drop_empty_def)
  qed
  then show "db_wf {} (tdb ctx')" and "key_values (tdb ctx') = key_values (tdb ctx)" and "index_rows (tdb ctx') = index_rows (tdb ctx)"
    and "next_table (tdb ctx') = next_table (tdb ctx)" and "keyval_cache ctx' = keyval_cache ctx" and "index_cache ctx' = index_cache ctx"
    by simp_all
qed

lemma count_changed_mem:
  "t \<in> set ts \<Longrightarrow> \<exists>t' \<in> set (count_changed (ti_id t) n ts). ti_id t' = ti_id t \<and> ti_count t' = ti_count t + n"
  by (rule bexI [of _ "t\<lparr>ti_count := ti_count t + n\<rparr>"]) (auto simp: count_changed_def tbl_modify_def)

lemma kv_remove_inv:
  assumes inv: "contract_inv ctx" and app: "db_remove_i64 info ctx iterator = Inr ctx'"
  shows "contract_inv ctx'"
proof -
  note wf = contract_invD [OF inv]
  obtain obj t ctx1 ctx2 where s: "cache_get kv_view (key_values (tdb ctx)) (keyval_cache ctx) iterator = Inr obj"
      "get_table (tables (tdb ctx)) (keyval_cache ctx) (kv_t_id obj) = Inr t"
      "update_db_usage info ctx (kv_payer obj) (- (int (length (kv_value obj)) + billable_key_value_object)) = Inr ctx1"
      "drop_empty info (ctx1\<lparr>tdb := kv_removed (tdb ctx) obj\<rparr>) t = Inr ctx2"
      "cache_remove (keyval_cache ctx) iterator = Inr (keyval_cache ctx')" "ctx' = ctx2\<lparr>keyval_cache := keyval_cache ctx'\<rparr>"
    using db_removeE [OF app inv] by metis
  have u: "tbl_unique (row_id kv_view) (key_values (tdb ctx))" using wf(7) by simp
  note get = cache_getD [OF wf(5) u s(1)] and t = get_tableD [OF wf(5) s(2)] and fr = update_db_usage_frame [OF s(3)]
  obtain t' where t': "t' \<in> set (tables (tdb (ctx1\<lparr>tdb := kv_removed (tdb ctx) obj\<rparr>)))" "ti_id t' = kv_t_id obj" "ti_count t' = ti_count t - 1"
    using count_changed_mem [OF t(1), of "- 1"] t(2) by (auto simp: kv_removed_def)
  have "db_wf {kv_t_id obj} (tdb (ctx1\<lparr>tdb := kv_removed (tdb ctx) obj\<rparr>))"
    using kv_removed_wf [OF wf(1) get(1)] by simp
  note d = drop_empty_wf [OF this t' t(2) s(4), simplified]
  obtain c' where "cache_remove (keyval_cache ctx) iterator = Inr c'"
      "cache_inv (next_table (tdb ctx)) kv_view (tbl_remove kv_id (kv_id obj) (key_values (tdb ctx))) c'"
    using cache_remove_inv [OF wf(5) u s(1)] by auto
  then have "cache_inv (next_table (tdb ctx)) kv_view (tbl_remove kv_id (kv_id obj) (key_values (tdb ctx))) (keyval_cache ctx')"
    using s(5) by simp
  moreover have "tdb ctx' = tdb ctx2" "index_cache ctx' = index_cache ctx2"
    using arg_cong [OF s(6), of tdb] arg_cong [OF s(6), of index_cache] by simp_all
  ultimately show ?thesis
    using d wf(6) fr by (simp add: contract_inv_def kv_removed_def)
qed

lemma ix_remove_inv:
  assumes inv: "contract_inv ctx" and app: "idx_remove sz info ctx iterator = Inr ctx'"
  shows "contract_inv ctx'"
proof -
  note wf = contract_invD [OF inv]
  obtain obj t ctx1 ctx2 where s: "cache_get ix_view (index_rows (tdb ctx)) (index_cache ctx) iterator = Inr obj"
      "get_table (tables (tdb ctx)) (index_cache ctx) (ix_t_id obj) = Inr t"
      "update_db_usage info ctx (ix_payer obj) (- sz) = Inr ctx1"
      "drop_empty info (ctx1\<lparr>tdb := ix_removed (tdb ctx) obj\<rparr>) t = Inr ctx2"
      "cache_remove (index_cache ctx) iterator = Inr (index_cache ctx')" "ctx' = ctx2\<lparr>index_cache := index_cache ctx'\<rparr>"
    using idx_removeE [OF app inv] by metis
  have u: "tbl_unique (row_id ix_view) (index_rows (tdb ctx))" using wf(8) by simp
  note get = cache_getD [OF wf(6) u s(1)] and t = get_tableD [OF wf(6) s(2)] and fr = update_db_usage_frame [OF s(3)]
  obtain t' where t': "t' \<in> set (tables (tdb (ctx1\<lparr>tdb := ix_removed (tdb ctx) obj\<rparr>)))" "ti_id t' = ix_t_id obj" "ti_count t' = ti_count t - 1"
    using count_changed_mem [OF t(1), of "- 1"] t(2) by (auto simp: ix_removed_def)
  have "db_wf {ix_t_id obj} (tdb (ctx1\<lparr>tdb := ix_removed (tdb ctx) obj\<rparr>))"
    using ix_removed_wf [OF wf(1) get(1)] by simp
  note d = drop_empty_wf [OF this t' t(2) s(4), simplified]
  obtain c' where "cache_remove (index_cache ctx) iterator = Inr c'"
      "cache_inv (next_table (tdb ctx)) ix_view (tbl_remove ix_id (ix_id obj) (index_rows (tdb ctx))) c'"
    using cache_remove_inv [OF wf(6) u s(1)] by auto
  then have "cache_inv (next_table (tdb ctx)) ix_view (tbl_remove ix_id (ix_id obj) (index_rows (tdb ctx))) (index_cache ctx')"
    using s(5) by simp
  moreover have "tdb ctx' = tdb ctx2" "keyval_cache ctx' = keyval_cache ctx2"
    using arg_cong [OF s(6), of tdb] arg_cong [OF s(6), of keyval_cache] by simp_all
  ultimately show ?thesis
    using d wf(5) fr by (simp add: contract_inv_def ix_removed_def)
qed

end
