(* ===== verification/Contract_Cursor.thy ===== *)
theory Contract_Cursor
  imports Contract_Calls
begin

text \<open>
  The calls that read: moving an iterator, the lookups and the bounds.  They keep the invariant, fail
  only with the documented errors, and give the iterator of the row the order of the index names.
\<close>

section \<open>Moving an iterator\<close>

text \<open>What a cursor works on: rows with unique identifiers and keys that begin with the table.\<close>

definition cursor_wf :: "nat \<Rightarrow> 'r row_view \<Rightarrow> ('r \<Rightarrow> 'k::linorder) \<Rightarrow> 'r list \<Rightarrow> iterator_cache \<Rightarrow> bool" where
  "cursor_wf nt v key rows c \<longleftrightarrow> cache_inv nt v rows c \<and> tbl_unique (row_id v) rows \<and> tbl_unique key rows \<and>
     (\<forall>x y. key x \<le> key y \<longrightarrow> row_table v x \<le> row_table v y)"

lemma by_secondary_unique: "tbl_unique by_primary rows \<Longrightarrow> tbl_unique by_secondary rows"
  by (auto simp: tbl_unique_def distinct_map inj_on_def by_primary_def by_secondary_def)

lemma key_begins_with_table:
  "by_scope_primary x \<le> by_scope_primary y \<Longrightarrow> kv_t_id x \<le> kv_t_id y"
  "by_primary a \<le> by_primary b \<Longrightarrow> ix_t_id a \<le> ix_t_id b"
  by (auto simp: by_scope_primary_def by_primary_def less_eq_prod_def)

lemma secondary_begins_with_table: "by_secondary a \<le> by_secondary b \<Longrightarrow> ix_t_id a \<le> ix_t_id b"
  by (auto simp: by_secondary_def less_eq_prod_def)

lemma contract_cursors:
  assumes "contract_inv ctx"
  shows "cursor_wf (next_table (tdb ctx)) kv_view by_scope_primary (key_values (tdb ctx)) (keyval_cache ctx)"
    and "cursor_wf (next_table (tdb ctx)) ix_view by_primary (index_rows (tdb ctx)) (index_cache ctx)"
  using contract_invD [OF assms] by (auto simp: cursor_wf_def rows_wf_def dest: key_begins_with_table)

lemma contract_cursor_secondary:
  assumes "contract_inv ctx"
  shows "cursor_wf (next_table (tdb ctx)) ix_view by_secondary (index_rows (tdb ctx)) (index_cache ctx)"
  using contract_invD [OF assms]
  by (auto simp: cursor_wf_def rows_wf_def by_secondary_unique dest: secondary_begins_with_table)

lemma cursor_wfD:
  assumes "cursor_wf nt v key rows c"
  shows "cache_inv nt v rows c" and "tbl_unique (row_id v) rows" and "tbl_unique key rows"
    and "key x \<le> key y \<Longrightarrow> row_table v x \<le> row_table v y"
  using assms by (auto simp: cursor_wf_def)

lemma cursor_wf_cache: "cursor_wf nt v key rows c \<Longrightarrow> cache_inv nt v rows c' \<Longrightarrow> cursor_wf nt v key rows c'"
  by (simp add: cursor_wf_def)

lemma cursor_next_cases:
  assumes wf: "cursor_wf nt v key rows c" and get: "cache_get v rows c iterator = Inr obj"
  obtains (row) r c' i where "idx_next key obj rows = Some r" and "r \<in> set rows" and "row_table v r = row_table v obj"
      and "cursor_next v key rows c iterator pk = Inr (c', i, row_primary v r)"
      and "cache_inv nt v rows c'" and "object_to_iterator c' (row_id v r) = Some i"
      and "table_cache c' = table_cache c"
  | (at_end) ei where "cursor_next v key rows c iterator pk = Inr (c, ei, pk)" and "ei < - 1"
      and "table_cache c (row_table v obj) = Some (row_table v obj, ei)"
      and "\<And>r. r \<in> set rows \<Longrightarrow> row_table v r = row_table v obj \<Longrightarrow> key r \<le> key obj"
proof -
  note inv = cursor_wfD [OF wf]
  note g = cache_getD [OF inv(1,2) get]
  obtain ei where ei: "table_cache c (row_table v obj) = Some (row_table v obj, ei)" "ei < - 1"
    using g(4) cache_inv_tableD [OF inv(1)] by fastforce
  then have end_it: "get_end_iterator_by_table_id c (row_table v obj) = Inr ei"
    by (simp add: get_end_iterator_by_table_id_def)
  have it: "\<not> iterator < - 1" using g(3) by simp
  show ?thesis
  proof (cases "\<exists>r. idx_next key obj rows = Some r \<and> row_table v r = row_table v obj")
    case True
    then obtain r where r: "idx_next key obj rows = Some r" "row_table v r = row_table v obj" by blast
    have mem: "r \<in> set rows" using ordered_table.succ_Some [OF inv(3) g(1), of r] r(1) by simp
    obtain c' i where add: "cache_add c (row_id v r) = (c', i)" by (metis surj_pair)
    have "table_cache c (row_table v r) \<noteq> None" using r(2) ei(1) by simp
    note ca = cache_add_inv [OF inv(1) mem this add]
    show ?thesis
      by (rule row [OF r(1) mem r(2) _ ca(1,2,3)]) (simp add: cursor_next_def it get r add)
  next
    case False
    have greatest: "key r \<le> key obj" if m: "r \<in> set rows" "row_table v r = row_table v obj" for r
    proof (rule ccontr)
      assume "\<not> key r \<le> key obj"
      then have lt: "key obj < key r" by simp
      then obtain x where x: "idx_next key obj rows = Some x"
        using ordered_table.succ_None [OF inv(3) g(1)] m(1) by (cases "idx_next key obj rows") auto
      have "key obj < key x" "key x \<le> key r"
        using ordered_table.succ_Some [OF inv(3) g(1), of x] x lt m(1) by auto
      then have "row_table v x = row_table v obj"
        using inv(4) [of obj x] inv(4) [of x r] m(2) by simp
      with False x show False by simp
    qed
    have "cursor_next v key rows c iterator pk = Inr (c, ei, pk)"
      using False by (auto simp: cursor_next_def it get end_it split: option.splits)
    then show ?thesis by (rule at_end [OF _ ei(2,1)]) (rule greatest)
  qed
qed

lemma cursor_next_inv:
  assumes wf: "cursor_wf nt v key rows c" and app: "cursor_next v key rows c iterator pk = Inr (c', i, pk')"
  shows "cache_inv nt v rows c'"
proof (cases "iterator < - 1")
  case True
  then show ?thesis using app cursor_wfD(1) [OF wf] by (simp add: cursor_next_def)
next
  case False
  then obtain obj where g: "cache_get v rows c iterator = Inr obj" using app by (auto simp: cursor_next_def)
  show ?thesis
    by (rule cursor_next_cases [OF wf g, of pk]) (use app cursor_wfD(1) [OF wf] in auto)
qed

lemma cursor_next_error:
  assumes wf: "cursor_wf nt v key rows c" and app: "cursor_next v key rows c iterator pk = Inl e"
  shows "e = invalid_table_iterator \<or> e = table_operation_not_permitted"
proof (cases "cache_get v rows c iterator")
  case (Inl e')
  then show ?thesis
    using app cache_get_error [OF cursor_wfD(1) [OF wf] Inl] by (auto simp: cursor_next_def split: if_splits)
next
  case (Inr obj)
  show ?thesis by (rule cursor_next_cases [OF wf Inr, of pk]) (use app in auto)
qed

lemma cursor_previous_cases:
  assumes wf: "cursor_wf nt v key rows c" and get: "cache_get v rows c iterator = Inr obj"
  obtains (row) r c' i where "idx_prev key obj rows = Some r" and "r \<in> set rows" and "row_table v r = row_table v obj"
      and "cursor_previous ts v key rows c iterator pk = Inr (c', i, row_primary v r)"
      and "cache_inv nt v rows c'" and "object_to_iterator c' (row_id v r) = Some i"
  | (at_begin) "cursor_previous ts v key rows c iterator pk = Inr (c, - 1, pk)"
      and "\<And>r. r \<in> set rows \<Longrightarrow> row_table v r = row_table v obj \<Longrightarrow> key obj \<le> key r"
proof -
  note inv = cursor_wfD [OF wf]
  note g = cache_getD [OF inv(1,2) get]
  have it: "\<not> iterator < - 1" using g(3) by simp
  show ?thesis
  proof (cases "\<exists>r. idx_prev key obj rows = Some r \<and> row_table v r = row_table v obj")
    case True
    then obtain r where r: "idx_prev key obj rows = Some r" "row_table v r = row_table v obj" by blast
    have mem: "r \<in> set rows" using ordered_table.prev_Some [OF inv(3) g(1), of r] r(1) by simp
    obtain c' i where add: "cache_add c (row_id v r) = (c', i)" by (metis surj_pair)
    have "table_cache c (row_table v r) \<noteq> None" using r(2) g(4) by simp
    note ca = cache_add_inv [OF inv(1) mem this add]
    show ?thesis
      by (rule row [OF r(1) mem r(2) _ ca(1,2)]) (simp add: cursor_previous_def it get r add)
  next
    case False
    have least: "key obj \<le> key r" if m: "r \<in> set rows" "row_table v r = row_table v obj" for r
    proof (rule ccontr)
      assume "\<not> key obj \<le> key r"
      then have lt: "key r < key obj" by simp
      then obtain x where x: "idx_prev key obj rows = Some x"
        using ordered_table.prev_None [OF inv(3) g(1)] m(1) by (cases "idx_prev key obj rows") auto
      have "key x < key obj" "key r \<le> key x"
        using ordered_table.prev_Some [OF inv(3) g(1), of x] x lt m(1) by auto
      then have "row_table v x = row_table v obj"
        using inv(4) [of x obj] inv(4) [of r x] m(2) by simp
      with False x show False by simp
    qed
    have "cursor_previous ts v key rows c iterator pk = Inr (c, - 1, pk)"
      using False by (auto simp: cursor_previous_def it get split: option.splits)
    then show ?thesis by (rule at_begin) (rule least)
  qed
qed

text \<open>Going back from the end iterator of a table that exists gives its last row.\<close>

lemma cursor_previous_end_cases:
  assumes wf: "cursor_wf nt v key rows c" and tc: "table_cache c t = Some (t, ei)" and ei: "- (2 ^ 31) < ei"
    and tab: "tbl_find ti_id t ts = Some tab"
  obtains (row) r c' i where "cursor_previous ts v key rows c ei pk = Inr (c', i, row_primary v r)"
      and "r \<in> set rows" and "row_table v r = t" and "\<And>x. x \<in> set rows \<Longrightarrow> row_table v x = t \<Longrightarrow> key x \<le> key r"
      and "cache_inv nt v rows c'" and "cache_add c (row_id v r) = (c', i)"
  | (no_row) "cursor_previous ts v key rows c ei pk = Inr (c, - 1, pk)"
      and "\<And>r. r \<in> set rows \<Longrightarrow> row_table v r \<noteq> t"
proof -
  note inv = cursor_wfD [OF wf]
  obtain n where n: "n < length (end_iterator_to_table c)" "end_iterator_to_table c ! n = t" "ei = index_to_end_iterator n"
    using tc unfolding cache_inv_table [OF inv(1)] by blast
  have it: "ei < - 1" using cache_inv_tableD(3) [OF inv(1) tc] .
  have "find_table_by_end_iterator c ei = Inr (Some t)"
    using n ei it by (simp add: find_table_by_end_iterator_def end_iterator_to_index_def index_to_end_iterator_def)
  moreover have tid: "table_at ts t = Inr tab" "ti_id tab = t"
    using tab tbl_find_SomeD [OF tab] by (auto simp: table_at_def)
  ultimately have prev: "cursor_previous ts v key rows c ei pk =
      (case table_last v key t rows of
         None \<Rightarrow> Inr (c, - 1, pk)
       | Some r \<Rightarrow> if row_table v r \<noteq> t then Inr (c, - 1, pk)
                   else (let (c, i) = cache_add c (row_id v r) in Inr (c, i, row_primary v r)))"
    using it by (simp add: cursor_previous_def split: option.split)
  note last_Some = table_last_Some_iff [OF inv(3,4), where i = t] and last_None = table_last_None_iff [OF inv(3,4), where i = t]
  show ?thesis
  proof (cases "\<exists>r. table_last v key t rows = Some r \<and> row_table v r = t")
    case True
    then obtain r where r: "table_last v key t rows = Some r" "row_table v r = t" by blast
    then have mem: "r \<in> set rows" and max: "\<And>x. x \<in> set rows \<Longrightarrow> row_table v x = t \<Longrightarrow> key x \<le> key r"
      using last_Some [of r] by auto
    obtain c' i where add: "cache_add c (row_id v r) = (c', i)" by (metis surj_pair)
    have "table_cache c (row_table v r) \<noteq> None" using r(2) tc by simp
    note ca = cache_add_inv [OF inv(1) mem this add]
    show ?thesis
      by (rule row [OF _ mem r(2) max ca(1) add]) (simp_all add: prev r add)
  next
    case False
    have none: "row_table v x \<noteq> t" if m: "x \<in> set rows" for x
    proof
      assume x: "row_table v x = t"
      then obtain r where r: "table_last v key t rows = Some r"
        using last_None m x by (cases "table_last v key t rows") auto
      then have "row_table v r \<le> t" "key x \<le> key r" using last_Some [of r] m x by auto
      then have "row_table v r = t" using inv(4) [of x r] x by simp
      with False r show False by simp
    qed
    have "cursor_previous ts v key rows c ei pk = Inr (c, - 1, pk)"
      using False unfolding prev by (auto split: option.splits)
    then show ?thesis by (rule no_row) (rule none)
  qed
qed

lemma cursor_previous_inv:
  assumes wf: "cursor_wf nt v key rows c"
    and app: "cursor_previous ts v key rows c iterator pk = Inr (c', i, pk')"
  shows "cache_inv nt v rows c'"
proof (cases "iterator < - 1")
  case True
  note inv = cursor_wfD [OF wf]
  obtain indx tab where f: "end_iterator_to_index iterator = Inr indx" "indx < length (end_iterator_to_table c)"
      "table_at ts (end_iterator_to_table c ! indx) = Inr tab"
    using app True by (auto simp: cursor_previous_def find_table_by_end_iterator_def split: if_splits option.splits)
  let ?t = "end_iterator_to_table c ! indx"
  have it: "iterator = index_to_end_iterator indx" "- (2 ^ 31) < iterator \<or> iterator < - (2 ^ 31)"
    using f(1) True by (auto simp: end_iterator_to_index_def index_to_end_iterator_def split: if_splits)
  have tc: "table_cache c ?t = Some (?t, iterator)" using cache_inv_endD [OF inv(1) f(2)] it by simp
  have fe: "find_table_by_end_iterator c iterator = Inr (Some ?t)"
    using f True by (simp add: find_table_by_end_iterator_def)
  have tid: "ti_id tab = ?t" using f(3) tbl_find_SomeD by (fastforce simp: table_at_def split: option.splits)
  show ?thesis
  proof (cases "\<exists>r. table_last v key ?t rows = Some r \<and> row_table v r = ?t")
    case True
    then obtain r where r: "table_last v key ?t rows = Some r" "row_table v r = ?t" by blast
    have mem: "r \<in> set rows" using table_last_Some_iff [OF inv(3,4)] r(1) by simp
    have cd: "table_cache c (row_table v r) \<noteq> None" using r(2) tc by simp
    have "cache_add c (row_id v r) = (c', i)"
      using app \<open>iterator < - 1\<close> fe f(3) tid r by (auto simp: cursor_previous_def split: prod.splits)
    then show ?thesis by (rule cache_add_inv(1) [OF inv(1) mem cd])
  next
    case False
    then have "c' = c"
      using app \<open>iterator < - 1\<close> fe f(3) tid by (auto simp: cursor_previous_def split: option.splits)
    then show ?thesis using inv(1) by simp
  qed
next
  case False
  then obtain obj where g: "cache_get v rows c iterator = Inr obj" using app by (auto simp: cursor_previous_def)
  show ?thesis
    by (rule cursor_previous_cases [OF wf g, of ts pk]) (use app cursor_wfD(1) [OF wf] in auto)
qed

section \<open>Lookups\<close>

lemma cursor_at_cases:
  assumes inv: "cache_inv nt v rows c" and tab: "ti_id tab < nt" and mem: "\<And>r. found = Some r \<Longrightarrow> r \<in> set rows"
  obtains (row) r c' i where "found = Some r" and "row_table v r = ti_id tab" and "cursor_at v c tab found = (c', i, Some r)"
      and "cache_inv nt v rows c'" and "object_to_iterator c' (row_id v r) = Some i"
  | (no_row) c' ei where "\<And>r. found = Some r \<Longrightarrow> row_table v r \<noteq> ti_id tab" and "cursor_at v c tab found = (c', ei, None)"
      and "cache_inv nt v rows c'" and "table_cache c' (ti_id tab) = Some (ti_id tab, ei)" and "ei < - 1"
proof -
  obtain c1 ei where ct: "cache_table c (ti_id tab) = (c1, ei)" by (metis surj_pair)
  note ci = cache_table_inv [OF inv tab ct]
  show ?thesis
  proof (cases "\<exists>r. found = Some r \<and> row_table v r = ti_id tab")
    case True
    then obtain r where r: "found = Some r" "row_table v r = ti_id tab" by blast
    obtain c' i where add: "cache_add c1 (row_id v r) = (c', i)" by (metis surj_pair)
    have "table_cache c1 (row_table v r) \<noteq> None" using ci(2) r(2) by simp
    note ca = cache_add_inv [OF ci(1) mem [OF r(1)] this add]
    show ?thesis by (rule row [OF r _ ca(1,2)]) (simp add: cursor_at_def ct r add)
  next
    case False
    then show ?thesis
      by (intro no_row [of c1 ei]) (use ci in \<open>auto simp: cursor_at_def ct split: option.splits\<close>)
  qed
qed

lemma cursor_at_inv:
  assumes "cache_inv nt v rows c" and "ti_id tab < nt" and "\<And>r. found = Some r \<Longrightarrow> r \<in> set rows"
    and "cursor_at v c tab found = (c', i, r)"
  shows "cache_inv nt v rows c'"
  by (rule cursor_at_cases [OF assms(1-3)]) (use assms(4) in auto)

end
