(* ===== verification/Contract_Steps.thy ===== *)
theory Contract_Steps
  imports Contract_Cursor
begin

text \<open>
  The calls an action makes on the contract tables as a step relation, the invariant over every
  sequence of calls, and the RAM accounting: each call changes what an account is billed by exactly
  the change of what its rows and tables take.
\<close>

section \<open>Sequences of calls\<close>

text \<open>
  The buffers lie in the 32-bit memory of a contract, and the database holds less than $2^{32}$ rows
  (the count of a table is a 32-bit word).
\<close>

inductive contract_step :: "int \<Rightarrow> 'd apply_info \<Rightarrow> ('s::linorder) contract_ctx \<Rightarrow> 's contract_ctx \<Rightarrow> bool"
  for sz :: int and info :: "'d apply_info" where
  step_store: "db_store_i64 info ctx scope table payer id' buffer = Inr (ctx', i) \<Longrightarrow> buffer_fits buffer \<Longrightarrow>
    rows_total (tdb ctx) + 1 < 2 ^ 32 \<Longrightarrow> contract_step sz info ctx ctx'"
| step_update: "db_update_i64 info ctx i payer buffer = Inr ctx' \<Longrightarrow> buffer_fits buffer \<Longrightarrow> contract_step sz info ctx ctx'"
| step_remove: "db_remove_i64 info ctx i = Inr ctx' \<Longrightarrow> contract_step sz info ctx ctx'"
| step_next: "db_next_i64 ctx i pk = Inr (ctx', j, pk') \<Longrightarrow> contract_step sz info ctx ctx'"
| step_previous: "db_previous_i64 ctx i pk = Inr (ctx', j, pk') \<Longrightarrow> contract_step sz info ctx ctx'"
| step_find: "db_find_i64 ctx code scope table id' = (ctx', i) \<Longrightarrow> contract_step sz info ctx ctx'"
| step_lowerbound: "db_lowerbound_i64 ctx code scope table id' = (ctx', i) \<Longrightarrow> contract_step sz info ctx ctx'"
| step_upperbound: "db_upperbound_i64 ctx code scope table id' = (ctx', i) \<Longrightarrow> contract_step sz info ctx ctx'"
| step_end: "db_end_i64 ctx code scope table = (ctx', i) \<Longrightarrow> contract_step sz info ctx ctx'"
| step_idx_store: "idx_store sz info ctx scope table payer id' x = Inr (ctx', i) \<Longrightarrow>
    rows_total (tdb ctx) + 1 < 2 ^ 32 \<Longrightarrow> contract_step sz info ctx ctx'"
| step_idx_update: "idx_update sz info ctx i payer x = Inr ctx' \<Longrightarrow> contract_step sz info ctx ctx'"
| step_idx_remove: "idx_remove sz info ctx i = Inr ctx' \<Longrightarrow> contract_step sz info ctx ctx'"
| step_find_secondary: "idx_find_secondary ctx code scope table x pk = (ctx', i, pk') \<Longrightarrow> contract_step sz info ctx ctx'"
| step_lowerbound_secondary: "idx_lowerbound_secondary ctx code scope table x pk = (ctx', i, x', pk') \<Longrightarrow> contract_step sz info ctx ctx'"
| step_upperbound_secondary: "idx_upperbound_secondary ctx code scope table x pk = (ctx', i, x', pk') \<Longrightarrow> contract_step sz info ctx ctx'"
| step_end_secondary: "idx_end_secondary ctx code scope table = (ctx', i) \<Longrightarrow> contract_step sz info ctx ctx'"
| step_next_secondary: "idx_next_secondary ctx i pk = Inr (ctx', j, pk') \<Longrightarrow> contract_step sz info ctx ctx'"
| step_previous_secondary: "idx_previous_secondary ctx i pk = Inr (ctx', j, pk') \<Longrightarrow> contract_step sz info ctx ctx'"
| step_find_primary: "idx_find_primary ctx code scope table x pk = (ctx', i, x') \<Longrightarrow> contract_step sz info ctx ctx'"
| step_lowerbound_primary: "idx_lowerbound_primary ctx code scope table pk = (ctx', i) \<Longrightarrow> contract_step sz info ctx ctx'"
| step_upperbound_primary: "idx_upperbound_primary ctx code scope table pk = (ctx', i) \<Longrightarrow> contract_step sz info ctx ctx'"
| step_next_primary: "idx_next_primary ctx i pk = Inr (ctx', j, pk') \<Longrightarrow> contract_step sz info ctx ctx'"
| step_previous_primary: "idx_previous_primary ctx i pk = Inr (ctx', j, pk') \<Longrightarrow> contract_step sz info ctx ctx'"

section \<open>Calls that read\<close>

text \<open>A read changes one of the caches and keeps its invariant.\<close>

definition kv_read :: "'s contract_ctx \<Rightarrow> 's contract_ctx \<Rightarrow> bool" where
  "kv_read ctx ctx' \<longleftrightarrow> (\<exists>c. ctx' = ctx\<lparr>keyval_cache := c\<rparr> \<and>
     cache_inv (next_table (tdb ctx)) kv_view (key_values (tdb ctx)) c)"

definition ix_read :: "'s contract_ctx \<Rightarrow> 's contract_ctx \<Rightarrow> bool" where
  "ix_read ctx ctx' \<longleftrightarrow> (\<exists>c. ctx' = ctx\<lparr>index_cache := c\<rparr> \<and>
     cache_inv (next_table (tdb ctx)) ix_view (index_rows (tdb ctx)) c)"

lemma kv_readI: "cache_inv (next_table (tdb ctx)) kv_view (key_values (tdb ctx)) c \<Longrightarrow> kv_read ctx (ctx\<lparr>keyval_cache := c\<rparr>)"
  unfolding kv_read_def by blast

lemma ix_readI: "cache_inv (next_table (tdb ctx)) ix_view (index_rows (tdb ctx)) c \<Longrightarrow> ix_read ctx (ctx\<lparr>index_cache := c\<rparr>)"
  unfolding ix_read_def by blast

lemma read_refl: "contract_inv ctx \<Longrightarrow> kv_read ctx ctx" "contract_inv ctx \<Longrightarrow> ix_read ctx ctx"
  using kv_readI [of ctx "keyval_cache ctx"] ix_readI [of ctx "index_cache ctx"] by (simp_all add: contract_inv_def)

lemma read_same:
  assumes "kv_read ctx ctx' \<or> ix_read ctx ctx'"
  shows "tdb ctx' = tdb ctx" and "resources ctx' = resources ctx"
  using assms unfolding kv_read_def ix_read_def by (elim disjE exE conjE, simp_all)+

lemma read_inv:
  assumes "contract_inv ctx" and "kv_read ctx ctx' \<or> ix_read ctx ctx'"
  shows "contract_inv ctx'"
  using assms unfolding kv_read_def ix_read_def by (elim disjE exE conjE) (simp_all add: contract_inv_def)

lemma find_tableD:
  "contract_inv ctx \<Longrightarrow> find_table ctx code scope table = Some tab \<Longrightarrow>
     tab \<in> set (tables (tdb ctx)) \<and> ti_id tab < next_table (tdb ctx) \<and> by_code_scope_table tab = (code, scope, table)"
  by (auto simp: contract_inv_def db_wf_def tables_wf_def find_table_def dest: tbl_find_SomeD)

lemma kv_at_read:
  assumes inv: "contract_inv ctx" and tab: "find_table ctx code scope table = Some tab"
    and mem: "\<And>r. found = Some r \<Longrightarrow> r \<in> set (key_values (tdb ctx))"
  shows "kv_read ctx (ctx\<lparr>keyval_cache := fst (cursor_at kv_view (keyval_cache ctx) tab found)\<rparr>)"
proof -
  obtain c i r where c: "cursor_at kv_view (keyval_cache ctx) tab found = (c, i, r)" by (metis prod_cases3)
  show ?thesis
    using cursor_at_inv [OF contract_invD(5) [OF inv] _ mem c] find_tableD [OF inv tab] by (simp add: kv_readI c)
qed

lemma kv_end_read:
  assumes inv: "contract_inv ctx" and tab: "find_table ctx code scope table = Some tab"
  shows "kv_read ctx (ctx\<lparr>keyval_cache := fst (cache_table (keyval_cache ctx) (ti_id tab))\<rparr>)"
proof -
  obtain c i where c: "cache_table (keyval_cache ctx) (ti_id tab) = (c, i)" by (metis surj_pair)
  show ?thesis
    using cache_table_inv(1) [OF contract_invD(5) [OF inv] _ c] find_tableD [OF inv tab] by (simp add: kv_readI c)
qed

lemma find_mem: "find P xs = Some r \<Longrightarrow> r \<in> set xs"
  by (auto simp: find_Some_iff)

lemma bound_mem:
  "tbl_find key' k' rows = Some r \<Longrightarrow> r \<in> set rows"
  "lower_bound key k rows = Some r \<Longrightarrow> r \<in> set rows"
  "upper_bound key k rows = Some r \<Longrightarrow> r \<in> set rows"
  "find P (sort_key key rows) = Some r \<Longrightarrow> r \<in> set rows"
  unfolding tbl_find_def lower_bound_def upper_bound_def
  using find_mem [of _ "sort_key key rows"] find_mem [of _ rows] by simp_all

lemma db_lookups_read:
  assumes inv: "contract_inv ctx"
  shows "kv_read ctx (fst (db_find_i64 ctx code scope table id'))"
    and "kv_read ctx (fst (db_lowerbound_i64 ctx code scope table id'))"
    and "kv_read ctx (fst (db_upperbound_i64 ctx code scope table id'))"
    and "kv_read ctx (fst (db_end_i64 ctx code scope table))"
  by (simp_all add: db_find_i64_def db_lowerbound_i64_def db_upperbound_i64_def db_end_i64_def Let_def split_beta
      kv_at_read [OF inv] kv_end_read [OF inv] read_refl [OF inv] bound_mem split: option.split)

lemma db_moves_read:
  assumes inv: "contract_inv ctx"
  shows "db_next_i64 ctx i pk = Inr (ctx', j, pk') \<Longrightarrow> kv_read ctx ctx'"
    and "db_previous_i64 ctx i pk = Inr (ctx', j, pk') \<Longrightarrow> kv_read ctx ctx'"
  using cursor_next_inv [OF contract_cursors(1) [OF inv]] cursor_previous_inv [OF contract_cursors(1) [OF inv]]
  by (auto simp: db_next_i64_def db_previous_i64_def kv_readI)

lemma ix_lookup_read:
  assumes inv: "contract_inv ctx" and mem: "\<And>t r. look t = Some r \<Longrightarrow> r \<in> set (index_rows (tdb ctx))"
  shows "ix_read ctx (fst (idx_lookup ctx code scope table look))"
proof (cases "find_table ctx code scope table")
  case None
  then show ?thesis using read_refl(2) [OF inv] by (simp add: idx_lookup_def)
next
  case (Some tab)
  obtain c i r where c: "cursor_at ix_view (index_cache ctx) tab (look (ti_id tab)) = (c, i, r)" by (metis prod_cases3)
  show ?thesis
    using cursor_at_inv [OF contract_invD(6) [OF inv] _ mem c] find_tableD [OF inv Some]
    by (simp add: idx_lookup_def Some ix_readI c)
qed

lemma ix_lookups_read:
  assumes inv: "contract_inv (ctx :: ('s::linorder) contract_ctx)"
  shows "ix_read ctx (fst (idx_find_secondary ctx code scope table x pk))"
    and "ix_read ctx (fst (idx_lowerbound_secondary ctx code scope table x pk))"
    and "ix_read ctx (fst (idx_upperbound_secondary ctx code scope table x pk))"
    and "ix_read ctx (fst (idx_find_primary ctx code scope table x pk))"
    and "ix_read ctx (fst (idx_lowerbound_primary ctx code scope table pk))"
    and "ix_read ctx (fst (idx_upperbound_primary ctx code scope table pk))"
    and "ix_read ctx (fst (idx_end_secondary ctx code scope table))"
proof -
  note r = ix_lookup_read [OF inv]
  show "ix_read ctx (fst (idx_find_secondary ctx code scope table x pk))"
    "ix_read ctx (fst (idx_lowerbound_secondary ctx code scope table x pk))"
    "ix_read ctx (fst (idx_upperbound_secondary ctx code scope table x pk))"
    by (simp_all add: idx_find_secondary_def idx_lowerbound_secondary_def idx_upperbound_secondary_def
        Let_def split_beta r bound_mem(4))
  show "ix_read ctx (fst (idx_find_primary ctx code scope table x pk))"
    "ix_read ctx (fst (idx_lowerbound_primary ctx code scope table pk))"
    "ix_read ctx (fst (idx_upperbound_primary ctx code scope table pk))"
    by (simp_all add: idx_find_primary_def idx_lowerbound_primary_def idx_upperbound_primary_def
        Let_def split_beta r bound_mem)
  show "ix_read ctx (fst (idx_end_secondary ctx code scope table))"
  proof (cases "find_table ctx code scope table")
    case (Some tab)
    obtain c i where c: "cache_table (index_cache ctx) (ti_id tab) = (c, i)" by (metis surj_pair)
    show ?thesis
      using cache_table_inv(1) [OF contract_invD(6) [OF inv] _ c] find_tableD [OF inv Some]
      by (simp add: idx_end_secondary_def Some ix_readI c)
  qed (simp add: idx_end_secondary_def read_refl(2) [OF inv])
qed

lemma ix_moves_read:
  assumes inv: "contract_inv (ctx :: ('s::linorder) contract_ctx)"
  shows "idx_next_primary ctx i pk = Inr (ctx', j, pk') \<Longrightarrow> ix_read ctx ctx'"
    and "idx_previous_primary ctx i pk = Inr (ctx', j, pk') \<Longrightarrow> ix_read ctx ctx'"
    and "idx_next_secondary ctx i pk = Inr (ctx', j, pk') \<Longrightarrow> ix_read ctx ctx'"
    and "idx_previous_secondary ctx i pk = Inr (ctx', j, pk') \<Longrightarrow> ix_read ctx ctx'"
  using cursor_next_inv [OF contract_cursors(2) [OF inv]] cursor_previous_inv [OF contract_cursors(2) [OF inv]]
    cursor_next_inv [OF contract_cursor_secondary [OF inv]] cursor_previous_inv [OF contract_cursor_secondary [OF inv]]
  by (auto simp: idx_next_primary_def idx_previous_primary_def idx_next_secondary_def idx_previous_secondary_def ix_readI)

text \<open>A step is a read, or one of the six calls that change rows.\<close>

lemma contract_step_cases:
  assumes "contract_step sz info ctx ctx'" and inv: "contract_inv ctx"
  obtains (read) "kv_read ctx ctx' \<or> ix_read ctx ctx'"
  | (store) scope table payer pk buffer i where "db_store_i64 info ctx scope table payer pk buffer = Inr (ctx', i)"
      and "buffer_fits buffer" and "rows_total (tdb ctx) + 1 < 2 ^ 32"
  | (update) i payer buffer where "db_update_i64 info ctx i payer buffer = Inr ctx'" and "buffer_fits buffer"
  | (remove) i where "db_remove_i64 info ctx i = Inr ctx'"
  | (idx_store) scope table payer pk x i where "idx_store sz info ctx scope table payer pk x = Inr (ctx', i)"
      and "rows_total (tdb ctx) + 1 < 2 ^ 32"
  | (idx_update) i payer x where "idx_update sz info ctx i payer x = Inr ctx'"
  | (idx_remove) i where "idx_remove sz info ctx i = Inr ctx'"
proof -
  note reads = db_lookups_read [OF inv] ix_lookups_read [OF inv]
  show ?thesis
    using assms(1)
  proof (cases rule: contract_step.cases)
    case (step_find code scope table id' i)
    show ?thesis using read reads(1) [of code scope table id'] by (simp add: step_find)
  next
    case (step_lowerbound code scope table id' i)
    show ?thesis using read reads(2) [of code scope table id'] by (simp add: step_lowerbound)
  next
    case (step_upperbound code scope table id' i)
    show ?thesis using read reads(3) [of code scope table id'] by (simp add: step_upperbound)
  next
    case (step_end code scope table i)
    show ?thesis using read reads(4) [of code scope table] by (simp add: step_end)
  next
    case (step_find_secondary code scope table x pk i pk')
    show ?thesis using read reads(5) [of code scope table x pk] by (simp add: step_find_secondary)
  next
    case (step_lowerbound_secondary code scope table x pk i x' pk')
    show ?thesis using read reads(6) [of code scope table x pk] by (simp add: step_lowerbound_secondary)
  next
    case (step_upperbound_secondary code scope table x pk i x' pk')
    show ?thesis using read reads(7) [of code scope table x pk] by (simp add: step_upperbound_secondary)
  next
    case (step_find_primary code scope table x pk i x')
    show ?thesis using read reads(8) [of code scope table x pk] by (simp add: step_find_primary)
  next
    case (step_lowerbound_primary code scope table pk i)
    show ?thesis using read reads(9) [of code scope table pk] by (simp add: step_lowerbound_primary)
  next
    case (step_upperbound_primary code scope table pk i)
    show ?thesis using read reads(10) [of code scope table pk] by (simp add: step_upperbound_primary)
  next
    case (step_end_secondary code scope table i)
    show ?thesis using read reads(11) [of code scope table] by (simp add: step_end_secondary)
  next
    case (step_store scope table payer id' buffer i)
    then show ?thesis by (rule store)
  next
    case (step_update i payer buffer)
    then show ?thesis by (rule update)
  next
    case (step_remove i)
    then show ?thesis by (rule remove)
  next
    case (step_idx_store scope table payer id' x i)
    then show ?thesis by (rule idx_store)
  next
    case (step_idx_update i payer x)
    then show ?thesis by (rule idx_update)
  next
    case (step_idx_remove i)
    then show ?thesis by (rule idx_remove)
  qed (rule read, rule disjI1, erule db_moves_read(1) [OF inv], rule read, rule disjI1, erule db_moves_read(2) [OF inv],
       rule read, rule disjI2, erule ix_moves_read(3) [OF inv], rule read, rule disjI2, erule ix_moves_read(4) [OF inv],
       rule read, rule disjI2, erule ix_moves_read(1) [OF inv], rule read, rule disjI2, erule ix_moves_read(2) [OF inv])
qed

lemma contract_step_inv:
  assumes inv: "contract_inv ctx" and step: "contract_step sz info ctx ctx'"
  shows "contract_inv ctx'"
  using step inv
proof (cases rule: contract_step_cases)
  case read
  then show ?thesis by (rule read_inv [OF inv])
next
  case (store scope table payer pk buffer i)
  then show ?thesis using kv_store_inv(1) [OF inv] unfolding db_store_i64_def by blast
qed (rule kv_update_inv [OF inv], assumption+, rule kv_remove_inv [OF inv], assumption+,
     rule ix_store_inv(1) [OF inv], assumption+, rule ix_update_inv [OF inv], assumption+,
     rule ix_remove_inv [OF inv], assumption+)

end
