(* ===== verification/Contract_Ram.thy ===== *)
theory Contract_Ram
  imports Contract_Steps
begin

text \<open>
  RAM accounting of the contract tables.  \<open>table_owed\<close> is what the tables and rows an account pays
  for take by the size rules of the source, \<open>contract_slack\<close> the difference to what it is billed.
  No call changes the slack of any account.
\<close>

definition table_owed :: "int \<Rightarrow> 's table_db \<Rightarrow> u64 \<Rightarrow> int" where
  "table_owed sz db a =
     owned_sum ti_payer (\<lambda>_. billable_table_id_object) (tables db) a +
     owned_sum kv_payer (\<lambda>r. int (length (kv_value r)) + billable_key_value_object) (key_values db) a +
     owned_sum ix_payer (\<lambda>_. sz) (index_rows db) a"

definition contract_slack :: "int \<Rightarrow> 's contract_ctx \<Rightarrow> u64 \<Rightarrow> int" where
  "contract_slack sz ctx a = ram_billed ctx a - table_owed sz (tdb ctx) a"

lemma billable_table_sizes:
  "billable_table_id_object = 112" "billable_key_value_object = 112" "billable_index64_object = 128"
  "billable_index128_object = 144" "billable_index256_object = 160"
  by (simp_all add: billable_table_id_object_def billable_key_value_object_def billable_index64_object_def
      billable_index128_object_def billable_index256_object_def billable_align_def)

lemma owned_sum_count [simp]:
  "owned_sum ti_payer (\<lambda>_. k) (count_changed i n ts) a = owned_sum ti_payer (\<lambda>_. k) ts a"
  by (induction ts) (simp_all add: count_changed_def tbl_modify_def)

lemma owned_sum_change:
  assumes "tbl_unique key t" and "r \<in> set t"
  shows "owned_sum own sz (tbl_modify key (key r) f t) a =
     owned_sum own sz t a - (if a = own r then sz r else 0) + (if a = own (f r) then sz (f r) else 0)"
proof -
  obtain us vs where "t = us @ r # vs" "tbl_modify key (key r) f t = us @ f r # vs"
    using tbl_row_split [OF assms] by metis
  then show ?thesis by simp
qed

lemma billed_resources: "resources ctx' = resources ctx \<Longrightarrow> ram_billed ctx' a = ram_billed ctx a"
  by (simp add: ram_billed_def)

lemma slack_charge:
  assumes "update_db_usage info ctx1 p d = Inr ctx2" and "ram_delta_fits d"
    and "resources ctx1 = resources ctx" and "resources ctx' = resources ctx2"
    and "\<And>b. table_owed sz (tdb ctx') b = table_owed sz (tdb ctx) b + (if b = p then d else 0)"
  shows "contract_slack sz ctx' a = contract_slack sz ctx a"
  using db_ledger.charge_keeps [OF assms(1,2,5), of a] billed_resources [OF assms(3)] billed_resources [OF assms(4)]
  by (simp add: contract_slack_def)

lemma row_delta_fits:
  assumes "buffer_fits b" and "buffer_fits b'"
  shows "ram_delta_fits (int (length b) + billable_key_value_object)"
    and "ram_delta_fits (- (int (length b) + billable_key_value_object))"
    and "ram_delta_fits (int (length b) - int (length b'))"
  using assms by (simp_all add: buffer_fits_def ram_delta_fits_def billable_table_sizes)

lemma find_or_create_slack:
  assumes app: "find_or_create_table info ctx code scope table payer = Inr (ctx1, tab)"
  shows "contract_slack sz ctx1 a = contract_slack sz ctx a"
  using app
proof (cases rule: find_or_createE)
  case (created ctx0)
  show ?thesis
    by (rule slack_charge [OF created(2)])
      (simp_all add: created(3,4) ram_delta_fits_def billable_table_sizes table_owed_def)
qed simp

lemma kv_store_slack:
  assumes app: "db_store_i64_code info ctx code scope table payer id' buffer = Inr (ctx', i)" and fits: "buffer_fits buffer"
  shows "contract_slack sz ctx' a = contract_slack sz ctx a"
  using app
proof (cases rule: db_storeE)
  case (1 ctx1 tab ctx2)
  have t: "tdb ctx' = kv_stored (tdb ctx1) (ti_id tab) payer id' buffer" "resources ctx' = resources ctx2"
    using arg_cong [OF 1(6), of tdb] arg_cong [OF 1(6), of resources] update_db_usage_frame(1) [OF 1(4)] by simp_all
  have "contract_slack sz ctx' a = contract_slack sz ctx1 a"
    by (rule slack_charge [OF 1(4) row_delta_fits(1) [OF fits fits] _ t(2)])
      (simp_all add: t(1) table_owed_def kv_stored_def)
  then show ?thesis using find_or_create_slack [OF 1(1)] by simp
qed

lemma ix_store_slack:
  assumes app: "idx_store sz info ctx scope table payer id' x = Inr (ctx', i)" and sz: "ram_delta_fits sz"
  shows "contract_slack sz ctx' a = contract_slack sz ctx a"
  using app
proof (cases rule: idx_storeE)
  case (1 ctx1 tab ctx2)
  have t: "tdb ctx' = ix_stored (tdb ctx1) (ti_id tab) payer id' x" "resources ctx' = resources ctx2"
    using arg_cong [OF 1(6), of tdb] arg_cong [OF 1(6), of resources] update_db_usage_frame(1) [OF 1(4)] by simp_all
  have "contract_slack sz ctx' a = contract_slack sz ctx1 a"
    by (rule slack_charge [OF 1(4) sz _ t(2)]) (simp_all add: t(1) table_owed_def ix_stored_def)
  then show ?thesis using find_or_create_slack [OF 1(1)] by simp
qed

lemma slack_move:
  assumes "bind_res (update_db_usage info ctx p (- d)) (\<lambda>ctx. update_db_usage info ctx q e) = Inr ctx1"
    and "ram_delta_fits (- d)" and "ram_delta_fits e" and "resources ctx' = resources ctx1"
    and "\<And>b. table_owed sz (tdb ctx') b = table_owed sz (tdb ctx) b - (if b = p then d else 0) + (if b = q then e else 0)"
  shows "contract_slack sz ctx' a = contract_slack sz ctx a"
proof -
  obtain ctx0 where c: "update_db_usage info ctx p (- d) = Inr ctx0" "update_db_usage info ctx0 q e = Inr ctx1"
    using assms(1) by auto
  show ?thesis
    using db_ledger.move_keeps [OF c assms(2,3,5), of a] billed_resources [OF assms(4)] by (simp add: contract_slack_def)
qed

lemma kv_update_slack:
  assumes inv: "contract_inv ctx" and app: "db_update_i64 info ctx iterator payer buffer = Inr ctx'" and fits: "buffer_fits buffer"
  shows "contract_slack sz ctx' a = contract_slack sz ctx a"
  using app
proof (cases rule: db_updateE)
  case (1 obj table_obj ctx1 payer')
  note wf = contract_invD [OF inv]
  have u: "tbl_unique (row_id kv_view) (key_values (tdb ctx))" using wf(7) by simp
  have obj: "obj \<in> set (key_values (tdb ctx))" using cache_getD(1) [OF wf(5) u 1(1)] .
  then have old: "buffer_fits (kv_value obj)" using wf(1) by (simp add: db_wf_def)
  have t: "tables (tdb ctx') = tables (tdb ctx1)" "index_rows (tdb ctx') = index_rows (tdb ctx1)"
      "key_values (tdb ctx') = tbl_modify kv_id (kv_id obj) (\<lambda>o'. o'\<lparr>kv_value := buffer, kv_payer := payer'\<rparr>) (key_values (tdb ctx1))"
      "resources ctx' = resources ctx1"
    using 1(6) by simp_all
  show ?thesis
  proof (cases "kv_payer obj \<noteq> payer'")
    case True
    then have mv: "bind_res (update_db_usage info ctx (kv_payer obj) (- (int (length (kv_value obj)) + billable_key_value_object)))
        (\<lambda>ctx. update_db_usage info ctx payer' (int (length buffer) + billable_key_value_object)) = Inr ctx1"
      using 1(5) by simp
    have "tdb ctx1 = tdb ctx" using move_frame [OF mv] by simp
    then show ?thesis
      by (intro slack_move [OF mv row_delta_fits(2) [OF old old] row_delta_fits(1) [OF fits fits] t(4)])
        (simp add: table_owed_def t owned_sum_change [OF wf(7) obj])
  next
    case False
    show ?thesis
    proof (cases "length (kv_value obj) = length buffer")
      case True
      then have "ctx1 = ctx" using 1(5) False by simp
      then show ?thesis
        using True False by (simp add: contract_slack_def table_owed_def t owned_sum_change [OF wf(7) obj] ram_billed_def)
    next
      case len: False
      then have ch: "update_db_usage info ctx (kv_payer obj) (int (length buffer) - int (length (kv_value obj))) = Inr ctx1"
        using 1(5) False by simp
      show ?thesis
        by (rule slack_charge [OF ch row_delta_fits(3) [OF fits old] refl t(4)])
          (use False in \<open>simp add: table_owed_def t owned_sum_change [OF wf(7) obj] update_db_usage_frame(1) [OF ch]\<close>)
    qed
  qed
qed

lemma ix_update_slack:
  assumes inv: "contract_inv ctx" and app: "idx_update sz info ctx iterator payer x = Inr ctx'"
    and sz: "ram_delta_fits sz" "ram_delta_fits (- sz)"
  shows "contract_slack sz ctx' a = contract_slack sz ctx a"
  using app
proof (cases rule: idx_updateE)
  case (1 obj table_obj ctx1 payer')
  note wf = contract_invD [OF inv]
  have u: "tbl_unique (row_id ix_view) (index_rows (tdb ctx))" using wf(8) by simp
  have obj: "obj \<in> set (index_rows (tdb ctx))" using cache_getD(1) [OF wf(6) u 1(1)] .
  have t: "tables (tdb ctx') = tables (tdb ctx1)" "key_values (tdb ctx') = key_values (tdb ctx1)"
      "index_rows (tdb ctx') = tbl_modify ix_id (ix_id obj) (\<lambda>o'. o'\<lparr>ix_secondary_key := x, ix_payer := payer'\<rparr>) (index_rows (tdb ctx1))"
      "resources ctx' = resources ctx1"
    using 1(6) by simp_all
  show ?thesis
  proof (cases "ix_payer obj \<noteq> payer'")
    case True
    then have mv: "bind_res (update_db_usage info ctx (ix_payer obj) (- sz)) (\<lambda>ctx. update_db_usage info ctx payer' sz) = Inr ctx1"
      using 1(5) by simp
    have "tdb ctx1 = tdb ctx" using move_frame [OF mv] by simp
    then show ?thesis
      by (intro slack_move [OF mv sz(2,1) t(4)]) (simp add: table_owed_def t owned_sum_change [OF wf(8) obj])
  next
    case False
    then have "ctx1 = ctx" using 1(5) by simp
    then show ?thesis
      using False by (simp add: contract_slack_def table_owed_def t owned_sum_change [OF wf(8) obj] ram_billed_def)
  qed
qed

text \<open>A table that is dropped gives its own RAM back to its payer.\<close>

lemma drop_empty_slack:
  assumes u: "tables_wf nt (tables (tdb ctx))" and t': "t' \<in> set (tables (tdb ctx))" "ti_id t' = ti_id t" "ti_payer t' = ti_payer t"
    and app: "drop_empty info ctx t = Inr ctx'"
  shows "contract_slack sz ctx' a = contract_slack sz ctx a"
proof (cases "ti_count t - 1 = 0")
  case True
  then have rm: "remove_table info ctx (t\<lparr>ti_count := ti_count t - 1\<rparr>) = Inr ctx'"
    using app by (simp add: drop_empty_def)
  obtain ctx1 where c: "update_db_usage info ctx (ti_payer (t\<lparr>ti_count := ti_count t - 1\<rparr>)) (- billable_table_id_object) = Inr ctx1"
      "ctx' = ctx1\<lparr>tdb := table_removed (tdb ctx) (ti_id (t\<lparr>ti_count := ti_count t - 1\<rparr>))\<rparr>"
    by (rule remove_tableE [OF rm])
  have ut: "tbl_unique ti_id (tables (tdb ctx))" using u by (simp add: tables_wf_def)
  show ?thesis
  proof (rule slack_charge [OF c(1)])
    show "table_owed sz (tdb ctx') b = table_owed sz (tdb ctx) b +
        (if b = ti_payer (t\<lparr>ti_count := ti_count t - 1\<rparr>) then - billable_table_id_object else 0)" for b
      using owned_sum_remove [OF ut t'(1), of ti_payer "\<lambda>_. billable_table_id_object" b] t'(2,3)
      by (simp add: table_owed_def table_removed_def c(2))
  qed (simp_all add: c(2) ram_delta_fits_def billable_table_sizes)
next
  case False
  then show ?thesis using app by (simp add: drop_empty_def)
qed

lemma count_changed_payer:
  "t \<in> set ts \<Longrightarrow> \<exists>t' \<in> set (count_changed i n ts). ti_id t' = ti_id t \<and> ti_payer t' = ti_payer t"
  by (rule bexI [of _ "if ti_id t = i then t\<lparr>ti_count := ti_count t + n\<rparr> else t"])
     (auto simp: count_changed_def tbl_modify_def)

lemma kv_remove_slack:
  assumes inv: "contract_inv ctx" and app: "db_remove_i64 info ctx iterator = Inr ctx'"
  shows "contract_slack sz ctx' a = contract_slack sz ctx a"
proof -
  note wf = contract_invD [OF inv]
  show ?thesis using app inv
  proof (cases rule: db_removeE)
    case (1 obj t ctx1 ctx2)
    have u: "tbl_unique (row_id kv_view) (key_values (tdb ctx))" using wf(7) by simp
    have obj: "obj \<in> set (key_values (tdb ctx))" using cache_getD(1) [OF wf(5) u 1(1)] .
    then have old: "buffer_fits (kv_value obj)" using wf(1) by (simp add: db_wf_def)
    let ?ctx = "ctx1\<lparr>tdb := kv_removed (tdb ctx) obj\<rparr>"
    have "contract_slack sz ?ctx a = contract_slack sz ctx a"
      by (rule slack_charge [OF 1(4) row_delta_fits(2) [OF old old]])
        (simp_all add: table_owed_def kv_removed_def owned_sum_remove [OF wf(7) obj])
    moreover obtain t' where t': "t' \<in> set (tables (tdb ?ctx))" "ti_id t' = ti_id t" "ti_payer t' = ti_payer t"
      using count_changed_payer [OF get_tableD(1) [OF wf(5) 1(2)], of "kv_t_id obj" "- 1"] by (auto simp: kv_removed_def)
    have "tables_wf (next_table (tdb ctx)) (tables (tdb ?ctx))" using wf(2) by (simp add: kv_removed_def)
    note d = drop_empty_slack [OF this t' 1(5), of sz a]
    have "contract_slack sz ctx' a = contract_slack sz ctx2 a"
      using arg_cong [OF 1(7), of tdb] arg_cong [OF 1(7), of resources] by (simp add: contract_slack_def ram_billed_def)
    ultimately show ?thesis using d by simp
  qed
qed

lemma ix_remove_slack:
  assumes inv: "contract_inv ctx" and app: "idx_remove sz info ctx iterator = Inr ctx'" and sz: "ram_delta_fits (- sz)"
  shows "contract_slack sz ctx' a = contract_slack sz ctx a"
proof -
  note wf = contract_invD [OF inv]
  show ?thesis using app inv
  proof (cases rule: idx_removeE)
    case (1 obj t ctx1 ctx2)
    have u: "tbl_unique (row_id ix_view) (index_rows (tdb ctx))" using wf(8) by simp
    have obj: "obj \<in> set (index_rows (tdb ctx))" using cache_getD(1) [OF wf(6) u 1(1)] .
    let ?ctx = "ctx1\<lparr>tdb := ix_removed (tdb ctx) obj\<rparr>"
    have "contract_slack sz ?ctx a = contract_slack sz ctx a"
      by (rule slack_charge [OF 1(4) sz])
        (simp_all add: table_owed_def ix_removed_def owned_sum_remove [OF wf(8) obj])
    moreover obtain t' where t': "t' \<in> set (tables (tdb ?ctx))" "ti_id t' = ti_id t" "ti_payer t' = ti_payer t"
      using count_changed_payer [OF get_tableD(1) [OF wf(6) 1(2)], of "ix_t_id obj" "- 1"] by (auto simp: ix_removed_def)
    have "tables_wf (next_table (tdb ctx)) (tables (tdb ?ctx))" using wf(2) by (simp add: ix_removed_def)
    note d = drop_empty_slack [OF this t' 1(5), of sz a]
    have "contract_slack sz ctx' a = contract_slack sz ctx2 a"
      using arg_cong [OF 1(7), of tdb] arg_cong [OF 1(7), of resources] by (simp add: contract_slack_def ram_billed_def)
    ultimately show ?thesis using d by simp
  qed
qed

lemma contract_step_slack:
  assumes inv: "contract_inv ctx" and step: "contract_step sz info ctx ctx'" and sz: "ram_delta_fits sz"
  shows "contract_slack sz ctx' a = contract_slack sz ctx a"
proof -
  have sz': "ram_delta_fits (- sz)" using sz by (auto simp: ram_delta_fits_def)
  show ?thesis using step inv
  proof (cases rule: contract_step_cases)
    case read
    show ?thesis using read_same [OF read] by (simp add: contract_slack_def ram_billed_def)
  next
    case (store scope table payer pk buffer i)
    then show ?thesis using kv_store_slack unfolding db_store_i64_def by blast
  next
    case (update i payer buffer)
    then show ?thesis by (rule kv_update_slack [OF inv])
  next
    case (remove i)
    then show ?thesis by (rule kv_remove_slack [OF inv])
  next
    case (idx_store scope table payer pk x i)
    show ?thesis by (rule ix_store_slack [OF idx_store(1) sz])
  next
    case (idx_update i payer x)
    then show ?thesis by (rule ix_update_slack [OF inv _ sz sz'])
  next
    case (idx_remove i)
    then show ?thesis by (rule ix_remove_slack [OF inv _ sz'])
  qed
qed

end
