(* ===== verification/Contract_Refine.thy ===== *)
theory Contract_Refine
  imports Contract_Steps
begin

text \<open>
  The contract tables as a map.  A contract sees a partial map from code, scope, table and primary
  key to a payer and a value; \<open>kv_map\<close> and \<open>ix_map\<close> are that view of the two kinds of rows.  The
  identifiers of tables, the counts and the caches are invisible in it: a store adds one entry, an
  update and a removal change the one entry the iterator stands for, everything else is kept.
\<close>

section \<open>The view\<close>

type_synonym row_key = "(u64 \<times> u64 \<times> u64) \<times> u64"

definition assoc :: "'r row_view \<Rightarrow> ('r \<Rightarrow> 'x) \<Rightarrow> table_id_object list \<Rightarrow> 'r list \<Rightarrow> row_key \<Rightarrow> 'x option" where
  "assoc v val ts rows k =
     (case tbl_find by_code_scope_table (fst k) ts of
        None \<Rightarrow> None
      | Some t \<Rightarrow> map_option val (find (\<lambda>r. row_table v r = ti_id t \<and> row_primary v r = snd k) rows))"

definition kv_map :: "'s contract_ctx \<Rightarrow> row_key \<Rightarrow> (u64 \<times> u8 list) option" where
  "kv_map ctx = assoc kv_view (\<lambda>r. (kv_payer r, kv_value r)) (tables (tdb ctx)) (key_values (tdb ctx))"

definition ix_map :: "'s contract_ctx \<Rightarrow> row_key \<Rightarrow> (u64 \<times> 's) option" where
  "ix_map ctx = assoc ix_view (\<lambda>r. (ix_payer r, ix_secondary_key r)) (tables (tdb ctx)) (index_rows (tdb ctx))"

text \<open>The entry an iterator stands for.\<close>

definition entry_at :: "'r row_view \<Rightarrow> table_id_object list \<Rightarrow> 'r list \<Rightarrow> iterator_cache \<Rightarrow> int \<Rightarrow> row_key option" where
  "entry_at v ts rows c i =
     (case cache_get v rows c i of
        Inl _ \<Rightarrow> None
      | Inr r \<Rightarrow> map_option (\<lambda>t. (by_code_scope_table t, row_primary v r)) (tbl_find ti_id (row_table v r) ts))"

definition kv_at :: "'s contract_ctx \<Rightarrow> int \<Rightarrow> row_key option" where
  "kv_at ctx = entry_at kv_view (tables (tdb ctx)) (key_values (tdb ctx)) (keyval_cache ctx)"

definition ix_at :: "'s contract_ctx \<Rightarrow> int \<Rightarrow> row_key option" where
  "ix_at ctx = entry_at ix_view (tables (tdb ctx)) (index_rows (tdb ctx)) (index_cache ctx)"

section \<open>How the view changes\<close>

definition row_key_of :: "'r row_view \<Rightarrow> 'r \<Rightarrow> nat \<times> u64" where
  "row_key_of v r = (row_table v r, row_primary v r)"

lemma row_key_of_views: "row_key_of kv_view = by_scope_primary" "row_key_of ix_view = by_primary"
  by (simp_all add: row_key_of_def by_scope_primary_def by_primary_def fun_eq_iff)

lemma assoc_Some_iff:
  assumes ts: "tables_wf nt ts" and u: "tbl_unique (row_key_of v) rows"
  shows "assoc v val ts rows k = Some x \<longleftrightarrow>
     (\<exists>t \<in> set ts. \<exists>r \<in> set rows. by_code_scope_table t = fst k \<and> row_table v r = ti_id t \<and> row_primary v r = snd k \<and> val r = x)"
proof -
  have find: "find (\<lambda>r. row_table v r = i \<and> row_primary v r = pk) rows = tbl_find (row_key_of v) (i, pk) rows" for i pk
    by (simp add: tbl_find_def row_key_of_def)
  have row: "tbl_find (row_key_of v) (i, pk) rows = Some r \<longleftrightarrow> r \<in> set rows \<and> row_table v r = i \<and> row_primary v r = pk" for i pk r
    using tbl_find_Some_iff [OF u] by (simp add: row_key_of_def)
  show ?thesis
  proof (cases "tbl_find by_code_scope_table (fst k) ts")
    case None
    have "by_code_scope_table t \<noteq> fst k" if "t \<in> set ts" for t
      using None [unfolded tbl_find_None_iff] imageI [OF that, of by_code_scope_table] by (intro notI) simp
    with None show ?thesis by (auto simp: assoc_def)
  next
    case (Some t)
    then have t: "t \<in> set ts" "by_code_scope_table t = fst k" using tables_wf_find(2) [OF ts] by auto
    have only: "t' = t" if "t' \<in> set ts" "by_code_scope_table t' = fst k" for t'
      using Some that tables_wf_find(2) [OF ts, of "fst k" t'] by simp
    have "assoc v val ts rows k = Some x \<longleftrightarrow>
        (\<exists>r \<in> set rows. row_table v r = ti_id t \<and> row_primary v r = snd k \<and> val r = x)"
      unfolding assoc_def Some option.case find map_option_eq_Some row by blast
    then show ?thesis using t only by blast
  qed
qed

lemma map_eqI: "(\<And>k x. m k = Some x \<longleftrightarrow> m' k = Some x) \<Longrightarrow> m = m'"
  by (metis ext not_None_eq)

definition table_keys :: "table_id_object list \<Rightarrow> (nat \<times> (u64 \<times> u64 \<times> u64)) set" where
  "table_keys ts = (\<lambda>t. (ti_id t, by_code_scope_table t)) ` set ts"

lemma table_keys_mem: "(i, k) \<in> table_keys ts \<longleftrightarrow> (\<exists>t \<in> set ts. ti_id t = i \<and> by_code_scope_table t = k)"
  by (auto simp: table_keys_def)

lemma table_key_at:
  assumes "tables_wf nt ts" and "t \<in> set ts" and "ti_id t = i"
  shows "(i, k) \<in> table_keys ts \<longleftrightarrow> k = by_code_scope_table t"
proof
  assume "(i, k) \<in> table_keys ts"
  then obtain t' where "t' \<in> set ts" "ti_id t' = i" "k = by_code_scope_table t'" by (auto simp: table_keys_def)
  then show "k = by_code_scope_table t" using tables_wf_inj [OF assms(1), of t' t] assms(2,3) by simp
qed (use assms(2,3) in \<open>auto simp: table_keys_def\<close>)

lemma table_keys_count [simp]: "table_keys (count_changed i n ts) = table_keys ts"
proof -
  have "(ti_id t', by_code_scope_table t') \<in> table_keys ts" if "t' \<in> set (count_changed i n ts)" for t'
    using that by (auto simp: count_changed_def tbl_modify_def table_keys_def by_code_scope_table_def)
  moreover have "(ti_id t, by_code_scope_table t) \<in> table_keys (count_changed i n ts)" if "t \<in> set ts" for t
    using that unfolding table_keys_def
    by (intro image_eqI [of _ _ "if ti_id t = i then t\<lparr>ti_count := ti_count t + n\<rparr> else t"])
      (auto simp: count_changed_def tbl_modify_def by_code_scope_table_def)
  ultimately show ?thesis by (force simp: table_keys_def)
qed

lemma assoc_iff_keys:
  assumes "tables_wf nt ts" and "tbl_unique (row_key_of v) rows"
  shows "assoc v val ts rows k = Some x \<longleftrightarrow>
     (\<exists>r \<in> set rows. (row_table v r, fst k) \<in> table_keys ts \<and> row_primary v r = snd k \<and> val r = x)"
  unfolding assoc_Some_iff [OF assms] table_keys_mem by metis

text \<open>The tables without rows do not matter.\<close>

lemma assoc_tables:
  assumes "tables_wf nt ts" and "tables_wf nt' ts'" and "tbl_unique (row_key_of v) rows"
    and "\<And>r k. r \<in> set rows \<Longrightarrow> (row_table v r, k) \<in> table_keys ts' \<longleftrightarrow> (row_table v r, k) \<in> table_keys ts"
  shows "assoc v val ts' rows = assoc v val ts rows"
  using assms(4) by (intro map_eqI) (auto simp: assoc_iff_keys [OF assms(1,3)] assoc_iff_keys [OF assms(2,3)])

lemma assoc_snoc:
  assumes ts: "tables_wf nt ts" and u: "tbl_unique (row_key_of v) (rows @ [r])"
    and t: "t \<in> set ts" "ti_id t = row_table v r"
  shows "assoc v val ts (rows @ [r]) = (assoc v val ts rows)((by_code_scope_table t, row_primary v r) \<mapsto> val r)"
    and "assoc v val ts rows (by_code_scope_table t, row_primary v r) = None"
proof -
  have u': "tbl_unique (row_key_of v) rows" using u by (simp add: tbl_unique_def)
  have key: "(row_table v r, k) \<in> table_keys ts \<longleftrightarrow> k = by_code_scope_table t" for k
    by (rule table_key_at [OF ts t])
  have new: "\<not> ((row_table v q, by_code_scope_table t) \<in> table_keys ts \<and> row_primary v q = row_primary v r)" if "q \<in> set rows" for q
  proof
    assume *: "(row_table v q, by_code_scope_table t) \<in> table_keys ts \<and> row_primary v q = row_primary v r"
    then obtain t' where t': "t' \<in> set ts" "ti_id t' = row_table v q" "by_code_scope_table t' = by_code_scope_table t"
      by (auto simp: table_keys_def)
    have "t' = t" using tables_wf_find(2) [OF ts, of "by_code_scope_table t"] t' t(1) by (metis option.inject)
    then have "row_key_of v q = row_key_of v r" using * t t' by (simp add: row_key_of_def)
    then show False using u that by (auto simp: tbl_unique_def image_iff)
  qed
  show none: "assoc v val ts rows (by_code_scope_table t, row_primary v r) = None"
  proof (rule ccontr)
    assume "assoc v val ts rows (by_code_scope_table t, row_primary v r) \<noteq> None"
    then obtain x where "assoc v val ts rows (by_code_scope_table t, row_primary v r) = Some x" by auto
    then show False unfolding assoc_iff_keys [OF ts u'] using new by auto
  qed
  show "assoc v val ts (rows @ [r]) = (assoc v val ts rows)((by_code_scope_table t, row_primary v r) \<mapsto> val r)"
  proof (rule map_eqI)
    fix k x
    show "assoc v val ts (rows @ [r]) k = Some x \<longleftrightarrow>
        ((assoc v val ts rows)((by_code_scope_table t, row_primary v r) \<mapsto> val r)) k = Some x"
      using new key by (cases k) (auto simp: assoc_iff_keys [OF ts u] assoc_iff_keys [OF ts u'])
  qed
qed

lemma assoc_other:
  assumes ts: "tables_wf nt ts" and u: "tbl_unique (row_key_of v) rows" and r: "r \<in> set rows"
    and t: "t \<in> set ts" "ti_id t = row_table v r"
  shows "q \<in> set rows \<Longrightarrow> (row_table v q, by_code_scope_table t) \<in> table_keys ts \<Longrightarrow> row_primary v q = row_primary v r \<Longrightarrow> q = r"
    and "(row_table v r, k) \<in> table_keys ts \<longleftrightarrow> k = by_code_scope_table t"
    and "assoc v val ts rows (by_code_scope_table t, row_primary v r) = Some (val r)"
proof -
  show key: "(row_table v r, k) \<in> table_keys ts \<longleftrightarrow> k = by_code_scope_table t" for k
    by (rule table_key_at [OF ts t])
  show "q = r" if q: "q \<in> set rows" "(row_table v q, by_code_scope_table t) \<in> table_keys ts" "row_primary v q = row_primary v r"
  proof -
    obtain t' where t': "t' \<in> set ts" "ti_id t' = row_table v q" "by_code_scope_table t' = by_code_scope_table t"
      using q(2) by (auto simp: table_keys_def)
    have "t' = t" using tables_wf_find(2) [OF ts, of "by_code_scope_table t"] t' t(1) by (metis option.inject)
    then have "row_key_of v q = row_key_of v r" using q t t' by (simp add: row_key_of_def)
    then show ?thesis using u q(1) r by (auto simp: tbl_unique_def distinct_map inj_on_def)
  qed
  show "assoc v val ts rows (by_code_scope_table t, row_primary v r) = Some (val r)"
    unfolding assoc_iff_keys [OF ts u] by (rule bexI [OF _ r]) (use key [of "by_code_scope_table t"] in simp)
qed

lemma assoc_remove:
  assumes ts: "tables_wf nt ts" and u: "tbl_unique (row_key_of v) rows" and i: "tbl_unique (row_id v) rows" and r: "r \<in> set rows"
    and t: "t \<in> set ts" "ti_id t = row_table v r"
  shows "assoc v val ts (tbl_remove (row_id v) (row_id v r) rows) =
     (assoc v val ts rows)((by_code_scope_table t, row_primary v r) := None)"
proof (rule map_eqI)
  fix k x
  note o = assoc_other [OF ts u r t]
  have u': "tbl_unique (row_key_of v) (tbl_remove (row_id v) (row_id v r) rows)"
    using u by (simp add: tbl_unique_def tbl_remove_def distinct_map_filter)
  have mem: "set (tbl_remove (row_id v) (row_id v r) rows) = set rows - {r}"
    using i r by (auto simp: tbl_remove_def tbl_unique_def distinct_map inj_on_def)
  show "assoc v val ts (tbl_remove (row_id v) (row_id v r) rows) k = Some x \<longleftrightarrow>
      ((assoc v val ts rows)((by_code_scope_table t, row_primary v r) := None)) k = Some x"
    using o(1,2) by (cases k) (auto simp: assoc_iff_keys [OF ts u] assoc_iff_keys [OF ts u'] mem)
qed

lemma assoc_modify:
  assumes ts: "tables_wf nt ts" and u: "tbl_unique (row_key_of v) rows" and i: "tbl_unique (row_id v) rows" and r: "r \<in> set rows"
    and t: "t \<in> set ts" "ti_id t = row_table v r"
    and f: "\<And>q. row_table v (f q) = row_table v q \<and> row_primary v (f q) = row_primary v q"
  shows "assoc v val ts (tbl_modify (row_id v) (row_id v r) f rows) =
     (assoc v val ts rows)((by_code_scope_table t, row_primary v r) \<mapsto> val (f r))"
proof (rule map_eqI)
  fix k x
  note o = assoc_other [OF ts u r t]
  have "map (row_key_of v) (tbl_modify (row_id v) (row_id v r) f rows) = map (row_key_of v) rows"
    using f by (auto simp: tbl_modify_def row_key_of_def)
  then have u': "tbl_unique (row_key_of v) (tbl_modify (row_id v) (row_id v r) f rows)"
    using u by (simp add: tbl_unique_def)
  have mem: "set (tbl_modify (row_id v) (row_id v r) f rows) = insert (f r) (set rows - {r})"
  proof -
    obtain us vs where s: "rows = us @ r # vs" "tbl_modify (row_id v) (row_id v r) f rows = us @ f r # vs"
      using tbl_row_split [OF i r] by metis
    have "r \<notin> set us" "r \<notin> set vs" using i s(1) by (auto simp: tbl_unique_def)
    then show ?thesis unfolding s(2) by (auto simp: s(1))
  qed
  show "assoc v val ts (tbl_modify (row_id v) (row_id v r) f rows) k = Some x \<longleftrightarrow>
      ((assoc v val ts rows)((by_code_scope_table t, row_primary v r) \<mapsto> val (f r))) k = Some x"
    using o(1,2) f by (cases k) (auto simp: assoc_iff_keys [OF ts u] assoc_iff_keys [OF ts u'] mem)
qed

section \<open>The calls in the view\<close>

lemma contract_assoc:
  assumes "contract_inv ctx"
  shows "tables_wf (next_table (tdb ctx)) (tables (tdb ctx))"
    and "tbl_unique (row_key_of kv_view) (key_values (tdb ctx))" and "tbl_unique (row_id kv_view) (key_values (tdb ctx))"
    and "tbl_unique (row_key_of ix_view) (index_rows (tdb ctx))" and "tbl_unique (row_id ix_view) (index_rows (tdb ctx))"
  using contract_invD [OF assms] by (simp_all add: row_key_of_views rows_wf_def)

lemma find_or_create_maps:
  assumes inv: "contract_inv ctx" and app: "find_or_create_table info ctx code scope table payer = Inr (ctx1, tab)"
  shows "kv_map ctx1 = kv_map ctx" and "ix_map ctx1 = ix_map ctx"
proof -
  note wf = contract_invD [OF inv] and as = contract_assoc [OF inv]
  note fc = find_or_create_wf [OF wf(1) app]
  have ts1: "tables_wf (next_table (tdb ctx1)) (tables (tdb ctx1))" using fc(1) by (simp add: db_wf_def)
  have keys: "(i, k) \<in> table_keys (tables (tdb ctx1)) \<longleftrightarrow> (i, k) \<in> table_keys (tables (tdb ctx))" if "i < next_table (tdb ctx)" for i k
    using app by (cases rule: find_or_createE) (use that in \<open>auto simp: table_keys_mem\<close>)
  have id: "i < next_table (tdb ctx)" if "i \<in> ti_id ` set (tables (tdb ctx))" for i
    using wf(2) that by (auto simp: tables_wf_def)
  show "kv_map ctx1 = kv_map ctx"
    unfolding kv_map_def fc(4)
    by (rule assoc_tables [OF as(1) ts1 as(2)]) (rule keys, rule id, rule rows_wf_live [OF wf(3)])
  show "ix_map ctx1 = ix_map ctx"
    unfolding ix_map_def fc(6)
    by (rule assoc_tables [OF as(1) ts1 as(4)]) (rule keys, rule id, rule rows_wf_live [OF wf(4)])
qed

text \<open>A change of the tables that keeps identifiers and keys is not seen.\<close>

lemma assoc_same_keys:
  assumes "tables_wf nt ts" and "tables_wf nt' ts'" and "tbl_unique (row_key_of v) rows" and "table_keys ts' = table_keys ts"
  shows "assoc v val ts' rows = assoc v val ts rows"
  by (rule assoc_tables [OF assms(1-3)]) (simp add: assms(4))

lemma assoc_store:
  assumes "tables_wf nt ts" and "tables_wf nt ts'" and "table_keys ts' = table_keys ts"
    and "tbl_unique (row_key_of v) (rows @ [r])" and "t \<in> set ts" and "ti_id t = row_table v r"
    and "by_code_scope_table t = k" and "row_primary v r = pk"
  shows "assoc v val ts' (rows @ [r]) = (assoc v val ts rows)((k, pk) \<mapsto> val r)" and "assoc v val ts rows (k, pk) = None"
  using assoc_snoc [OF assms(1,4-6), of val] assoc_same_keys [OF assms(1,2,4,3), of val] assms(7,8) by simp_all

lemma kv_store_maps:
  assumes inv: "contract_inv ctx" and app: "db_store_i64_code info ctx code scope table payer pk buffer = Inr (ctx', i)"
    and fits: "buffer_fits buffer" and room: "rows_total (tdb ctx) + 1 < 2 ^ 32"
  shows "kv_map ctx' = (kv_map ctx)(((code, scope, table), pk) \<mapsto> (payer, buffer)) \<and>
    kv_map ctx ((code, scope, table), pk) = None \<and> ix_map ctx' = ix_map ctx"
  using app
proof (cases rule: db_storeE)
  case (1 ctx1 tab ctx2)
  note inv' = kv_store_inv(1) [OF inv app fits room]
  note fc = find_or_create_wf [OF contract_invD(1) [OF inv] 1(1)] and m = find_or_create_maps [OF inv 1(1)]
  have db: "tdb ctx' = kv_stored (tdb ctx1) (ti_id tab) payer pk buffer"
    using arg_cong [OF 1(6), of tdb] update_db_usage_frame(1) [OF 1(4)] by simp
  have ts1: "tables_wf (next_table (tdb ctx1)) (tables (tdb ctx1))" using fc(1) by (simp add: db_wf_def)
  have ts': "tables_wf (next_table (tdb ctx1)) (tables (tdb ctx'))" using ts1 by (simp add: db kv_stored_def)
  have keys: "table_keys (tables (tdb ctx')) = table_keys (tables (tdb ctx1))" by (simp add: db kv_stored_def)
  let ?r = "\<lparr>kv_id = next_key_value (tdb ctx1), kv_t_id = ti_id tab, kv_primary_key = pk, kv_payer = payer, kv_value = buffer\<rparr>"
  have rows: "key_values (tdb ctx') = key_values (tdb ctx1) @ [?r]" "index_rows (tdb ctx') = index_rows (tdb ctx1)"
    by (simp_all add: db kv_stored_def)
  have u: "tbl_unique (row_key_of kv_view) (key_values (tdb ctx1) @ [?r])"
    "tbl_unique (row_key_of ix_view) (index_rows (tdb ctx1))"
    using contract_assoc(2,4) [OF inv'] unfolding rows .
  have t: "ti_id tab = row_table kv_view ?r" "row_primary kv_view ?r = pk" by simp_all
  note st = assoc_store [OF ts1 ts' keys u(1) fc(2) t(1) fc(3) t(2), where val = "\<lambda>r. (kv_payer r, kv_value r)"]
  have "kv_map ctx' = (kv_map ctx1)(((code, scope, table), pk) \<mapsto> (payer, buffer))"
    unfolding kv_map_def rows st(1) by simp
  moreover have "kv_map ctx1 ((code, scope, table), pk) = None" unfolding kv_map_def by (rule st(2))
  moreover have "ix_map ctx' = ix_map ctx1"
    unfolding ix_map_def rows by (rule assoc_same_keys [OF ts1 ts' u(2) keys])
  ultimately show ?thesis using m by simp
qed

lemma ix_store_maps:
  assumes inv: "contract_inv ctx" and app: "idx_store sz info ctx scope table payer pk x = Inr (ctx', i)"
    and room: "rows_total (tdb ctx) + 1 < 2 ^ 32"
  shows "ix_map ctx' = (ix_map ctx)(((receiver info, scope, table), pk) \<mapsto> (payer, x)) \<and>
    ix_map ctx ((receiver info, scope, table), pk) = None \<and> kv_map ctx' = kv_map ctx"
  using app
proof (cases rule: idx_storeE)
  case (1 ctx1 tab ctx2)
  note inv' = ix_store_inv(1) [OF inv app room]
  note fc = find_or_create_wf [OF contract_invD(1) [OF inv] 1(1)] and m = find_or_create_maps [OF inv 1(1)]
  have db: "tdb ctx' = ix_stored (tdb ctx1) (ti_id tab) payer pk x"
    using arg_cong [OF 1(6), of tdb] update_db_usage_frame(1) [OF 1(4)] by simp
  have ts1: "tables_wf (next_table (tdb ctx1)) (tables (tdb ctx1))" using fc(1) by (simp add: db_wf_def)
  have ts': "tables_wf (next_table (tdb ctx1)) (tables (tdb ctx'))" using ts1 by (simp add: db ix_stored_def)
  have keys: "table_keys (tables (tdb ctx')) = table_keys (tables (tdb ctx1))" by (simp add: db ix_stored_def)
  let ?r = "\<lparr>ix_id = next_index (tdb ctx1), ix_t_id = ti_id tab, ix_primary_key = pk, ix_payer = payer, ix_secondary_key = x\<rparr>"
  have rows: "index_rows (tdb ctx') = index_rows (tdb ctx1) @ [?r]" "key_values (tdb ctx') = key_values (tdb ctx1)"
    by (simp_all add: db ix_stored_def)
  have u: "tbl_unique (row_key_of ix_view) (index_rows (tdb ctx1) @ [?r])"
    "tbl_unique (row_key_of kv_view) (key_values (tdb ctx1))"
    using contract_assoc(4,2) [OF inv'] unfolding rows .
  have t: "ti_id tab = row_table ix_view ?r" "row_primary ix_view ?r = pk" by simp_all
  note st = assoc_store [OF ts1 ts' keys u(1) fc(2) t(1) fc(3) t(2), where val = "\<lambda>r. (ix_payer r, ix_secondary_key r)"]
  have "ix_map ctx' = (ix_map ctx1)(((receiver info, scope, table), pk) \<mapsto> (payer, x))"
    unfolding ix_map_def rows st(1) by simp
  moreover have "ix_map ctx1 ((receiver info, scope, table), pk) = None" unfolding ix_map_def by (rule st(2))
  moreover have "kv_map ctx' = kv_map ctx1"
    unfolding kv_map_def rows by (rule assoc_same_keys [OF ts1 ts' u(2) keys])
  ultimately show ?thesis using m by simp
qed

text \<open>What an iterator from the cache stands for.\<close>

lemma entry_at_get:
  assumes c: "cache_inv nt v rows c" and ts: "tables_wf nt' ts" and g: "cache_get v rows c i = Inr r"
    and t: "get_table ts c (row_table v r) = Inr t"
  shows "entry_at v ts rows c i = Some (by_code_scope_table t, row_primary v r)"
proof -
  have "tbl_find ti_id (row_table v r) ts = Some t"
    using get_tableD [OF c t] tables_wf_find(1) [OF ts] by simp
  then show ?thesis by (simp add: entry_at_def g)
qed

text \<open>Tables that lose a table without rows.\<close>

lemma assoc_fewer_tables:
  assumes ts: "tables_wf nt ts" and ts': "tables_wf nt' ts'" and u: "tbl_unique (row_key_of v) rows"
    and sub: "table_keys ts' \<subseteq> table_keys ts" and live: "\<And>r. r \<in> set rows \<Longrightarrow> row_table v r \<in> ti_id ` set ts'"
  shows "assoc v val ts' rows = assoc v val ts rows"
proof (rule assoc_tables [OF ts ts' u])
  fix r k
  assume r: "r \<in> set rows"
  then obtain t' where t': "t' \<in> set ts'" "ti_id t' = row_table v r" using live by fastforce
  then have "(row_table v r, by_code_scope_table t') \<in> table_keys ts'" by (auto simp: table_keys_mem)
  then have "(row_table v r, by_code_scope_table t') \<in> table_keys ts" by (rule subsetD [OF sub])
  then obtain t where t: "t \<in> set ts" "ti_id t = row_table v r" "by_code_scope_table t = by_code_scope_table t'"
    unfolding table_keys_mem by blast
  show "(row_table v r, k) \<in> table_keys ts' \<longleftrightarrow> (row_table v r, k) \<in> table_keys ts"
    unfolding table_key_at [OF ts t(1,2)] table_key_at [OF ts' t'] t(3) ..
qed

lemma kv_update_maps:
  assumes inv: "contract_inv ctx" and app: "db_update_i64 info ctx iterator payer buffer = Inr ctx'"
  obtains k p b where "kv_at ctx iterator = Some k" and "fst (fst k) = receiver info" and "kv_map ctx k = Some (p, b)"
    and "kv_map ctx' = (kv_map ctx)(k \<mapsto> (if payer = 0 then p else payer, buffer))" and "ix_map ctx' = ix_map ctx"
  using app
proof (cases rule: db_updateE)
  case (1 obj t ctx1 payer')
  note wf = contract_invD [OF inv] and as = contract_assoc [OF inv]
  have f: "tdb ctx1 = tdb ctx"
  proof (cases "kv_payer obj \<noteq> payer'")
    case True
    with 1(5) show ?thesis using move_frame [of info ctx] by simp
  next
    case False
    with 1(5) show ?thesis
      using update_db_usage_frame(1) [of info ctx "kv_payer obj" _ ctx1] by (simp split: if_splits)
  qed
  have obj: "obj \<in> set (key_values (tdb ctx))" using cache_getD(1) [OF wf(5) as(3) 1(1)] .
  note gt = get_tableD [OF wf(5) 1(2)]
  have t: "t \<in> set (tables (tdb ctx))" "ti_id t = row_table kv_view obj" using gt by simp_all
  let ?k = "(by_code_scope_table t, kv_primary_key obj)"
  have at: "kv_at ctx iterator = Some ?k"
    using entry_at_get [OF wf(5) wf(2) 1(1)] 1(2) by (simp add: kv_at_def)
  have code: "fst (fst ?k) = receiver info" using 1(3) by (simp add: by_code_scope_table_def)
  have old: "kv_map ctx ?k = Some (kv_payer obj, kv_value obj)"
    using assoc_other(3) [OF as(1,2) obj t, of "\<lambda>r. (kv_payer r, kv_value r)"] by (simp add: kv_map_def)
  have new: "kv_map ctx' = (kv_map ctx)(?k \<mapsto> (payer', buffer))"
    using assoc_modify [OF as(1,2,3) obj t, of "\<lambda>o'. o'\<lparr>kv_value := buffer, kv_payer := payer'\<rparr>" "\<lambda>r. (kv_payer r, kv_value r)"]
    by (simp add: kv_map_def 1(6) f)
  have "ix_map ctx' = ix_map ctx" by (simp add: ix_map_def 1(6) f)
  with at code old new [unfolded 1(4)] show thesis by (rule that)
qed

lemma ix_update_maps:
  assumes inv: "contract_inv ctx" and app: "idx_update sz info ctx iterator payer x = Inr ctx'"
  obtains k p y where "ix_at ctx iterator = Some k" and "fst (fst k) = receiver info" and "ix_map ctx k = Some (p, y)"
    and "ix_map ctx' = (ix_map ctx)(k \<mapsto> (if payer = 0 then p else payer, x))" and "kv_map ctx' = kv_map ctx"
  using app
proof (cases rule: idx_updateE)
  case (1 obj t ctx1 payer')
  note wf = contract_invD [OF inv] and as = contract_assoc [OF inv]
  have f: "tdb ctx1 = tdb ctx"
  proof (cases "ix_payer obj \<noteq> payer'")
    case True
    with 1(5) show ?thesis using move_frame [of info ctx] by simp
  qed (use 1(5) in simp)
  have obj: "obj \<in> set (index_rows (tdb ctx))" using cache_getD(1) [OF wf(6) as(5) 1(1)] .
  note gt = get_tableD [OF wf(6) 1(2)]
  have t: "t \<in> set (tables (tdb ctx))" "ti_id t = row_table ix_view obj" using gt by simp_all
  let ?k = "(by_code_scope_table t, ix_primary_key obj)"
  have at: "ix_at ctx iterator = Some ?k"
    using entry_at_get [OF wf(6) wf(2) 1(1)] 1(2) by (simp add: ix_at_def)
  have code: "fst (fst ?k) = receiver info" using 1(3) by (simp add: by_code_scope_table_def)
  have old: "ix_map ctx ?k = Some (ix_payer obj, ix_secondary_key obj)"
    using assoc_other(3) [OF as(1,4) obj t, of "\<lambda>r. (ix_payer r, ix_secondary_key r)"] by (simp add: ix_map_def)
  have new: "ix_map ctx' = (ix_map ctx)(?k \<mapsto> (payer', x))"
    using assoc_modify [OF as(1,4,5) obj t, of "\<lambda>o'. o'\<lparr>ix_secondary_key := x, ix_payer := payer'\<rparr>" "\<lambda>r. (ix_payer r, ix_secondary_key r)"]
    by (simp add: ix_map_def 1(6) f)
  have "kv_map ctx' = kv_map ctx" by (simp add: kv_map_def 1(6) f)
  with at code old new [unfolded 1(4)] show thesis by (rule that)
qed

lemma drop_empty_keys:
  assumes "drop_empty info ctx t = Inr ctx'"
  shows "table_keys (tables (tdb ctx')) \<subseteq> table_keys (tables (tdb ctx))"
    and "key_values (tdb ctx') = key_values (tdb ctx)" and "index_rows (tdb ctx') = index_rows (tdb ctx)"
proof -
  have "tables (tdb ctx') = tables (tdb ctx) \<or> tables (tdb ctx') = tbl_remove ti_id (ti_id t) (tables (tdb ctx))"
    and "key_values (tdb ctx') = key_values (tdb ctx)" and "index_rows (tdb ctx') = index_rows (tdb ctx)"
    using assms by (auto simp: drop_empty_def table_removed_def elim!: remove_tableE split: if_splits)
  then show "table_keys (tables (tdb ctx')) \<subseteq> table_keys (tables (tdb ctx))"
    and "key_values (tdb ctx') = key_values (tdb ctx)" and "index_rows (tdb ctx') = index_rows (tdb ctx)"
    by (auto simp: table_keys_def tbl_remove_def)
qed

lemma kv_remove_maps:
  assumes inv: "contract_inv ctx" and app: "db_remove_i64 info ctx iterator = Inr ctx'"
  obtains k where "kv_at ctx iterator = Some k" and "fst (fst k) = receiver info" and "kv_map ctx k \<noteq> None"
    and "kv_map ctx' = (kv_map ctx)(k := None)" and "ix_map ctx' = ix_map ctx"
  using app inv
proof (cases rule: db_removeE)
  case (1 obj t ctx1 ctx2)
  note wf = contract_invD [OF inv] and as = contract_assoc [OF inv]
  note inv' = kv_remove_inv [OF inv app]
  note wf' = contract_invD [OF inv'] and as' = contract_assoc [OF inv']
  note dk = drop_empty_keys [OF 1(5)]
  have db: "tdb ctx' = tdb ctx2" using arg_cong [OF 1(7), of tdb] by simp
  have sub: "table_keys (tables (tdb ctx')) \<subseteq> table_keys (tables (tdb ctx))"
    using dk(1) by (simp add: db kv_removed_def)
  have rows: "key_values (tdb ctx') = tbl_remove kv_id (kv_id obj) (key_values (tdb ctx))" "index_rows (tdb ctx') = index_rows (tdb ctx)"
    using dk(2,3) by (simp_all add: db kv_removed_def)
  have obj: "obj \<in> set (key_values (tdb ctx))" using cache_getD(1) [OF wf(5) as(3) 1(1)] .
  have t: "t \<in> set (tables (tdb ctx))" "ti_id t = row_table kv_view obj" using get_tableD [OF wf(5) 1(2)] by simp_all
  let ?k = "(by_code_scope_table t, kv_primary_key obj)"
  have at: "kv_at ctx iterator = Some ?k"
    using entry_at_get [OF wf(5) wf(2) 1(1)] 1(2) by (simp add: kv_at_def)
  have code: "fst (fst ?k) = receiver info" using 1(3) by (simp add: by_code_scope_table_def)
  have old: "kv_map ctx ?k \<noteq> None"
    using assoc_other(3) [OF as(1,2) obj t, of "\<lambda>r. (kv_payer r, kv_value r)"] by (simp add: kv_map_def)
  have "kv_map ctx' = assoc kv_view (\<lambda>r. (kv_payer r, kv_value r)) (tables (tdb ctx)) (key_values (tdb ctx'))"
    unfolding kv_map_def by (rule assoc_fewer_tables [OF as(1) as'(1,2) sub]) (rule rows_wf_live [OF wf'(3)])
  also have "\<dots> = (kv_map ctx)(?k := None)"
    using assoc_remove [OF as(1,2,3) obj t, of "\<lambda>r. (kv_payer r, kv_value r)"] by (simp add: rows kv_map_def)
  finally have new: "kv_map ctx' = (kv_map ctx)(?k := None)" .
  have "ix_map ctx' = ix_map ctx"
    unfolding ix_map_def rows(2) [symmetric] by (rule assoc_fewer_tables [OF as(1) as'(1,4) sub]) (rule rows_wf_live [OF wf'(4)])
  with at code old new show thesis by (rule that)
qed

lemma ix_remove_maps:
  assumes inv: "contract_inv ctx" and app: "idx_remove sz info ctx iterator = Inr ctx'"
  obtains k where "ix_at ctx iterator = Some k" and "fst (fst k) = receiver info" and "ix_map ctx k \<noteq> None"
    and "ix_map ctx' = (ix_map ctx)(k := None)" and "kv_map ctx' = kv_map ctx"
  using app inv
proof (cases rule: idx_removeE)
  case (1 obj t ctx1 ctx2)
  note wf = contract_invD [OF inv] and as = contract_assoc [OF inv]
  note inv' = ix_remove_inv [OF inv app]
  note wf' = contract_invD [OF inv'] and as' = contract_assoc [OF inv']
  note dk = drop_empty_keys [OF 1(5)]
  have db: "tdb ctx' = tdb ctx2" using arg_cong [OF 1(7), of tdb] by simp
  have sub: "table_keys (tables (tdb ctx')) \<subseteq> table_keys (tables (tdb ctx))"
    using dk(1) by (simp add: db ix_removed_def)
  have rows: "index_rows (tdb ctx') = tbl_remove ix_id (ix_id obj) (index_rows (tdb ctx))" "key_values (tdb ctx') = key_values (tdb ctx)"
    using dk(2,3) by (simp_all add: db ix_removed_def)
  have obj: "obj \<in> set (index_rows (tdb ctx))" using cache_getD(1) [OF wf(6) as(5) 1(1)] .
  have t: "t \<in> set (tables (tdb ctx))" "ti_id t = row_table ix_view obj" using get_tableD [OF wf(6) 1(2)] by simp_all
  let ?k = "(by_code_scope_table t, ix_primary_key obj)"
  have at: "ix_at ctx iterator = Some ?k"
    using entry_at_get [OF wf(6) wf(2) 1(1)] 1(2) by (simp add: ix_at_def)
  have code: "fst (fst ?k) = receiver info" using 1(3) by (simp add: by_code_scope_table_def)
  have old: "ix_map ctx ?k \<noteq> None"
    using assoc_other(3) [OF as(1,4) obj t, of "\<lambda>r. (ix_payer r, ix_secondary_key r)"] by (simp add: ix_map_def)
  have "ix_map ctx' = assoc ix_view (\<lambda>r. (ix_payer r, ix_secondary_key r)) (tables (tdb ctx)) (index_rows (tdb ctx'))"
    unfolding ix_map_def by (rule assoc_fewer_tables [OF as(1) as'(1,4) sub]) (rule rows_wf_live [OF wf'(4)])
  also have "\<dots> = (ix_map ctx)(?k := None)"
    using assoc_remove [OF as(1,4,5) obj t, of "\<lambda>r. (ix_payer r, ix_secondary_key r)"] by (simp add: rows ix_map_def)
  finally have new: "ix_map ctx' = (ix_map ctx)(?k := None)" .
  have "kv_map ctx' = kv_map ctx"
    unfolding kv_map_def rows(2) [symmetric] by (rule assoc_fewer_tables [OF as(1) as'(1,2) sub]) (rule rows_wf_live [OF wf'(3)])
  with at code old new show thesis by (rule that)
qed

end
