(* ===== verification/Contract_Spec.thy ===== *)
theory Contract_Spec
  imports Contract_Ram Contract_Refine
begin

text \<open>
  Runs of actions over the contract tables, the errors their calls can give, and the abstract map that
  the tables refine.
\<close>

section \<open>Actions and calls\<close>

text \<open>
  A run of the database: calls of the actions in \<open>infos\<close>, and the start of an action, whose
  \<open>apply_context\<close> has empty caches.
\<close>

definition fresh_action :: "'s contract_ctx \<Rightarrow> 's contract_ctx" where
  "fresh_action ctx = ctx\<lparr>account_ram_deltas := [], keyval_cache := empty_cache, index_cache := empty_cache\<rparr>"

inductive contract_run :: "int \<Rightarrow> 'd apply_info set \<Rightarrow> ('s::linorder) contract_ctx \<Rightarrow> 's contract_ctx \<Rightarrow> bool"
  for sz :: int and infos :: "'d apply_info set" where
  run_call: "info \<in> infos \<Longrightarrow> contract_step sz info ctx ctx' \<Longrightarrow> contract_run sz infos ctx ctx'"
| run_action: "contract_run sz infos ctx (fresh_action ctx)"

definition empty_tables :: "'s table_db" where
  "empty_tables = \<lparr>next_table = 0, tables = [], next_key_value = 0, key_values = [], next_index = 0, index_rows = []\<rparr>"

definition initial_ctx :: "resource_db \<Rightarrow> 's contract_ctx" where
  "initial_ctx rl = \<lparr>resources = rl, account_ram_deltas = [], validate_ram_usage = [], tdb = empty_tables,
     keyval_cache = empty_cache, index_cache = empty_cache\<rparr>"

lemma fresh_action_inv: "contract_inv ctx \<Longrightarrow> contract_inv (fresh_action ctx)"
  by (simp add: contract_inv_def fresh_action_def cache_inv_empty)

lemma initial_inv: "contract_inv (initial_ctx rl)"
  by (simp add: contract_inv_def initial_ctx_def empty_tables_def cache_inv_empty db_wf_def tables_wf_def rows_wf_def counts_wf_def)

lemma contract_run_inv: "contract_run sz infos ctx ctx' \<Longrightarrow> contract_inv ctx \<Longrightarrow> contract_inv ctx'"
  by (cases rule: contract_run.cases) (auto intro: contract_step_inv fresh_action_inv)

lemma contract_runs_inv: "(contract_run sz infos)\<^sup>*\<^sup>* ctx ctx' \<Longrightarrow> contract_inv ctx \<Longrightarrow> contract_inv ctx'"
  by (induction rule: rtranclp_induct) (auto intro: contract_run_inv)

lemma contract_runs_slack:
  assumes "(contract_run sz infos)\<^sup>*\<^sup>* ctx ctx'" and "contract_inv ctx" and "ram_delta_fits sz"
  shows "contract_slack sz ctx' a = contract_slack sz ctx a"
  using assms(1)
proof (induction rule: rtranclp_induct)
  case (step y z)
  have inv: "contract_inv y" by (rule contract_runs_inv [OF step.hyps(1) assms(2)])
  have "contract_slack sz z a = contract_slack sz y a"
    using step.hyps(2)
  proof (cases rule: contract_run.cases)
    case (run_call info)
    then show ?thesis using contract_step_slack [OF inv _ assms(3)] by blast
  next
    case run_action
    then show ?thesis by (simp add: contract_slack_def fresh_action_def ram_billed_def)
  qed
  with step.IH show ?case by simp
qed simp

section \<open>Errors\<close>

lemma update_db_usage_error:
  "update_db_usage info ctx a d = Inl e \<Longrightarrow> e \<noteq> undefined_behaviour \<and> e \<noteq> table_not_in_cache"
  by (auto simp: update_db_usage_def add_ram_usage_def trx_add_ram_usage_def add_pending_ram_usage_def tbl_get_def
      require_authorization_def bind_res_Inl_iff split: if_splits option.splits)

lemma find_or_create_error:
  assumes "find_or_create_table info ctx code scope table payer = Inl e"
  shows "e \<noteq> undefined_behaviour \<and> e \<noteq> table_not_in_cache"
  using assms
  by (auto simp: find_or_create_table_def Let_def bind_res_Inl_iff tbl_create_def split: option.splits
      dest: update_db_usage_error)

definition expected_error :: "chain_error \<Rightarrow> bool" where
  "expected_error e \<longleftrightarrow> e \<noteq> undefined_behaviour \<and> e \<noteq> table_not_in_cache"

lemmas usage_error = update_db_usage_error [folded expected_error_def]
lemmas create_error = find_or_create_error [folded expected_error_def]

lemma expected_errors [simp]:
  "expected_error invalid_table_payer" "expected_error std_logic_error" "expected_error table_access_violation"
  "expected_error invalid_table_iterator" "expected_error table_operation_not_permitted"
  by (simp_all add: expected_error_def)

lemma get_error:
  "cache_inv nt v rows c \<Longrightarrow> cache_get v rows c i = Inl e \<Longrightarrow> expected_error e"
  using cache_get_error by fastforce

lemma tbl_create_error: "tbl_create key r t = Inl e \<Longrightarrow> expected_error e"
  by (auto simp: tbl_create_def split: option.splits)

lemma remove_table_error: "remove_table info ctx t = Inl e \<Longrightarrow> expected_error e"
  by (auto simp: remove_table_def bind_res_Inl_iff dest: usage_error)

text \<open>Once the row was got, the removal from the cache cannot fail.\<close>

lemma cache_remove_ok: "cache_get v rows c i = Inr r \<Longrightarrow> \<exists>c'. cache_remove c i = Inr c'"
  by (auto simp: cache_get_def cache_remove_def split: if_splits option.splits)

lemma cache_remove_tables:
  "cache_remove c i = Inr c' \<Longrightarrow>
     table_cache c' = table_cache c \<and> end_iterator_to_table c' = end_iterator_to_table c"
  by (auto simp: cache_remove_def split: if_splits option.splits)

lemma db_store_error:
  assumes "db_store_i64_code info ctx code scope table payer id' buffer = Inl e"
  shows "expected_error e"
  using assms unfolding db_store_i64_code_def Let_def split_beta
  by (auto simp: bind_res_Inl_iff split: if_splits dest: create_error tbl_create_error usage_error)

lemma idx_store_error:
  assumes "idx_store sz info ctx scope table payer id' x = Inl e"
  shows "expected_error e"
  using assms unfolding idx_store_def Let_def split_beta
  by (auto simp: bind_res_Inl_iff split: if_splits dest: create_error tbl_create_error usage_error)

lemma move_error:
  "bind_res (update_db_usage info ctx p d) (\<lambda>ctx. update_db_usage info ctx q d') = Inl e \<Longrightarrow> expected_error e"
  by (auto simp: bind_res_Inl_iff dest: usage_error)

lemma db_update_error:
  assumes inv: "contract_inv ctx" and app: "db_update_i64 info ctx iterator payer buffer = Inl e"
  shows "expected_error e"
proof (cases "cache_get kv_view (key_values (tdb ctx)) (keyval_cache ctx) iterator")
  case (Inl e')
  then show ?thesis using app get_error [OF contract_invD(5) [OF inv] Inl] by (simp add: db_update_i64_def)
next
  case (Inr obj)
  obtain t where "get_table (tables (tdb ctx)) (keyval_cache ctx) (kv_t_id obj) = Inr t"
    using get_table_ok [OF contract_invD(5,3) [OF inv] Inr] by auto
  with app Inr show ?thesis
    unfolding db_update_i64_def Let_def
    by (auto simp: bind_res_Inl_iff split: if_splits dest: usage_error)
qed

lemma idx_update_error:
  assumes inv: "contract_inv ctx" and app: "idx_update sz info ctx iterator payer x = Inl e"
  shows "expected_error e"
proof (cases "cache_get ix_view (index_rows (tdb ctx)) (index_cache ctx) iterator")
  case (Inl e')
  then show ?thesis using app get_error [OF contract_invD(6) [OF inv] Inl] by (simp add: idx_update_def)
next
  case (Inr obj)
  obtain t where "get_table (tables (tdb ctx)) (index_cache ctx) (ix_t_id obj) = Inr t"
    using get_table_ok [OF contract_invD(6,4) [OF inv] Inr] by auto
  with app Inr show ?thesis
    unfolding idx_update_def Let_def
    by (auto simp: bind_res_Inl_iff split: if_splits dest: usage_error)
qed

lemma remove_table_cache: "remove_table info ctx t = Inr ctx' \<Longrightarrow> keyval_cache ctx' = keyval_cache ctx \<and> index_cache ctx' = index_cache ctx"
  by (erule remove_tableE) (simp add: update_db_usage_frame)

lemma db_remove_error:
  assumes inv: "contract_inv ctx" and app: "db_remove_i64 info ctx iterator = Inl e"
  shows "expected_error e"
proof (cases "cache_get kv_view (key_values (tdb ctx)) (keyval_cache ctx) iterator")
  case (Inl e')
  then show ?thesis using app get_error [OF contract_invD(5) [OF inv] Inl] by (simp add: db_remove_i64_def)
next
  case (Inr obj)
  obtain t where t: "get_table (tables (tdb ctx)) (keyval_cache ctx) (kv_t_id obj) = Inr t"
    using get_table_ok [OF contract_invD(5,3) [OF inv] Inr] by auto
  obtain c' where c': "cache_remove (keyval_cache ctx) iterator = Inr c'" using cache_remove_ok [OF Inr] by blast
  show ?thesis
    using app Inr t c' unfolding db_remove_i64_def Let_def
    by (auto simp: bind_res_Inl_iff add_count_def update_db_usage_frame split: if_splits
        dest: usage_error remove_table_error remove_table_cache)
qed

lemma idx_remove_error:
  assumes inv: "contract_inv ctx" and app: "idx_remove sz info ctx iterator = Inl e"
  shows "expected_error e"
proof (cases "cache_get ix_view (index_rows (tdb ctx)) (index_cache ctx) iterator")
  case (Inl e')
  then show ?thesis using app get_error [OF contract_invD(6) [OF inv] Inl] by (simp add: idx_remove_def)
next
  case (Inr obj)
  obtain t where t: "get_table (tables (tdb ctx)) (index_cache ctx) (ix_t_id obj) = Inr t"
    using get_table_ok [OF contract_invD(6,4) [OF inv] Inr] by auto
  obtain c' where c': "cache_remove (index_cache ctx) iterator = Inr c'" using cache_remove_ok [OF Inr] by blast
  show ?thesis
    using app Inr t c' unfolding idx_remove_def Let_def
    by (auto simp: bind_res_Inl_iff add_count_def update_db_usage_frame split: if_splits
        dest: usage_error remove_table_error remove_table_cache)
qed

text \<open>
  Going back from an end iterator reads the table through the cached pointer: the one place where a
  stale pointer is read, after the last row of the table was removed.
\<close>

lemma cursor_previous_error:
  assumes wf: "cursor_wf nt v key rows c" and app: "cursor_previous ts v key rows c iterator pk = Inl e"
  shows "expected_error e \<or> e = undefined_behaviour \<and>
    (iterator = - (2 ^ 31) \<or> (\<exists>t. table_cache c t = Some (t, iterator) \<and> t \<notin> ti_id ` set ts))"
proof (cases "iterator < - 1")
  case False
  show ?thesis
  proof (cases "cache_get v rows c iterator")
    case (Inl e')
    then show ?thesis using app False get_error [OF cursor_wfD(1) [OF wf] Inl] by (auto simp: cursor_previous_def)
  next
    case (Inr obj)
    show ?thesis by (rule cursor_previous_cases [OF wf Inr, of ts pk]) (use app in auto)
  qed
next
  case True
  show ?thesis
  proof (cases "iterator = - (2 ^ 31)")
    case least: True
    then show ?thesis
      using app by (simp add: cursor_previous_def find_table_by_end_iterator_def end_iterator_to_index_def)
  next
    case least: False
    let ?n = "nat (- iterator - 2)"
    show ?thesis
    proof (cases "?n < length (end_iterator_to_table c)")
      case n: False
      then have "e = invalid_table_iterator"
        using app True least
        by (simp add: cursor_previous_def find_table_by_end_iterator_def end_iterator_to_index_def)
      then show ?thesis by simp
    next
      case n: True
      let ?t = "end_iterator_to_table c ! ?n"
      have "iterator = index_to_end_iterator ?n" using True by (simp add: index_to_end_iterator_def)
      then have tc: "table_cache c ?t = Some (?t, iterator)" using cache_inv_endD [OF cursor_wfD(1) [OF wf] n] by simp
      have "find_table_by_end_iterator c iterator = Inr (Some ?t)"
        using True least n by (simp add: find_table_by_end_iterator_def end_iterator_to_index_def)
      then have "table_at ts ?t = Inl e"
        using app True by (auto simp: cursor_previous_def bind_res_Inl_iff split: option.splits prod.splits if_splits)
      then have "e = undefined_behaviour" "?t \<notin> ti_id ` set ts"
        by (auto simp: table_at_def tbl_find_None_iff split: option.splits)
      with tc show ?thesis by blast
    qed
  qed
qed

section \<open>The map a contract sees\<close>

text \<open>
  The specification the tables refine: two maps, of which an action of the contract \<open>code\<close> changes one
  entry of its own at a time.
\<close>

inductive map_step :: "u64 \<Rightarrow> (row_key \<rightharpoonup> u64 \<times> u8 list) \<times> (row_key \<rightharpoonup> u64 \<times> 's) \<Rightarrow>
    (row_key \<rightharpoonup> u64 \<times> u8 list) \<times> (row_key \<rightharpoonup> u64 \<times> 's) \<Rightarrow> bool" for code :: u64 where
  map_read: "map_step code s s"
| map_insert: "m k = None \<Longrightarrow> fst (fst k) = code \<Longrightarrow> payer \<noteq> 0 \<Longrightarrow> map_step code (m, n) (m(k \<mapsto> (payer, b)), n)"
| map_update: "m k = Some (p, b) \<Longrightarrow> fst (fst k) = code \<Longrightarrow> p' = p \<or> p' \<noteq> 0 \<Longrightarrow> map_step code (m, n) (m(k \<mapsto> (p', b')), n)"
| map_delete: "m k \<noteq> None \<Longrightarrow> fst (fst k) = code \<Longrightarrow> map_step code (m, n) (m(k := None), n)"
| map_insert_secondary: "n k = None \<Longrightarrow> fst (fst k) = code \<Longrightarrow> payer \<noteq> 0 \<Longrightarrow> map_step code (m, n) (m, n(k \<mapsto> (payer, x)))"
| map_update_secondary: "n k = Some (p, x) \<Longrightarrow> fst (fst k) = code \<Longrightarrow> p' = p \<or> p' \<noteq> 0 \<Longrightarrow> map_step code (m, n) (m, n(k \<mapsto> (p', x')))"
| map_delete_secondary: "n k \<noteq> None \<Longrightarrow> fst (fst k) = code \<Longrightarrow> map_step code (m, n) (m, n(k := None))"

lemma map_step_other: "map_step code s s' \<Longrightarrow> fst (fst k) \<noteq> code \<Longrightarrow> fst s' k = fst s k \<and> snd s' k = snd s k"
  by (induction rule: map_step.induct) auto

lemma contract_step_map:
  assumes step: "contract_step sz info ctx ctx'" and inv: "contract_inv ctx"
  shows "map_step (receiver info) (kv_map ctx, ix_map ctx) (kv_map ctx', ix_map ctx')"
  using step inv
proof (cases rule: contract_step_cases)
  case read
  then have "kv_map ctx' = kv_map ctx" "ix_map ctx' = ix_map ctx"
    using read_same(1) [OF read] by (simp_all add: kv_map_def ix_map_def)
  then show ?thesis by (simp add: map_read)
next
  case (store scope table payer pk buffer i)
  have app: "db_store_i64_code info ctx (receiver info) scope table payer pk buffer = Inr (ctx', i)"
    using store(1) by (simp add: db_store_i64_def)
  have "payer \<noteq> 0" using db_storeE [OF app] by metis
  with kv_store_maps [OF inv app store(2,3)] show ?thesis by (simp add: map_insert)
next
  case (update i payer buffer)
  show ?thesis
    by (rule kv_update_maps [OF inv update(1)]) (auto intro!: map_update)
next
  case (remove i)
  show ?thesis by (rule kv_remove_maps [OF inv remove]) (simp add: map_delete)
next
  case (idx_store scope table payer pk x i)
  have "payer \<noteq> 0" using idx_storeE [OF idx_store(1)] by metis
  with ix_store_maps [OF inv idx_store(1,2)] show ?thesis by (simp add: map_insert_secondary)
next
  case (idx_update i payer x)
  show ?thesis
    by (rule ix_update_maps [OF inv idx_update]) (auto intro!: map_update_secondary)
next
  case (idx_remove i)
  show ?thesis by (rule ix_remove_maps [OF inv idx_remove]) (simp add: map_delete_secondary)
qed

section \<open>Iterators and rows\<close>

text \<open>The iterator of a row, while it is in the cache.\<close>

lemma kv_iterator:
  assumes inv: "contract_inv ctx" and r: "r \<in> set (key_values (tdb ctx))"
    and i: "object_to_iterator (keyval_cache ctx) (kv_id r) = Some i"
  shows "cache_get kv_view (key_values (tdb ctx)) (keyval_cache ctx) i = Inr r" and "0 \<le> i"
  using cache_get_obj [OF contract_invD(5) [OF inv] _ r] contract_invD(7) [OF inv] i by simp_all

lemma kv_iterator_unique:
  assumes inv: "contract_inv ctx" and g: "cache_get kv_view (key_values (tdb ctx)) (keyval_cache ctx) i = Inr r"
  shows "r \<in> set (key_values (tdb ctx))" and "object_to_iterator (keyval_cache ctx) (kv_id r) = Some i" and "0 \<le> i"
  using cache_getD [OF contract_invD(5) [OF inv] _ g] contract_invD(7) [OF inv] by simp_all

text \<open>A move and the move back, as steps of the context.\<close>

lemma db_next_cases:
  assumes inv: "contract_inv ctx" and g: "cache_get kv_view (key_values (tdb ctx)) (keyval_cache ctx) i = Inr obj"
  obtains (row) r ctx' j where "db_next_i64 ctx i pk = Inr (ctx', j, kv_primary_key r)"
      and "idx_next by_scope_primary obj (key_values (tdb ctx)) = Some r" and "kv_t_id r = kv_t_id obj"
      and "contract_inv ctx'" and "tdb ctx' = tdb ctx" and "r \<in> set (key_values (tdb ctx))"
      and "object_to_iterator (keyval_cache ctx') (kv_id r) = Some j"
      and "object_to_iterator (keyval_cache ctx') (kv_id obj) = Some i"
  | (at_end) ei where "db_next_i64 ctx i pk = Inr (ctx, ei, pk)" and "ei < - 1"
      and "table_cache (keyval_cache ctx) (kv_t_id obj) = Some (kv_t_id obj, ei)"
      and "\<And>r. r \<in> set (key_values (tdb ctx)) \<Longrightarrow> kv_t_id r = kv_t_id obj \<Longrightarrow> by_scope_primary r \<le> by_scope_primary obj"
  using contract_cursors(1) [OF inv] g
proof (cases rule: cursor_next_cases [where pk = pk])
  case (row r c' j)
  let ?ctx = "ctx\<lparr>keyval_cache := c'\<rparr>"
  have n: "db_next_i64 ctx i pk = Inr (?ctx, j, kv_primary_key r)" using row(4) by (simp add: db_next_i64_def)
  have inv': "contract_inv ?ctx" by (rule read_inv [OF inv disjI1 [OF db_moves_read(1) [OF inv n]]])
  have "object_to_iterator c' (kv_id obj) = Some i"
  proof -
    note uo = kv_iterator_unique [OF inv g]
    obtain c2 j2 where a: "cache_add (keyval_cache ctx) (kv_id r) = (c2, j2)" by (metis surj_pair)
    have "c2 = c'" using row(1-4) g uo(3) a by (simp add: cursor_next_def)
    have "table_cache (keyval_cache ctx) (row_table kv_view r) \<noteq> None"
      using cache_getD(4) [OF contract_invD(5) [OF inv] _ g] contract_invD(7) [OF inv] row(3) by simp
    then show ?thesis
      using cache_add_inv(5) [OF contract_invD(5) [OF inv] row(2) _ , of c2 j2] a uo(2) \<open>c2 = c'\<close> by simp
  qed
  with n row inv' show ?thesis by (intro that(1) [of ?ctx j r]) simp_all
next
  case (at_end ei)
  have "db_next_i64 ctx i pk = Inr (ctx, ei, pk)" using at_end(1) by (simp add: db_next_i64_def)
  then show ?thesis by (rule that(2)) (use at_end in simp_all)
qed

end
