(* ===== verification/Contract_Sample.thy ===== *)
theory Contract_Sample
  imports Contract_Spec
begin

text \<open>
  A small run: two rows and an entry of a secondary index are stored in one table by its contract, and a
  table whose only row is removed.
\<close>

definition sample_table_info :: "unit apply_info" where
  "sample_table_info = \<lparr>receiver = 7, the_action = \<lparr>act_account = 7, act_name = 1, act_authorization = [], act_data = ()\<rparr>,
     privileged = False, ram_restrictions = True, ram_billing_in_notify_allowed = False\<rparr>"

definition sample_start :: "u64 contract_ctx" where
  "sample_start = initial_ctx sample_account_db"

definition sample_first :: "u64 contract_ctx" where
  "sample_first = fst (projr (db_store_i64 sample_table_info sample_start 1 2 7 5 [1, 2]))"

definition sample_second :: "u64 contract_ctx" where
  "sample_second = fst (projr (db_store_i64 sample_table_info sample_first 1 2 7 3 [9]))"

definition sample_indexed :: "u64 contract_ctx" where
  "sample_indexed = fst (projr (idx_store billable_index64_object sample_table_info sample_second 1 2 7 5 100))"

definition sample_emptied :: "u64 contract_ctx" where
  "sample_emptied = projr (db_remove_i64 sample_table_info sample_first 0)"

lemma sample_results:
  "is_ok (db_store_i64 sample_table_info sample_start 1 2 7 5 [1, 2])"
  "snd (projr (db_store_i64 sample_table_info sample_start 1 2 7 5 [1, 2])) = 0"
  "is_ok (db_store_i64 sample_table_info sample_first 1 2 7 3 [9])"
  "snd (projr (db_store_i64 sample_table_info sample_first 1 2 7 3 [9])) = 1"
  "is_ok (idx_store billable_index64_object sample_table_info sample_second 1 2 7 5 100)"
  "snd (projr (idx_store billable_index64_object sample_table_info sample_second 1 2 7 5 100)) = 0"
  "is_ok (db_remove_i64 sample_table_info sample_first 0)"
  by code_simp+

lemma ok_pair: "is_ok m \<Longrightarrow> snd (projr m) = i \<Longrightarrow> m = Inr (fst (projr m), i)"
  by (cases m) auto

lemma sample_calls:
  "db_store_i64 sample_table_info sample_start 1 2 7 5 [1, 2] = Inr (sample_first, 0)"
  "db_store_i64 sample_table_info sample_first 1 2 7 3 [9] = Inr (sample_second, 1)"
  "idx_store billable_index64_object sample_table_info sample_second 1 2 7 5 100 = Inr (sample_indexed, 0)"
  using ok_pair [OF sample_results(1,2)] ok_pair [OF sample_results(3,4)] ok_pair [OF sample_results(5,6)]
  by (simp_all add: sample_first_def sample_second_def sample_indexed_def)

lemma sample_remove: "db_remove_i64 sample_table_info sample_first 0 = Inr sample_emptied"
  using sample_results(7) by (auto simp: sample_emptied_def is_ok_iff)

lemma sample_start_inv: "contract_inv sample_start"
  unfolding sample_start_def by (rule initial_inv)

lemma sample_rows: "rows_total (tdb sample_start) = 0" "rows_total (tdb sample_first) = 1" "rows_total (tdb sample_second) = 2"
  by code_simp+

lemma sample_steps:
  "contract_step billable_index64_object sample_table_info sample_start sample_first"
  "contract_step billable_index64_object sample_table_info sample_first sample_second"
  "contract_step billable_index64_object sample_table_info sample_second sample_indexed"
  "contract_step billable_index64_object sample_table_info sample_first sample_emptied"
proof -
  show "contract_step billable_index64_object sample_table_info sample_start sample_first"
    by (rule step_store [OF sample_calls(1)]) (simp_all add: buffer_fits_def sample_rows)
  show "contract_step billable_index64_object sample_table_info sample_first sample_second"
    by (rule step_store [OF sample_calls(2)]) (simp_all add: buffer_fits_def sample_rows)
  show "contract_step billable_index64_object sample_table_info sample_second sample_indexed"
    by (rule step_idx_store [OF sample_calls(3)]) (simp add: sample_rows)
  show "contract_step billable_index64_object sample_table_info sample_first sample_emptied"
    by (rule step_remove [OF sample_remove])
qed

lemma sample_run: "(contract_run billable_index64_object {sample_table_info})\<^sup>*\<^sup>* (initial_ctx sample_account_db) sample_indexed"
proof -
  let ?run = "contract_run billable_index64_object {sample_table_info}"
  have "?run sample_start sample_first" "?run sample_first sample_second" "?run sample_second sample_indexed"
    by (rule run_call [OF singletonI], rule sample_steps)+
  then show ?thesis unfolding sample_start_def [symmetric]
    by (meson rtranclp.rtrancl_refl rtranclp.rtrancl_into_rtrancl)
qed

lemmas sample_first_inv = contract_step_inv [OF sample_start_inv sample_steps(1)]
lemmas sample_second_inv = contract_step_inv [OF sample_first_inv sample_steps(2)]

end
