(* ===== verification/Contract_Props.thy ===== *)
theory Contract_Props
  imports Contract_Sample
begin

text \<open>
  What holds of the contract tables over every run of actions and calls: the invariant, no read through
  a stale pointer but one, exact RAM accounting, the refinement of a map per contract, and the round trip
  of a row.
\<close>

section \<open>The properties\<close>

text \<open>
  C16 (invariant). After any sequence of actions and calls that starts with empty tables, keys and
  identifiers are unique, every row is in a table that exists, each table counts its rows and has one,
  and both iterator caches map iterators to existing rows of cached tables and back.
\<close>

theorem contract_inv_reachable:
  assumes "(contract_run sz infos)\<^sup>*\<^sup>* (initial_ctx rl) ctx"
  shows "contract_inv ctx"
  by (rule contract_runs_inv [OF assms initial_inv])

theorem contract_inv_reachable_witness: "contract_inv sample_indexed"
  by (rule contract_inv_reachable [OF sample_run])

text \<open>Going back from a stale end iterator is the one move that may read a removed table.\<close>

definition stale_end :: "table_id_object list \<Rightarrow> iterator_cache \<Rightarrow> int \<Rightarrow> bool" where
  "stale_end ts c i \<longleftrightarrow> i = - (2 ^ 31) \<or> (\<exists>t. table_cache c t = Some (t, i) \<and> t \<notin> ti_id ` set ts)"

lemma cursor_previous_stale:
  "cursor_wf nt v key rows c \<Longrightarrow> cursor_previous ts v key rows c i pk = Inl e \<Longrightarrow> expected_error e \<or> stale_end ts c i"
  using cursor_previous_error unfolding stale_end_def by blast

lemma next_error:
  assumes "contract_inv ctx"
  shows "db_next_i64 ctx i pk = Inl e \<Longrightarrow> e = invalid_table_iterator \<or> e = table_operation_not_permitted"
    and "idx_next_primary ctx i pk = Inl e \<Longrightarrow> e = invalid_table_iterator \<or> e = table_operation_not_permitted"
    and "idx_next_secondary ctx i pk = Inl e \<Longrightarrow> e = invalid_table_iterator \<or> e = table_operation_not_permitted"
  using cursor_next_error [OF contract_cursors(1) [OF assms]] cursor_next_error [OF contract_cursors(2) [OF assms]]
    cursor_next_error [OF contract_cursor_secondary [OF assms]]
  by (auto simp: db_next_i64_def idx_next_primary_def idx_next_secondary_def bind_res_Inl_iff)

lemma previous_error:
  assumes "contract_inv ctx"
  shows "db_previous_i64 ctx i pk = Inl e \<Longrightarrow> expected_error e \<or> stale_end (tables (tdb ctx)) (keyval_cache ctx) i"
    and "idx_previous_primary ctx i pk = Inl e \<Longrightarrow> expected_error e \<or> stale_end (tables (tdb ctx)) (index_cache ctx) i"
    and "idx_previous_secondary ctx i pk = Inl e \<Longrightarrow> expected_error e \<or> stale_end (tables (tdb ctx)) (index_cache ctx) i"
  using cursor_previous_stale [OF contract_cursors(1) [OF assms]] cursor_previous_stale [OF contract_cursors(2) [OF assms]]
    cursor_previous_stale [OF contract_cursor_secondary [OF assms]]
  by (auto simp: db_previous_i64_def idx_previous_primary_def idx_previous_secondary_def bind_res_Inl_iff)

lemma gets_error:
  assumes "contract_inv ctx"
  shows "db_get_i64 ctx i n = Inl e \<Longrightarrow> e = invalid_table_iterator \<or> e = table_operation_not_permitted"
    and "idx_get ctx i = Inl e \<Longrightarrow> e = invalid_table_iterator \<or> e = table_operation_not_permitted"
  using cache_get_error [OF contract_invD(5) [OF assms]] cache_get_error [OF contract_invD(6) [OF assms]]
  by (auto simp: db_get_i64_def idx_get_def Let_def bind_res_Inl_iff split: if_splits)

text \<open>
  C6 (safety). In a state that calls can reach, no call that can fail reads through a stale pointer or
  finds the table of a cached row missing from the cache, whatever iterator it is given; the exceptions
  are the three calls that go back, from an end iterator whose table has been removed or from the least
  \<open>int\<close>.  The other calls (\<open>find\<close>, \<open>lowerbound\<close>, \<open>upperbound\<close>, \<open>end\<close>) take no iterator and do not fail.
\<close>

theorem contract_calls_defined:
  assumes "(contract_run sz infos)\<^sup>*\<^sup>* (initial_ctx rl) ctx"
  shows "(db_store_i64 info ctx scope table payer pk b = Inl e \<longrightarrow> e \<noteq> undefined_behaviour \<and> e \<noteq> table_not_in_cache) \<and>
    (db_update_i64 info ctx i payer b = Inl e \<longrightarrow> e \<noteq> undefined_behaviour \<and> e \<noteq> table_not_in_cache) \<and>
    (db_remove_i64 info ctx i = Inl e \<longrightarrow> e \<noteq> undefined_behaviour \<and> e \<noteq> table_not_in_cache) \<and>
    (db_get_i64 ctx i n = Inl e \<longrightarrow> e = invalid_table_iterator \<or> e = table_operation_not_permitted) \<and>
    (db_next_i64 ctx i pk = Inl e \<longrightarrow> e = invalid_table_iterator \<or> e = table_operation_not_permitted) \<and>
    (db_previous_i64 ctx i pk = Inl e \<longrightarrow> e \<noteq> undefined_behaviour \<and> e \<noteq> table_not_in_cache \<or>
       i = - (2 ^ 31) \<or> (\<exists>t. table_cache (keyval_cache ctx) t = Some (t, i) \<and> t \<notin> ti_id ` set (tables (tdb ctx)))) \<and>
    (idx_store sz' info ctx scope table payer pk x = Inl e \<longrightarrow> e \<noteq> undefined_behaviour \<and> e \<noteq> table_not_in_cache) \<and>
    (idx_update sz' info ctx i payer x = Inl e \<longrightarrow> e \<noteq> undefined_behaviour \<and> e \<noteq> table_not_in_cache) \<and>
    (idx_remove sz' info ctx i = Inl e \<longrightarrow> e \<noteq> undefined_behaviour \<and> e \<noteq> table_not_in_cache) \<and>
    (idx_get ctx i = Inl e \<longrightarrow> e = invalid_table_iterator \<or> e = table_operation_not_permitted) \<and>
    (idx_next_primary ctx i pk = Inl e \<longrightarrow> e = invalid_table_iterator \<or> e = table_operation_not_permitted) \<and>
    (idx_next_secondary ctx i pk = Inl e \<longrightarrow> e = invalid_table_iterator \<or> e = table_operation_not_permitted) \<and>
    (idx_previous_primary ctx i pk = Inl e \<longrightarrow> e \<noteq> undefined_behaviour \<and> e \<noteq> table_not_in_cache \<or>
       i = - (2 ^ 31) \<or> (\<exists>t. table_cache (index_cache ctx) t = Some (t, i) \<and> t \<notin> ti_id ` set (tables (tdb ctx)))) \<and>
    (idx_previous_secondary ctx i pk = Inl e \<longrightarrow> e \<noteq> undefined_behaviour \<and> e \<noteq> table_not_in_cache \<or>
       i = - (2 ^ 31) \<or> (\<exists>t. table_cache (index_cache ctx) t = Some (t, i) \<and> t \<notin> ti_id ` set (tables (tdb ctx))))"
proof -
  have inv: "contract_inv ctx" by (rule contract_runs_inv [OF assms initial_inv])
  note moves = next_error [OF inv] previous_error [OF inv, unfolded expected_error_def stale_end_def]
  note writes = db_store_error [of info ctx "receiver info", folded db_store_i64_def, unfolded expected_error_def]
    db_update_error [OF inv, of info, unfolded expected_error_def] db_remove_error [OF inv, of info, unfolded expected_error_def]
    idx_store_error [of sz' info, unfolded expected_error_def]
    idx_update_error [OF inv, of sz' info, unfolded expected_error_def]
    idx_remove_error [OF inv, of sz' info, unfolded expected_error_def]
  show ?thesis by (intro conjI [OF impI] impI; (erule moves gets_error [OF inv] writes))
qed

theorem contract_calls_defined_witness:
  "db_get_i64 sample_indexed 3 10 = Inl invalid_table_iterator \<and> db_remove_i64 sample_table_info sample_indexed 3 \<noteq> Inl undefined_behaviour"
proof -
  have "db_get_i64 sample_indexed 3 10 = Inl invalid_table_iterator" by code_simp
  then show ?thesis using contract_calls_defined [OF sample_run] by blast
qed

text \<open>
  C9 (functional). RAM accounting of contract tables is exact: after any run that starts with empty
  tables each account is billed, beyond what it was billed then, exactly the size of the tables, rows
  and index entries it pays for.
\<close>

theorem contract_ram_exact:
  fixes ctx :: "('s::linorder) contract_ctx"
  assumes "(contract_run sz infos)\<^sup>*\<^sup>* (initial_ctx rl) ctx"
    and "sz \<in> {billable_index64_object, billable_index128_object, billable_index256_object}"
  shows "ram_billed ctx a = ram_billed (initial_ctx rl :: 's contract_ctx) a +
    (\<Sum>t\<leftarrow>tables (tdb ctx). if ti_payer t = a then 112 else 0) +
    (\<Sum>r\<leftarrow>key_values (tdb ctx). if kv_payer r = a then int (length (kv_value r)) + 112 else 0) +
    (\<Sum>r\<leftarrow>index_rows (tdb ctx). if ix_payer r = a then sz else 0)"
proof -
  have "ram_delta_fits sz" using assms(2) by (auto simp: billable_table_sizes ram_delta_fits_def)
  note slack = contract_runs_slack [OF assms(1) initial_inv this, of a]
  have "table_owed sz (tdb (initial_ctx rl :: 's contract_ctx)) a = 0" by (simp add: table_owed_def initial_ctx_def empty_tables_def)
  with slack show ?thesis
    by (simp add: contract_slack_def table_owed_def owned_sum_def billable_table_sizes)
qed

theorem contract_ram_exact_witness: "ram_billed sample_indexed 7 = 112 + (114 + 113) + 128"
proof -
  have rows: "map ti_payer (tables (tdb sample_indexed)) = [7]" "map kv_payer (key_values (tdb sample_indexed)) = [7, 7]"
    "map (length \<circ> kv_value) (key_values (tdb sample_indexed)) = [2, 1]" "map ix_payer (index_rows (tdb sample_indexed)) = [7]"
    by code_simp+
  have "ram_billed (initial_ctx sample_account_db :: u64 contract_ctx) 7 = 0" by code_simp
  then show ?thesis
    using contract_ram_exact [OF sample_run, of 7] rows
    by (auto simp: map_eq_Cons_conv billable_table_sizes)
qed

text \<open>
  C3 (refinement). Each call is a step of a simple specification: a map from code, scope, table and key
  to payer and value for the rows, and one for the entries of the secondary index.  A call reads, or it
  adds, changes or deletes one entry, and the code of that entry is the receiver of the action.
\<close>

theorem contract_tables_refine_map:
  assumes "contract_step sz info ctx ctx'" and "(contract_run sz infos)\<^sup>*\<^sup>* (initial_ctx rl) ctx"
  shows "map_step (receiver info) (kv_map ctx, ix_map ctx) (kv_map ctx', ix_map ctx')"
  by (rule contract_step_map [OF assms(1) contract_runs_inv [OF assms(2) initial_inv]])

theorem contract_tables_refine_map_witness:
  "map_step 7 (kv_map sample_start, ix_map sample_start) (kv_map sample_first, ix_map sample_first)"
proof -
  have "(contract_run billable_index64_object {sample_table_info})\<^sup>*\<^sup>* (initial_ctx sample_account_db) sample_start"
    by (simp add: sample_start_def)
  from contract_tables_refine_map [OF sample_steps(1) this] show ?thesis by (simp add: sample_table_info_def)
qed

text \<open>
  A contract cannot change the tables of another: after a call of an action every row and
  index entry of a code other than the receiver is as before.
\<close>

theorem contract_tables_isolated:
  assumes "contract_step sz info ctx ctx'" and "contract_inv ctx" and "code \<noteq> receiver info"
  shows "kv_map ctx' ((code, scope, table), pk) = kv_map ctx ((code, scope, table), pk) \<and>
    ix_map ctx' ((code, scope, table), pk) = ix_map ctx ((code, scope, table), pk)"
  using map_step_other [OF contract_step_map [OF assms(1,2)], of "((code, scope, table), pk)"] assms(3) by simp

theorem contract_tables_isolated_witness: "kv_map sample_first ((8, 1, 2), 5) = kv_map sample_start ((8, 1, 2), 5)"
  using contract_tables_isolated [OF sample_steps(1) sample_start_inv, of 8 1 2 5] by (simp add: sample_table_info_def)

text \<open>
  C20 (roundtrip). The iterator a store returns stands for the stored row: reading through it gives
  back the buffer up to the size asked for, finding the key gives the same iterator, and storing the
  key again fails.
\<close>

theorem stored_row_found:
  assumes "db_store_i64 info ctx scope table payer pk b = Inr (ctx', i)" and "contract_inv ctx" and "buffer_fits b"
    and "rows_total (tdb ctx) + 1 < 2 ^ 32"
  shows "0 \<le> i \<and> kv_at ctx' i = Some ((receiver info, scope, table), pk) \<and>
    db_get_i64 ctx' i 0 = Inr (length b, []) \<and>
    (0 < n \<longrightarrow> db_get_i64 ctx' i n = Inr (min n (length b), take n b)) \<and>
    snd (db_find_i64 ctx' (receiver info) scope table pk) = i \<and>
    (p \<noteq> 0 \<longrightarrow> db_store_i64 info ctx' scope table p pk b' = Inl std_logic_error)"
proof -
  have app: "db_store_i64_code info ctx (receiver info) scope table payer pk b = Inr (ctx', i)"
    using assms(1) by (simp add: db_store_i64_def)
  note inv' = kv_store_inv [OF assms(2) app assms(3,4)]
  obtain ctx1 tab ctx2 where s: "find_or_create_table info ctx (receiver info) scope table payer = Inr (ctx1, tab)"
      "update_db_usage info (ctx1\<lparr>tdb := kv_stored (tdb ctx1) (ti_id tab) payer pk b\<rparr>) payer
           (int (length b) + billable_key_value_object) = Inr ctx2" "ctx' = ctx2\<lparr>keyval_cache := keyval_cache ctx'\<rparr>"
    using db_storeE [OF app] by metis
  note fc = find_or_create_wf [OF contract_invD(1) [OF assms(2)] s(1)]
  have db: "tdb ctx' = kv_stored (tdb ctx1) (ti_id tab) payer pk b"
    using arg_cong [OF s(3), of tdb] update_db_usage_frame(1) [OF s(2)] by simp
  let ?r = "\<lparr>kv_id = next_key_value (tdb ctx), kv_t_id = ti_id tab, kv_primary_key = pk, kv_payer = payer, kv_value = b\<rparr>"
  have mem: "?r \<in> set (key_values (tdb ctx'))" by (simp add: db kv_stored_def fc(5))
  have it: "object_to_iterator (keyval_cache ctx') (kv_id ?r) = Some i" using inv'(2) by simp
  note get = kv_iterator [OF inv'(1) mem it]
  obtain t where t: "t \<in> set (tables (tdb ctx'))" "ti_id t = ti_id tab" "by_code_scope_table t = by_code_scope_table tab"
  proof -
    have "(ti_id tab, by_code_scope_table tab) \<in> table_keys (tables (tdb ctx'))"
      using fc(2) by (auto simp: db kv_stored_def table_keys_mem)
    then show thesis using that unfolding table_keys_mem by blast
  qed
  note tf = tables_wf_find [OF contract_invD(2) [OF inv'(1)]]
  have "kv_at ctx' i = Some ((receiver info, scope, table), pk)"
    using get(1) t tf(1) [of "ti_id tab" t] fc(3) by (simp add: kv_at_def entry_at_def)
  moreover have ft: "find_table ctx' (receiver info) scope table = Some t"
    unfolding find_table_def using tf(2) t fc(3) by simp
  have found: "tbl_find by_scope_primary (ti_id t, pk) (key_values (tdb ctx')) = Some ?r"
    using rows_wf_find(2) [OF contract_invD(3) [OF inv'(1)]] mem t(2) by (simp add: by_scope_primary_def)
  have "snd (db_find_i64 ctx' (receiver info) scope table pk) = i"
  proof -
    obtain c e where ct: "cache_table (keyval_cache ctx') (ti_id t) = (c, e)" by (metis surj_pair)
    have "object_to_iterator c (kv_id ?r) = Some i"
      using cache_table_inv(4) [OF contract_invD(5) [OF inv'(1)] _ ct] find_tableD [OF inv'(1) ft] it by simp
    then show ?thesis by (simp add: db_find_i64_def ft found cursor_at_def ct cache_add_def t(2) [symmetric])
  qed
  moreover have "db_store_i64 info ctx' scope table p pk b' = Inl std_logic_error" if "p \<noteq> 0"
    using that found ft by (simp add: db_store_i64_def db_store_i64_code_def find_or_create_table_def tbl_create_def
        by_scope_primary_def Let_def)
  ultimately show ?thesis using get by (simp add: db_get_i64_def Let_def min_def)
qed

theorem stored_row_found_witness:
  "kv_at sample_first 0 = Some ((7, 1, 2), 5) \<and> db_get_i64 sample_first 0 1 = Inr (1, [1]) \<and>
   snd (db_find_i64 sample_first 7 1 2 5) = 0"
proof -
  have "rows_total (tdb sample_start) + 1 < 2 ^ 32" "buffer_fits [1, 2]" by (simp_all add: sample_rows buffer_fits_def)
  from stored_row_found [OF sample_calls(1) sample_start_inv this(2,1), of 1] show ?thesis
    by (simp add: sample_table_info_def)
qed

text \<open>
  C40 (error). Removing the last row of a table leaves its end iterator in the cache with a pointer to
  the removed table: going back from that iterator is undefined.
\<close>

theorem previous_of_removed_table_undefined:
  assumes "contract_inv ctx" and "db_remove_i64 info ctx i = Inr ctx'" and "find_table ctx code scope table = Some t"
    and "find_table ctx' code scope table = None"
    and "table_cache (keyval_cache ctx) (ti_id t) = Some (ti_id t, ei)" and "- (2 ^ 31) < ei"
  shows "db_previous_i64 ctx' ei pk = Inl undefined_behaviour"
proof -
  note inv' = kv_remove_inv [OF assms(1,2)]
  note wf = contract_invD [OF assms(1)] and wf' = contract_invD [OF inv']
  have t: "t \<in> set (tables (tdb ctx))" "by_code_scope_table t = (code, scope, table)"
    using find_tableD [OF assms(1,3)] by auto
  obtain obj t1 ctx1 ctx2 where s: "cache_get kv_view (key_values (tdb ctx)) (keyval_cache ctx) i = Inr obj"
      "drop_empty info (ctx1\<lparr>tdb := kv_removed (tdb ctx) obj\<rparr>) t1 = Inr ctx2"
      "cache_remove (keyval_cache ctx) i = Inr (keyval_cache ctx')" "ctx' = ctx2\<lparr>keyval_cache := keyval_cache ctx'\<rparr>"
    using db_removeE [OF assms(2,1)] by metis
  have same: "table_cache (keyval_cache ctx') = table_cache (keyval_cache ctx)"
    "end_iterator_to_table (keyval_cache ctx') = end_iterator_to_table (keyval_cache ctx)"
    using cache_remove_tables [OF s(3)] by simp_all
  have gone: "tbl_find ti_id (ti_id t) (tables (tdb ctx')) = None"
  proof (rule ccontr)
    assume "tbl_find ti_id (ti_id t) (tables (tdb ctx')) \<noteq> None"
    then obtain t' where t': "t' \<in> set (tables (tdb ctx'))" "ti_id t' = ti_id t"
      using tables_wf_find(1) [OF wf'(2)] by auto
    have "table_keys (tables (tdb ctx')) \<subseteq> table_keys (tables (tdb ctx))"
      using drop_empty_keys(1) [OF s(2)] arg_cong [OF s(4), of tdb] by (simp add: kv_removed_def)
    moreover have "(ti_id t, by_code_scope_table t') \<in> table_keys (tables (tdb ctx'))" using t' by (auto simp: table_keys_mem)
    ultimately have "by_code_scope_table t' = by_code_scope_table t"
      using table_key_at [OF wf(2) t(1) refl] by blast
    then show False
      using assms(4) t' t(2) tables_wf_find(2) [OF wf'(2), of "(code, scope, table)" t'] by (simp add: find_table_def)
  qed
  obtain n where n: "n < length (end_iterator_to_table (keyval_cache ctx))" "end_iterator_to_table (keyval_cache ctx) ! n = ti_id t"
      "ei = index_to_end_iterator n"
    using assms(5) unfolding cache_inv_table [OF wf(5)] by blast
  have "find_table_by_end_iterator (keyval_cache ctx') ei = Inr (Some (ti_id t))"
    using n assms(6) by (simp add: same find_table_by_end_iterator_def end_iterator_to_index_def index_to_end_iterator_def)
  moreover have "ei < - 1" using cache_inv_tableD(3) [OF wf(5) assms(5)] .
  ultimately show ?thesis by (simp add: db_previous_i64_def cursor_previous_def table_at_def gone)
qed

theorem previous_of_removed_table_undefined_witness: "db_previous_i64 sample_emptied (- 2) 0 = Inl undefined_behaviour"
proof -
  obtain t where t: "find_table sample_first 7 1 2 = Some t" "ti_id t = 0"
  proof -
    have "map_option ti_id (find_table sample_first 7 1 2) = Some 0" by code_simp
    then show thesis using that by auto
  qed
  have "find_table sample_emptied 7 1 2 = None" "table_cache (keyval_cache sample_first) 0 = Some (0, - 2)" by code_simp+
  then show ?thesis
    using previous_of_removed_table_undefined [OF sample_first_inv sample_remove t(1), of "- 2" 0] t(2) by simp
qed

end
