(* ===== verification/Contract_Scan.thy ===== *)
theory Contract_Scan
  imports Contract_Sample
begin

text \<open>
  Loops over a table.  \<open>scan\<close> is the loop every contract writes: start at a lower bound, read the row,
  go to the next, until the iterator is negative.
\<close>

section \<open>The rows of a table in order\<close>

definition rows_from :: "'s contract_ctx \<Rightarrow> nat \<Rightarrow> u64 \<Rightarrow> key_value_object list" where
  "rows_from ctx t pk =
     filter (\<lambda>r. kv_t_id r = t \<and> pk \<le> kv_primary_key r) (sort_key by_scope_primary (key_values (tdb ctx)))"

fun scan :: "nat \<Rightarrow> 's contract_ctx \<Rightarrow> int \<Rightarrow> nat \<Rightarrow> u8 list list res" where
  "scan 0 ctx i n = Inl undefined_behaviour"
| "scan (Suc fuel) ctx i n =
     (if i < 0 then Inr []
      else bind_res (db_get_i64 ctx i n) (\<lambda>(_, bytes).
           bind_res (db_next_i64 ctx i 0) (\<lambda>(ctx, i, _).
           bind_res (scan fuel ctx i n) (\<lambda>vs. Inr (bytes # vs)))))"

lemma set_rows_from:
  "set (rows_from ctx t pk) = {r \<in> set (key_values (tdb ctx)). kv_t_id r = t \<and> pk \<le> kv_primary_key r}"
  by (auto simp: rows_from_def)

lemma rows_from_sorted:
  assumes "contract_inv ctx"
  shows "sorted_wrt (\<lambda>x y. by_scope_primary x < by_scope_primary y) (rows_from ctx t pk)"
proof -
  have u: "tbl_unique by_scope_primary (key_values (tdb ctx))" using contract_invD(3) [OF assms] by (simp add: rows_wf_def)
  have "sorted_wrt (<) (map by_scope_primary (sort_key by_scope_primary (key_values (tdb ctx))))"
    using sort_key_view [OF u] by (simp add: strict_sorted_iff)
  then have "sorted_wrt (\<lambda>x y. by_scope_primary x < by_scope_primary y) (sort_key by_scope_primary (key_values (tdb ctx)))"
    by (simp add: sorted_wrt_map)
  then show ?thesis unfolding rows_from_def by (rule sorted_wrt_filter)
qed

text \<open>In the order of the index, rows of one table are ordered by their primary key.\<close>

lemma by_scope_primary_less: "kv_t_id x = kv_t_id y \<Longrightarrow> by_scope_primary x < by_scope_primary y \<longleftrightarrow> kv_primary_key x < kv_primary_key y"
  "kv_t_id x = kv_t_id y \<Longrightarrow> by_scope_primary x \<le> by_scope_primary y \<longleftrightarrow> kv_primary_key x \<le> kv_primary_key y"
  by (auto simp: by_scope_primary_def less_prod_def less_eq_prod_def)

lemma next_row_from:
  assumes inv: "contract_inv ctx" and rows: "rows_from ctx t pk = us @ r # vs"
  shows "vs = [] \<Longrightarrow> q \<in> set (key_values (tdb ctx)) \<Longrightarrow> kv_t_id q = t \<Longrightarrow> by_scope_primary q \<le> by_scope_primary r"
    and "vs = x # xs \<Longrightarrow> idx_next by_scope_primary r (key_values (tdb ctx)) = Some x"
proof -
  have u: "tbl_unique by_scope_primary (key_values (tdb ctx))" using contract_invD(3) [OF inv] by (simp add: rows_wf_def)
  have r: "r \<in> set (key_values (tdb ctx))" "kv_t_id r = t" "pk \<le> kv_primary_key r"
    using arg_cong [OF rows, of set] by (auto simp: set_rows_from)
  note sorted = rows_from_sorted [OF inv, of t pk, unfolded rows]
  have later: "q \<in> set vs" if "q \<in> set (key_values (tdb ctx))" "kv_t_id q = t" "by_scope_primary r < by_scope_primary q" for q
  proof -
    have "kv_primary_key r < kv_primary_key q" using that r(2) by (simp add: by_scope_primary_less(1))
    then have "q \<in> set (us @ r # vs)" using that r(3) unfolding rows [symmetric] by (simp add: set_rows_from)
    moreover have "q \<noteq> r" "q \<notin> set us" using that(3) sorted by (auto simp: sorted_wrt_append dest: less_asym)
    ultimately show ?thesis by simp
  qed
  show "by_scope_primary q \<le> by_scope_primary r" if "vs = []" "q \<in> set (key_values (tdb ctx))" "kv_t_id q = t"
    using later [of q] that by (cases "by_scope_primary r < by_scope_primary q") simp_all
  show "idx_next by_scope_primary r (key_values (tdb ctx)) = Some x" if vs: "vs = x # xs"
  proof -
    have x: "x \<in> set (key_values (tdb ctx))" "kv_t_id x = t"
      using arg_cong [OF rows, of set] vs by (auto simp: set_rows_from)
    have lt: "by_scope_primary r < by_scope_primary x" and least: "\<And>y. y \<in> set vs \<Longrightarrow> by_scope_primary x \<le> by_scope_primary y"
      using sorted vs by (auto simp: sorted_wrt_append less_imp_le)
    have "by_scope_primary x \<le> by_scope_primary y" if y: "y \<in> set (key_values (tdb ctx))" "by_scope_primary r < by_scope_primary y" for y
    proof (cases "kv_t_id y = t")
      case True
      then show ?thesis using least later y by blast
    next
      case False
      have "t \<le> kv_t_id y" using key_begins_with_table(1) [of r y] y(2) r(2) by simp
      with False x(2) show ?thesis by (simp add: by_scope_primary_def less_eq_prod_def)
    qed
    then show ?thesis using ordered_table.succ_Some [OF u r(1)] x(1) lt by blast
  qed
qed

section \<open>The loop\<close>

lemma scan_rows:
  assumes "contract_inv ctx" and "rows_from ctx t pk = us @ r # vs" and "0 < n"
    and "object_to_iterator (keyval_cache ctx) (kv_id r) = Some i" and "length vs + 1 < fuel"
  shows "scan fuel ctx i n = Inr (map (\<lambda>r. take n (kv_value r)) (r # vs))"
  using assms
proof (induction vs arbitrary: fuel ctx us r i)
  case Nil
  have r: "r \<in> set (key_values (tdb ctx))" "kv_t_id r = t" using arg_cong [OF Nil.prems(2), of set] by (auto simp: set_rows_from)
  note it = kv_iterator [OF Nil.prems(1) r(1) Nil.prems(4)]
  have get: "db_get_i64 ctx i n = Inr (min n (length (kv_value r)), take n (kv_value r))"
    using it(1) Nil.prems(3) by (simp add: db_get_i64_def Let_def min_def)
  obtain f where f: "fuel = Suc (Suc f)" using Nil.prems(5) by (metis Suc_lessE add_0 list.size(3) One_nat_def less_imp_Suc_add plus_nat.simps(2))
  show ?case using Nil.prems(1) it(1)
  proof (cases rule: db_next_cases [where pk = 0])
    case (row q ctx' j)
    have "by_scope_primary r < by_scope_primary q"
      using ordered_table.succ_Some [of by_scope_primary "key_values (tdb ctx)" r q] row(2) r(1) contract_invD(3) [OF Nil.prems(1)]
      by (simp add: rows_wf_def)
    moreover have "by_scope_primary q \<le> by_scope_primary r"
      by (rule next_row_from(1) [OF Nil.prems(1,2) refl row(6)]) (use row(3) r(2) in simp)
    ultimately show ?thesis by simp
  next
    case (at_end ei)
    then show ?thesis using get it(2) f by simp
  qed
next
  case (Cons x vs)
  have r: "r \<in> set (key_values (tdb ctx))" "kv_t_id r = t" using arg_cong [OF Cons.prems(2), of set] by (auto simp: set_rows_from)
  note it = kv_iterator [OF Cons.prems(1) r(1) Cons.prems(4)]
  have get: "db_get_i64 ctx i n = Inr (min n (length (kv_value r)), take n (kv_value r))"
    using it(1) Cons.prems(3) by (simp add: db_get_i64_def Let_def min_def)
  note nx = next_row_from(2) [OF Cons.prems(1,2) refl]
  have x: "x \<in> set (key_values (tdb ctx))" "kv_t_id x = t" using arg_cong [OF Cons.prems(2), of set] by (auto simp: set_rows_from)
  obtain f where f: "fuel = Suc f" "length vs + 1 < f" using Cons.prems(5) by (cases fuel) auto
  show ?case using Cons.prems(1) it(1)
  proof (cases rule: db_next_cases [where pk = 0])
    case (row q ctx' j)
    have q: "q = x" using row(2) nx by simp
    have "rows_from ctx' t pk = (us @ [r]) @ x # vs" using Cons.prems(2) by (simp add: rows_from_def row(5))
    from Cons.IH [OF row(4) this Cons.prems(3) row(7) [unfolded q] f(2)]
    show ?thesis using get it(2) row(1) f(1) by simp
  next
    case (at_end ei)
    have "by_scope_primary r < by_scope_primary x"
      using rows_from_sorted [OF Cons.prems(1), of t pk] Cons.prems(2) by (simp add: sorted_wrt_append)
    moreover have "by_scope_primary x \<le> by_scope_primary r" by (rule at_end(4) [OF x(1)]) (simp add: x(2) r(2))
    ultimately show ?thesis by simp
  qed
qed

text \<open>The lower bound is the first row from the key on.\<close>

lemma lowerbound_first:
  assumes inv: "contract_inv ctx" and tab: "find_table ctx code scope table = Some t"
    and app: "db_lowerbound_i64 ctx code scope table pk = (ctx', i)"
  shows "contract_inv ctx' \<and> tdb ctx' = tdb ctx \<and>
    (case rows_from ctx (ti_id t) pk of
       [] \<Rightarrow> i < - 1
     | r # _ \<Rightarrow> object_to_iterator (keyval_cache ctx') (kv_id r) = Some i)"
proof -
  have rd: "kv_read ctx ctx'" using db_lookups_read(2) [OF inv, of code scope table pk] app by simp
  have same: "contract_inv ctx'" "tdb ctx' = tdb ctx" using read_inv [OF inv disjI1 [OF rd]] read_same(1) [OF disjI1 [OF rd]] by auto
  let ?found = "lower_bound by_scope_primary (ti_id t, pk) (key_values (tdb ctx))"
  have u: "tbl_unique by_scope_primary (key_values (tdb ctx))" using contract_invD(3) [OF inv] by (simp add: rows_wf_def)
  have lt: "ti_id t < next_table (tdb ctx)" using find_tableD [OF inv tab] by simp
  have "case rows_from ctx (ti_id t) pk of [] \<Rightarrow> i < - 1 | r # _ \<Rightarrow> object_to_iterator (keyval_cache ctx') (kv_id r) = Some i"
  proof (rule cursor_at_cases [OF contract_invD(5) [OF inv] lt, where found = ?found], goal_cases)
    case (1 r)
    then show ?case by (rule bound_mem(2))
  next
    case row: (2 r c' j)
    have r: "r \<in> set (key_values (tdb ctx))" "(ti_id t, pk) \<le> by_scope_primary r"
      and least: "\<And>y. y \<in> set (key_values (tdb ctx)) \<Longrightarrow> (ti_id t, pk) \<le> by_scope_primary y \<Longrightarrow> by_scope_primary r \<le> by_scope_primary y"
      using row(1) lower_bound_Some_iff [OF u] by auto
    have mem: "r \<in> set (rows_from ctx (ti_id t) pk)"
      using r row(2) by (auto simp: set_rows_from by_scope_primary_def less_eq_prod_def)
    then obtain x xs where xs: "rows_from ctx (ti_id t) pk = x # xs" by (cases "rows_from ctx (ti_id t) pk") auto
    have "x \<in> set (rows_from ctx (ti_id t) pk)" by (simp add: xs)
    then have "by_scope_primary r \<le> by_scope_primary x"
      by (intro least) (auto simp: set_rows_from by_scope_primary_def less_eq_prod_def)
    then have "x = r"
      using rows_from_sorted [OF inv, of "ti_id t" pk] mem by (auto simp: xs dest: leD)
    moreover have "i = j" "keyval_cache ctx' = c'" using app row(3) by (auto simp: db_lowerbound_i64_def tab)
    ultimately show ?thesis using row(5) by (simp add: xs)
  next
    case no_row: (3 c' ei)
    have "rows_from ctx (ti_id t) pk = []"
    proof (rule ccontr)
      assume "rows_from ctx (ti_id t) pk \<noteq> []"
      then obtain y where "y \<in> set (rows_from ctx (ti_id t) pk)" by fastforce
      then have y: "y \<in> set (key_values (tdb ctx))" "kv_t_id y = ti_id t" "(ti_id t, pk) \<le> by_scope_primary y"
        by (auto simp: set_rows_from by_scope_primary_def less_eq_prod_def)
      then obtain r where r: "?found = Some r" using bound_None_iff(2) [of by_scope_primary "(ti_id t, pk)" "key_values (tdb ctx)"] by force
      then have "(ti_id t, pk) \<le> by_scope_primary r" "by_scope_primary r \<le> by_scope_primary y"
        using lower_bound_Some_iff [OF u] y by auto
      then have "kv_t_id r = ti_id t" using y(2) by (auto simp: by_scope_primary_def less_eq_prod_def)
      then show False using no_row(1) [OF r] by simp
    qed
    moreover have "i = ei" using app no_row(2) by (auto simp: db_lowerbound_i64_def tab)
    ultimately show ?thesis using no_row(5) by simp
  qed
  with same show ?thesis by simp
qed

text \<open>
  C10 (liveness). The loop over a table from a lower bound ends, and has then read every row of the
  table from that key on, once and in ascending order of the primary keys.
\<close>

theorem scan_visits_rows:
  assumes "(contract_run sz infos)\<^sup>*\<^sup>* (initial_ctx rl) ctx" and "find_table ctx code scope table = Some t"
    and "db_lowerbound_i64 ctx code scope table pk = (ctx', i)" and "0 < n" and "length (key_values (tdb ctx)) + 1 < fuel"
  shows "scan fuel ctx' i n = Inr (map (\<lambda>r. take n (kv_value r)) (rows_from ctx (ti_id t) pk)) \<and>
    sorted_wrt (<) (map kv_primary_key (rows_from ctx (ti_id t) pk)) \<and>
    set (rows_from ctx (ti_id t) pk) = {r \<in> set (key_values (tdb ctx)). kv_t_id r = ti_id t \<and> pk \<le> kv_primary_key r}"
proof -
  have inv: "contract_inv ctx" by (rule contract_runs_inv [OF assms(1) initial_inv])
  note lb = lowerbound_first [OF inv assms(2,3)]
  have len: "length (rows_from ctx (ti_id t) pk) \<le> length (key_values (tdb ctx))"
    using length_filter_le [of _ "sort_key by_scope_primary (key_values (tdb ctx))"] by (simp add: rows_from_def)
  have "scan fuel ctx' i n = Inr (map (\<lambda>r. take n (kv_value r)) (rows_from ctx (ti_id t) pk))"
  proof (cases "rows_from ctx (ti_id t) pk")
    case Nil
    then show ?thesis using lb assms(5) by (cases fuel) auto
  next
    case (Cons r vs)
    have "rows_from ctx' (ti_id t) pk = [] @ r # vs" using Cons lb by (simp add: rows_from_def)
    then show ?thesis using scan_rows [of ctx' "ti_id t" pk "[]" r vs n i fuel] lb Cons len assms(4,5) by simp
  qed
  moreover have "sorted_wrt (<) (map kv_primary_key (rows_from ctx (ti_id t) pk))"
    unfolding sorted_wrt_map
    by (rule sorted_wrt_mono_rel [OF _ rows_from_sorted [OF inv]]) (auto simp: set_rows_from by_scope_primary_less(1))
  ultimately show ?thesis by (simp add: set_rows_from)
qed

theorem scan_visits_rows_witness:
  "scan 5 (fst (db_lowerbound_i64 sample_indexed 7 1 2 0)) (snd (db_lowerbound_i64 sample_indexed 7 1 2 0)) 8 = Inr [[9], [1, 2]]"
proof -
  obtain t where t: "find_table sample_indexed 7 1 2 = Some t" "ti_id t = 0"
  proof -
    have "map_option ti_id (find_table sample_indexed 7 1 2) = Some 0" by code_simp
    then show thesis using that by auto
  qed
  have "length (key_values (tdb sample_indexed)) = 2" "map (\<lambda>r. take 8 (kv_value r)) (rows_from sample_indexed 0 0) = [[9], [1, 2]]"
    by code_simp+
  then show ?thesis
    using scan_visits_rows [OF sample_run t(1) prod.collapse [symmetric], of 8 5 0] t(2) by simp
qed

section \<open>Going back\<close>

text \<open>
  C25 (roundtrip). Going to the next row and back gives the same iterator and key, also when the next
  position is the end of the table.
\<close>

theorem previous_undoes_next:
  assumes "contract_inv ctx" and "cache_get kv_view (key_values (tdb ctx)) (keyval_cache ctx) i = Inr obj"
    and "db_next_i64 ctx i pk = Inr (ctx', j, pk')" and "- (2 ^ 31) < j"
  shows "\<exists>ctx''. db_previous_i64 ctx' j p = Inr (ctx'', i, kv_primary_key obj)"
  using assms(1,2)
proof (cases rule: db_next_cases [where pk = pk])
  case (row r ctx1 j1)
  have e: "ctx1 = ctx'" "j1 = j" using row(1) assms(3) by simp_all
  have u: "tbl_unique by_scope_primary (key_values (tdb ctx))" using contract_invD(3) [OF assms(1)] by (simp add: rows_wf_def)
  have obj: "obj \<in> set (key_values (tdb ctx))" using kv_iterator_unique(1) [OF assms(1,2)] .
  have prev: "idx_prev by_scope_primary r (key_values (tdb ctx)) = Some obj" by (rule ordered_table.prev_succ [OF u obj row(2)])
  have "object_to_iterator (keyval_cache ctx') (kv_id r) = Some j" "contract_inv ctx'" "r \<in> set (key_values (tdb ctx'))" "tdb ctx' = tdb ctx"
    using row(4-7) e by simp_all
  note it = kv_iterator [OF this(2,3,1)]
  have "object_to_iterator (keyval_cache ctx') (kv_id obj) = Some i" using row(8) e by simp
  then have "cache_add (keyval_cache ctx') (kv_id obj) = (keyval_cache ctx', i)" by (simp add: cache_add_def)
  then show ?thesis
    using it row(3) prev \<open>tdb ctx' = tdb ctx\<close> by (simp add: db_previous_i64_def cursor_previous_def)
next
  case (at_end ei)
  have e: "ctx' = ctx" "j = ei" using at_end(1) assms(3) by simp_all
  note wf = contract_invD [OF assms(1)]
  note uo = kv_iterator_unique [OF assms(1,2)]
  obtain t where t: "tbl_find ti_id (kv_t_id obj) (tables (tdb ctx)) = Some t"
    using rows_wf_live [OF wf(3) uo(1)] by (cases "tbl_find ti_id (kv_t_id obj) (tables (tdb ctx))") (auto simp: tbl_find_None_iff)
  have ei: "- (2 ^ 31) < ei" using assms(4) e by simp
  show ?thesis
  proof (rule cursor_previous_end_cases [OF contract_cursors(1) [OF assms(1)] at_end(3) ei t, of p], goal_cases)
    case row: (1 r c' k)
    have "by_scope_primary r = by_scope_primary obj"
      using row(4) [OF uo(1)] at_end(4) [of r] row(2,3) by (intro antisym) simp_all
    then have r: "r = obj"
      using rows_wf_find(2) [OF wf(3)] row(2) uo(1) by (metis option.inject)
    then have "k = i" using row(6) uo(2) by (simp add: cache_add_def)
    with row(1) r show ?case using e by (simp add: db_previous_i64_def)
  next
    case no_row: 2
    show ?case using no_row(2) [OF uo(1)] by simp
  qed
qed

theorem previous_undoes_next_witness: "\<exists>ctx. db_previous_i64 sample_second (- 2) 0 = Inr (ctx, 0, 5)"
proof -
  obtain obj where obj: "cache_get kv_view (key_values (tdb sample_second)) (keyval_cache sample_second) 0 = Inr obj" "kv_primary_key obj = 5"
  proof -
    have "map_sum id kv_primary_key (cache_get kv_view (key_values (tdb sample_second)) (keyval_cache sample_second) 0) = Inr 5"
      by code_simp
    then show thesis using that by (cases "cache_get kv_view (key_values (tdb sample_second)) (keyval_cache sample_second) 0") auto
  qed
  have "map_sum id snd (db_next_i64 sample_second 0 0) = Inr (- 2, 0)" by code_simp
  then obtain ctx' where n: "db_next_i64 sample_second 0 0 = Inr (ctx', - 2, 0)"
    by (cases "db_next_i64 sample_second 0 0") auto
  have "ctx' = sample_second"
    using sample_second_inv obj(1)
  proof (cases rule: db_next_cases [where pk = 0])
    case (row r c j)
    then show ?thesis using n kv_iterator(2) [OF row(4) _ row(7)] by simp
  qed (use n in simp)
  then show ?thesis using previous_undoes_next [OF sample_second_inv obj(1) n, of 0] obj(2) by simp
qed

end
