(* ===== verification/Spec2Isabelle.thy ===== *)
theory Spec2Isabelle
  imports Merkle Resource_Billing Authorization_Props System_Safety Controller_Props Contract_Props Contract_Scan
begin

text \<open>
  Verification of the chain library of a node for a delegated proof of stake blockchain
  (\<^verbatim>\<open>libraries/chain\<close>): a shallow embedding of the C++ code and theorems about it.

  \<^bold>\<open>The program.\<close>  Blocks arrive at the controller.  Their headers are checked against the header state
  of their branch, which knows the producer schedule and counts confirmations until a block is
  irreversible.  The fork database keeps the branches that are not irreversible yet, and the
  controller switches to the best one.  Executing a block executes the actions of its transactions:
  the authorization manager decides whether the signatures and permissions suffice, the native
  actions of the system account change accounts and permissions, contracts keep rows in tables, and
  the resource limits manager accounts for CPU, network and RAM.

  \<^bold>\<open>Conventions.\<close>  An exception is a value of \<open>chain_error\<close>, a function that may throw returns
  \<open>'a res\<close>.  Unsigned integers are words of their width, so arithmetic wraps as in the source; signed
  ones are \<open>int\<close> with the conversions written out where a value can leave the range.  A table of
  chainbase is the list of its rows with a unique key.  \<open>undefined_behaviour\<close> stands for what C++
  leaves undefined, and for running out of fuel.  Hashes, signatures, serialization and the execution
  of blocks are arguments of the definitions.

  \<^bold>\<open>Shared theories.\<close>
  \<^item> \<open>Chain_Prelude\<close>: results and errors, words, lists; the contracts \<open>codec\<close> (a pair of
    conversions) and \<open>accumulator\<close> (an incremental computation of a batch result).
  \<^item> \<open>Chain_Db\<close>: tables; the contract \<open>keyed_store\<close>, and sums over the rows of an owner.
  \<^item> \<open>Chain_Name\<close> (\<^verbatim>\<open>name.hpp\<close>, \<^verbatim>\<open>name.cpp\<close>): names and their strings; the round trip, and that setting
    a name accepts exactly the well-formed strings.
  \<^item> \<open>Block_Time\<close> (\<^verbatim>\<open>block_timestamp.hpp\<close>): slots and time points; the round trip and the slot that
    contains a time.
  \<^item> \<open>Merkle\<close> (\<^verbatim>\<open>merkle.cpp\<close>, \<^verbatim>\<open>incremental_merkle.hpp\<close>): the incremental tree gives the root of the batch
    computation for less than \<open>2 ^ 64\<close> leaves, and the computed depth is the least one.

  \<^bold>\<open>Resources\<close> (\<^verbatim>\<open>resource_limits.cpp\<close> and its headers).
  \<^item> \<open>Resource_Limits\<close>: the tables and the operations of the manager.
  \<^item> \<open>Resource_Accounting\<close>: the moving average against its exact value, the elastic limits and the
    usage of a block.
  \<^item> \<open>Resource_Totals\<close>: in every reachable state the totals are the sums over the accounts.
  \<^item> \<open>Resource_Billing\<close>: when a transaction is billed and when it is refused.

  \<^bold>\<open>Authorization.\<close>
  \<^item> \<open>Authority\<close> (\<^verbatim>\<open>authority.hpp\<close>), \<open>Authority_Checker\<close> (\<^verbatim>\<open>authority_checker.hpp\<close>): authorities and the
    recursive check with its cache.  It ends because the depth grows up to the limit.
  \<^item> \<open>Authority_Decides\<close>: the check against a declarative notion of satisfaction: it is sound, and where
    permissions refer to each other without a cycle and within the depth limit it decides satisfaction.
    The marks of used keys, in contrast, can be too few.
  \<^item> \<open>Authorization\<close> (\<^verbatim>\<open>authorization_manager.cpp\<close>), \<open>Authorization_Props\<close>: permissions, links and the
    check of a transaction; its soundness, the ancestors of a permission, and the well-formedness of
    the tables in every reachable state.

  \<^bold>\<open>Actions.\<close>
  \<^item> \<open>Apply_Context\<close> (\<^verbatim>\<open>apply_context.cpp\<close>): authorizations of the action and charging of RAM; the
    contract \<open>ram_ledger\<close> says that a charge changes the usage of its payer by its delta.  The
    check of the deadline in the loop over the RAM deltas is left out.
  \<^item> \<open>System_Contract\<close> (\<^verbatim>\<open>eosio_contract.cpp\<close>): the native actions, one definition per handler.
    \<open>System_Cases\<close> has a case rule for each, \<open>System_Ram\<close> shows that each bills exactly the change of
    what an account stores, \<open>System_Safety\<close> that each needs the authorization of the account it
    changes (cancelling a deferred transaction that of the cancelling actor, with a refund to the
    payer), and that accounts keep their permissions \<open>owner\<close> and \<open>active\<close>.
  \<^item> \<open>Contract_Tables\<close> (\<^verbatim>\<open>apply_context.cpp\<close>, \<^verbatim>\<open>apply_context.hpp\<close>, \<^verbatim>\<open>contract_table_objects.hpp\<close>): the rows
    of contracts, the iterator cache, the calls \<open>db_*_i64\<close> and the methods of \<open>generic_index\<close>.
    \<open>Contract_Order\<close> has the contract \<open>ordered_store\<close> of an ordered index, \<open>Contract_Inv\<close> the invariant,
    \<open>Contract_Calls\<close> and \<open>Contract_Cursor\<close> show that calls that write and calls that read keep it,
    \<open>Contract_Steps\<close> makes the calls a step relation, \<open>Contract_Ram\<close> does the RAM accounting,
    \<open>Contract_Refine\<close> and \<open>Contract_Spec\<close> relate the tables to a map, \<open>Contract_Sample\<close> is a small run.
    \<open>Contract_Props\<close> and \<open>Contract_Scan\<close> hold the properties: the invariant, that no stale pointer is
    read but by going back from the end of a table that was removed (or from the least \<open>int\<close>), exact billing, the refinement of a map in which a contract changes only its
    own entries, and that a loop over a table ends after visiting every row in order.

  \<^bold>\<open>Consensus.\<close>
  \<^item> \<open>Block_Header\<close> (\<^verbatim>\<open>block_header.cpp\<close>, \<^verbatim>\<open>block_header_state.cpp\<close>): headers, the scheduled producer, the
    next header state and its signature.  \<open>Header_Sample\<close> holds a concrete branch.
  \<^item> \<open>Dpos\<close>, \<open>Dpos_Branch\<close>: a block is proposed as irreversible, and is irreversible, only by a quorum of
    the producers, where for the proposal a header that confirms more blocks than there are counts once
    more; the irreversible block does not go back from a block to the next, except perhaps
    after the block that promotes a schedule.
  \<^item> \<open>Header_Acceptance\<close>: an accepted header is signed by the scheduled producer, and the header that
    producer makes is accepted.
  \<^item> \<open>Fork_Database\<close> (\<^verbatim>\<open>fork_database.cpp\<close>, \<^verbatim>\<open>block_state.cpp\<close>): the database; \<open>Fork_Tree\<close> its invariant and
    branches, \<open>Fork_Refinement\<close> the forest that its operations change, \<open>Fork_Props\<close> the properties of
    every reachable database.
  \<^item> \<open>Controller_Forks\<close> (\<^verbatim>\<open>controller.cpp\<close>), \<open>Controller_Props\<close>: receiving a block, switching forks and
    logging irreversible blocks.  A switch to another branch ends at the new head, or at the old head
    with the state it had; one whose old branch is empty is undefined when a block does not apply.  The
    log grows by the irreversible blocks in order.  Signals, the pool of unapplied transactions, the log
    of reversible blocks, the list of activated protocol features and the check for a pending block are
    left out, and so is the assertion of \<open>pop_block\<close> in speculative mode that the head has its block.

  \<^bold>\<open>Bounds and fuel.\<close>  The loops of the fork database over \<open>header.previous\<close> carry fuel, as many steps as
  there are blocks: under its invariant the block number falls at every step, and the theorems show
  that the fuel is enough.  The walk to the root of a permission has one step more than there are
  permissions, which is enough for a forest.  The loop \<open>scan\<close> over a table carries fuel, and any number above the number of
  rows plus one is enough.  The contract tables assume that a buffer lies in the 32-bit memory of a
  contract, and that there are less than \<open>2 ^ 32\<close> rows, so that the 32-bit counters of rows do not wrap.

  \<^bold>\<open>Not modelled.\<close>  The two floating point kinds of secondary index, ordered by the softfloat library, and several
  indices at once.  In the controller and the transaction context: starting and finishing blocks,
  the execution of transactions and actions, notifications, inline and deferred actions (but for
  cancelling them); applying a block is a parameter of the switch of forks.
  The registry of protocol features reaches the model as the validator of header states.  Packed
  transactions, assets and symbols and the chain configuration are data with local checks that the
  modelled components do not call.  The ABI serializer converts to and from the variants of \<open>fc\<close>.  The WebAssembly
  interface, its validation and runtime and the compiler builtins need a semantics of WebAssembly, and
  the bookkeeping of compiled code in \<open>setcode\<close> is left out with them.  The block log (here the list of
  its blocks), snapshots, the file of the fork database, the plugins and the programs are input and
  output over the \<open>fc\<close> and Boost libraries, which are not part of the sources.
\<close>

end
